(* ===== verification/Prelude.thy ===== *)
theory Prelude
  imports Main "HOL-Library.Word" "HOL-Library.AList" "HOL-Library.Multiset"
begin

section \<open>Prelude: Go's integers, times and errors, and shared list lemmas\<close>

text \<open>
  What every component of the development shares.

  \<^item> Go's \<open>int64\<close> (and \<open>int\<close>, \<open>time.Duration\<close>, which are 64 bits wide) as HOL
    integers; \<open>wrap64\<close> writes out the two's complement wrap-around of an arithmetic
    result and \<open>wrap64_sint\<close> relates it to the machine words of the library.
  \<^item> Times as integers counting nanoseconds; durations in the same unit.
  \<^item> Go's \<open>error\<close> values: the sentinels of the repository, foreign errors and
    \<open>fmt.Errorf("...%w")\<close> wrapping, with \<open>errors.Is\<close>.
  \<^item> The theorem collections the component theories fill, and generic lemmas on lists
    and association lists.
\<close>

named_theorems go_bounds "range facts for wrapped 64-bit values"
named_theorems frame "what an operation leaves unchanged"
named_theorems table_simps "effects of SQL statements on the tables"
named_theorems http_defs "response constructors of transport/rest"

subsection \<open>64-bit integers\<close>

type_synonym byte = "8 word"

definition wrap64 :: "int \<Rightarrow> int" where
  "wrap64 x = (x + 2 ^ 63) mod 2 ^ 64 - 2 ^ 63"

lemma wrap64_sint: "wrap64 x = sint (word_of_int x :: 64 word)"
  by (simp add: wrap64_def int_word_sint)

lemma wrap64_range [go_bounds]: "- (2 ^ 63) \<le> wrap64 x" "wrap64 x < 2 ^ 63"
proof -
  have "0 \<le> (x + 2 ^ 63) mod 2 ^ 64" "(x + 2 ^ 63) mod 2 ^ 64 < (2 ^ 64 :: int)"
    by (rule pos_mod_sign, simp) (rule pos_mod_bound, simp)
  then show "- (2 ^ 63) \<le> wrap64 x" "wrap64 x < 2 ^ 63"
    by (simp_all add: wrap64_def)
qed

lemma wrap64_id: "- (2 ^ 63) \<le> x \<Longrightarrow> x < 2 ^ 63 \<Longrightarrow> wrap64 x = x"
  by (simp add: wrap64_def)

subsection \<open>Times and durations, in nanoseconds\<close>

type_synonym time = int
type_synonym duration = int

definition Second :: duration where "Second = 10 ^ 9"
definition Minute :: duration where "Minute = 60 * Second"
definition Hour :: duration where "Hour = 60 * Minute"

lemma Hour_eq: "Hour = 3600000000000"
  by (simp add: Hour_def Minute_def Second_def)

lemma Minute_eq: "Minute = 60000000000"
  by (simp add: Minute_def Second_def)

subsection \<open>Unrendered text\<close>

text \<open>
  Error messages and header values that the code renders with a format string are kept
  as the format and its string arguments: no branch of the code depends on how they are
  rendered.
\<close>

datatype fmt = Sprintf string "string list"

subsection \<open>Errors\<close>

datatype goerr =
    ErrExpired
  | ErrWrongCode
  | ErrInvalidSlug
  | ErrNotFound
  | ErrShareLimit
  | ErrObjectNotFound
  | ErrNoSuchUpload
  | ErrNoRows
  | ApiError string          \<comment> \<open>a smithy.APIError with its ErrorCode()\<close>
  | Fault string             \<comment> \<open>any other error of the environment\<close>
  | Wrapped fmt goerr        \<comment> \<open>fmt.Errorf with one %w\<close>

primrec errors_is :: "goerr \<Rightarrow> goerr \<Rightarrow> bool" where
  "errors_is ErrExpired t = (t = ErrExpired)"
| "errors_is ErrWrongCode t = (t = ErrWrongCode)"
| "errors_is ErrInvalidSlug t = (t = ErrInvalidSlug)"
| "errors_is ErrNotFound t = (t = ErrNotFound)"
| "errors_is ErrShareLimit t = (t = ErrShareLimit)"
| "errors_is ErrObjectNotFound t = (t = ErrObjectNotFound)"
| "errors_is ErrNoSuchUpload t = (t = ErrNoSuchUpload)"
| "errors_is ErrNoRows t = (t = ErrNoRows)"
| "errors_is (ApiError c) t = (t = ApiError c)"
| "errors_is (Fault m) t = (t = Fault m)"
| "errors_is (Wrapped f e) t = (t = Wrapped f e \<or> errors_is e t)"

text \<open>\<open>errors.As\<close> into a \<open>smithy.APIError\<close>: the code of the first one in the chain.\<close>

fun errors_as_api :: "goerr \<Rightarrow> string option" where
  "errors_as_api (ApiError c) = Some c"
| "errors_as_api (Wrapped f e) = errors_as_api e"
| "errors_as_api _ = None"

lemma errors_is_refl [simp]: "errors_is e e"
  by (cases e) simp_all

subsection \<open>Association lists\<close>

lemma set_update_subset: "set (AList.update k v al) \<subseteq> insert (k, v) (set al)"
  by (induction al) auto

lemma map_of_filter_distinct:
  "distinct (map fst al) \<Longrightarrow>
   map_of (filter P al) k =
     (case map_of al k of None \<Rightarrow> None | Some v \<Rightarrow> if P (k, v) then Some v else None)"
proof (induction al)
  case (Cons x al)
  obtain a b where x: "x = (a, b)" by fastforce
  from Cons.prems x have "map_of al a = None" by (simp add: map_of_eq_None_iff)
  with Cons x show ?case by (auto split: option.splits)
qed simp

end
