(* ===== verification/RateLimit.thy ===== *)
theory RateLimit
  imports Prelude
begin

section \<open>internal/handlers/ratelimit.go: the sliding-window rate limiter\<close>

text \<open>
  The limiter keeps, per key, the times of the calls it allowed. \<open>Allow\<close> drops the times
  that have left the window, refuses when the limit is reached, makes room in a full
  table by dropping stale keys (\<open>evictStale\<close>), and records the call. The Go map is an
  association list with distinct keys; the clock reading is an argument.

  The contract a client relies on is the locale \<open>window_limiter\<close>: in it the sliding
  window bound is proved for any sequence of calls, and the code's \<open>Allow\<close> is an
  interpretation.
\<close>

subsection \<open>The code\<close>

record limiter =
  rl_events :: "(string \<times> time list) list"
  rl_limit :: int
  rl_window :: duration
  rl_maxKeys :: int

definition newRateLimiter :: "int \<Rightarrow> duration \<Rightarrow> limiter" where
  "newRateLimiter lim window =
     \<lparr>rl_events = [], rl_limit = lim, rl_window = window, rl_maxKeys = 10000\<rparr>"

definition events_of :: "limiter \<Rightarrow> string \<Rightarrow> time list" where
  "events_of r key = (case map_of (rl_events r) key of None \<Rightarrow> [] | Some ts \<Rightarrow> ts)"

definition evictStale :: "limiter \<Rightarrow> time \<Rightarrow> limiter" where
  "evictStale r cutoff =
     r\<lparr>rl_events := filter (\<lambda>(k, times). \<not> (times = [] \<or> \<not> cutoff < last times)) (rl_events r)\<rparr>"

definition store_events :: "limiter \<Rightarrow> string \<Rightarrow> time list \<Rightarrow> limiter" where
  "store_events r key ts = r\<lparr>rl_events := AList.update key ts (rl_events r)\<rparr>"

definition table_full :: "limiter \<Rightarrow> bool" where
  "table_full r \<longleftrightarrow> rl_maxKeys r \<le> int (length (rl_events r))"

definition Allow :: "limiter \<Rightarrow> string \<Rightarrow> time \<Rightarrow> bool \<times> limiter" where
  "Allow r key now =
     (let cutoff = now - rl_window r;
          kept = filter (\<lambda>t. cutoff < t) (events_of r key)
      in if rl_limit r \<le> int (length kept) then (False, store_events r key kept)
         else if map_of (rl_events r) key = None \<and> table_full r then
           (let r' = evictStale r cutoff
            in if table_full r' then (False, r')
               else (True, store_events r' key (kept @ [now])))
         else (True, store_events r key (kept @ [now])))"

subsection \<open>The contract of a sliding-window limiter\<close>

text \<open>A run of calls, with the calls that were allowed in order.\<close>

fun run_calls ::
  "('s \<Rightarrow> string \<Rightarrow> time \<Rightarrow> bool \<times> 's) \<Rightarrow> 's \<Rightarrow> (string \<times> time) list \<Rightarrow> (string \<times> time) list \<times> 's"
where
  "run_calls allow s [] = ([], s)"
| "run_calls allow s ((k, now) # calls) =
     (case allow s k now of (ok, s') \<Rightarrow>
        (case run_calls allow s' calls of (log, s'') \<Rightarrow>
           (if ok then (k, now) # log else log, s'')))"

lemma run_calls_snd:
  "snd (run_calls allow s (c # calls)) = snd (run_calls allow (snd (allow s (fst c) (snd c))) calls)"
  by (cases c) (simp split: prod.splits)

text \<open>The times of the allowed calls of one key in the window that ends at \<open>t\<close>.\<close>

definition in_window :: "(string \<times> time) list \<Rightarrow> string \<Rightarrow> duration \<Rightarrow> time \<Rightarrow> time list" where
  "in_window log k w t = filter (\<lambda>u. t - w < u \<and> u \<le> t) (map snd (filter (\<lambda>e. fst e = k) log))"

lemma in_window_Nil [simp]: "in_window [] k w t = []"
  by (simp add: in_window_def)

lemma in_window_append:
  "in_window (log @ log') k w t = in_window log k w t @ in_window log' k w t"
  by (simp add: in_window_def)

lemma in_window_single:
  "in_window [(k', u)] k w t = (if k' = k \<and> t - w < u \<and> u \<le> t then [u] else [])"
  by (simp add: in_window_def)

locale window_limiter =
  fixes allow :: "'s \<Rightarrow> string \<Rightarrow> time \<Rightarrow> bool \<times> 's"
    and seen :: "'s \<Rightarrow> string \<Rightarrow> time \<Rightarrow> time list"
    and inv :: "'s \<Rightarrow> time \<Rightarrow> bool"
    and lim :: int
    and window :: duration
  assumes inv_allow: "inv s now0 \<Longrightarrow> now0 \<le> now \<Longrightarrow> inv (snd (allow s k now)) now"
    and allow_below: "inv s now0 \<Longrightarrow> now0 \<le> now \<Longrightarrow> fst (allow s k now) \<Longrightarrow>
      int (length (seen s k (now - window))) < lim"
    and seen_allow: "inv s now0 \<Longrightarrow> now0 \<le> now \<Longrightarrow> now - window \<le> c \<Longrightarrow>
      seen (snd (allow s k now)) k' c =
        seen s k' c @ (if fst (allow s k now) \<and> k' = k \<and> c < now then [now] else [])"
begin

text \<open>
  The history agrees with what the limiter has seen as far as later calls can tell, and
  no window of the history holds more than the limit.
\<close>

definition agrees :: "'s \<Rightarrow> time \<Rightarrow> (string \<times> time) list \<Rightarrow> bool" where
  "agrees s now0 log \<longleftrightarrow>
     inv s now0 \<and>
     (\<forall>(k, u) \<in> set log. u \<le> now0) \<and>
     (\<forall>k c. now0 - window \<le> c \<longrightarrow>
        filter (\<lambda>u. c < u) (map snd (filter (\<lambda>e. fst e = k) log)) = seen s k c) \<and>
     (\<forall>k t. int (length (in_window log k window t)) \<le> lim)"

lemma window_within_recent:
  assumes "now \<le> t"
  shows "length (in_window log k window t) \<le>
    length (filter (\<lambda>u. now - window < u) (map snd (filter (\<lambda>e. fst e = k) log)))"
proof -
  have "in_window log k window t =
    filter (\<lambda>u. t - window < u \<and> u \<le> t)
      (filter (\<lambda>u. now - window < u) (map snd (filter (\<lambda>e. fst e = k) log)))"
    using assms by (auto simp: in_window_def intro: filter_cong)
  then show ?thesis by (metis length_filter_le)
qed

lemma agrees_step:
  assumes "agrees s now0 log" "now0 \<le> now"
  shows "agrees (snd (allow s k now)) now (log @ (if fst (allow s k now) then [(k, now)] else []))"
    (is "agrees ?s' now ?log'")
proof -
  from assms(1) have i: "inv s now0" and old: "\<forall>(k, u) \<in> set log. u \<le> now0"
    and rec: "\<And>k c. now0 - window \<le> c \<Longrightarrow>
        filter (\<lambda>u. c < u) (map snd (filter (\<lambda>e. fst e = k) log)) = seen s k c"
    and bound: "\<And>k t. int (length (in_window log k window t)) \<le> lim"
    unfolding agrees_def by blast+
  have rec': "filter (\<lambda>u. c < u) (map snd (filter (\<lambda>e. fst e = k') ?log')) = seen ?s' k' c"
    if "now - window \<le> c" for k' c
    using that assms(2) rec [of c k'] seen_allow [OF i assms(2), of c k k'] by auto
  have bound': "int (length (in_window ?log' k' window t)) \<le> lim" for k' t
  proof (cases "fst (allow s k now) \<and> k' = k \<and> t - window < now \<and> now \<le> t")
    case False
    then show ?thesis
      using bound [of k' t] by (auto simp: in_window_append in_window_single)
  next
    case True
    from True have "int (length (in_window log k window t)) \<le> int (length (seen s k (now - window)))"
      using window_within_recent [of now t log k] rec [of "now - window" k] assms(2) by simp
    also have "\<dots> < lim" using True allow_below [OF i assms(2), of k] by simp
    finally show ?thesis using True by (simp add: in_window_append in_window_single)
  qed
  have "\<forall>(k', u) \<in> set ?log'. u \<le> now" using old assms(2) by fastforce
  with rec' bound' inv_allow [OF i assms(2), of k] show ?thesis
    unfolding agrees_def by blast
qed

lemma agrees_run:
  assumes "agrees s now0 log" "sorted (now0 # map snd calls)"
  shows "agrees (snd (run_calls allow s calls)) (last (now0 # map snd calls))
           (log @ fst (run_calls allow s calls))"
  using assms
proof (induction calls arbitrary: s now0 log)
  case (Cons c calls)
  obtain k now where c: "c = (k, now)" by fastforce
  obtain ok s' where a: "allow s k now = (ok, s')" by fastforce
  obtain log' s'' where r: "run_calls allow s' calls = (log', s'')" by fastforce
  from Cons.prems c agrees_step [OF Cons.prems(1), of now k] a
  have "agrees s' now (log @ (if ok then [(k, now)] else []))" by simp
  moreover from Cons.prems(2) c have "sorted (now # map snd calls)" by simp
  ultimately show ?case
    using Cons.IH [of s' now "log @ (if ok then [(k, now)] else [])"] a c r by auto
qed simp

lemma agrees_init:
  "0 \<le> lim \<Longrightarrow> inv s now0 \<Longrightarrow> (\<And>k c. seen s k c = []) \<Longrightarrow> agrees s now0 []"
  by (simp add: agrees_def)

lemma window_bound:
  assumes "0 \<le> lim" "inv s now0" "\<And>k c. seen s k c = []" "sorted (now0 # map snd calls)"
  shows "int (length (in_window (fst (run_calls allow s calls)) k window t)) \<le> lim"
  using agrees_run [OF agrees_init [OF assms(1-3)] assms(4)] by (simp add: agrees_def)

lemma seen_run:
  assumes "0 \<le> lim" "inv s now0" "\<And>k c. seen s k c = []" "sorted (now0 # map snd calls @ [now])"
  shows "seen (snd (run_calls allow s calls)) k (now - window)
       = in_window (fst (run_calls allow s calls)) k window now"
proof -
  let ?r = "run_calls allow s calls" and ?last = "last (now0 # map snd calls)"
  from assms(4) have sorted: "sorted (now0 # map snd calls)"
    and "\<forall>u \<in> set (now0 # map snd calls). u \<le> now"
    by (auto simp: sorted_append)
  moreover have "?last \<in> set (now0 # map snd calls)" by (rule last_in_set) simp
  ultimately have le: "?last \<le> now" by blast
  from agrees_run [OF agrees_init [OF assms(1-3)] sorted]
  have a: "\<forall>(k, u) \<in> set (fst ?r). u \<le> ?last"
    "filter (\<lambda>u. now - window < u) (map snd (filter (\<lambda>e. fst e = k) (fst ?r)))
       = seen (snd ?r) k (now - window)"
    using le by (auto simp: agrees_def)
  have "in_window (fst ?r) k window now
      = filter (\<lambda>u. now - window < u) (map snd (filter (\<lambda>e. fst e = k) (fst ?r)))"
    unfolding in_window_def using a(1) le by (intro filter_cong) fastforce+
  with a(2) show ?thesis by simp
qed

end

subsection \<open>The code's limiter keeps the contract\<close>

definition seen_after :: "limiter \<Rightarrow> string \<Rightarrow> time \<Rightarrow> time list" where
  "seen_after r k c = filter (\<lambda>t. c < t) (events_of r k)"

definition limiter_inv :: "int \<Rightarrow> duration \<Rightarrow> limiter \<Rightarrow> time \<Rightarrow> bool" where
  "limiter_inv lim w r now \<longleftrightarrow>
     rl_limit r = lim \<and> rl_window r = w \<and> distinct (map fst (rl_events r)) \<and>
     (\<forall>(k, ts) \<in> set (rl_events r). sorted ts \<and> (\<forall>t \<in> set ts. t \<le> now))"

lemma sorted_last_ge: "sorted ts \<Longrightarrow> t \<in> set ts \<Longrightarrow> t \<le> last ts" for t :: time
  by (induction ts) auto

lemma events_of_store [simp]:
  "events_of (store_events r k ts) k' = (if k' = k then ts else events_of r k')"
  by (simp add: events_of_def store_events_def update_conv)

lemma store_events_fields [simp]:
  "rl_limit (store_events r k ts) = rl_limit r" "rl_window (store_events r k ts) = rl_window r"
  "rl_maxKeys (store_events r k ts) = rl_maxKeys r"
  by (simp_all add: store_events_def)

lemma evictStale_fields [simp]:
  "rl_limit (evictStale r c) = rl_limit r" "rl_window (evictStale r c) = rl_window r"
  "rl_maxKeys (evictStale r c) = rl_maxKeys r"
  by (simp_all add: evictStale_def)

lemma limiter_inv_events:
  assumes "limiter_inv lim w r now"
  shows "sorted (events_of r k)" "t \<in> set (events_of r k) \<Longrightarrow> t \<le> now"
  using assms
  by (auto simp: limiter_inv_def events_of_def split: option.splits dest!: map_of_SomeD)

lemma limiter_inv_store:
  assumes "limiter_inv lim w r now0" "now0 \<le> now" "sorted ts" "\<forall>t \<in> set ts. t \<le> now"
  shows "limiter_inv lim w (store_events r k ts) now"
proof -
  from set_update_subset [of k ts "rl_events r"] assms show ?thesis
    by (fastforce simp: limiter_inv_def store_events_def distinct_update)
qed

lemma limiter_inv_evict:
  "limiter_inv lim w r now0 \<Longrightarrow> now0 \<le> now \<Longrightarrow> limiter_inv lim w (evictStale r c) now"
  by (fastforce simp: limiter_inv_def evictStale_def intro: distinct_map_filter)

lemma seen_after_evict:
  assumes "limiter_inv lim w r now0" "cutoff \<le> c"
  shows "seen_after (evictStale r cutoff) k c = seen_after r k c"
proof (cases "map_of (rl_events r) k")
  case None
  with assms show ?thesis
    by (simp add: seen_after_def events_of_def evictStale_def limiter_inv_def
        map_of_filter_distinct)
next
  case (Some ts)
  with assms(1) have d: "distinct (map fst (rl_events r))" and s: "sorted ts"
    using limiter_inv_events(1) [OF assms(1), of k]
    by (simp_all add: limiter_inv_def events_of_def)
  have "filter (\<lambda>t. c < t) ts = []" if "\<not> cutoff < last ts"
    using that assms(2) sorted_last_ge [OF s] by (fastforce simp: filter_empty_conv)
  with Some d show ?thesis
    by (auto simp: seen_after_def events_of_def evictStale_def map_of_filter_distinct)
qed

lemma limiter_inv_D:
  assumes "limiter_inv lim w r now"
  shows "rl_limit r = lim" "rl_window r = w"
  using assms by (simp_all add: limiter_inv_def)

lemma Allow_cases:
  obtains (refuse) "rl_limit r \<le> int (length (seen_after r k (now - rl_window r)))"
      "Allow r k now = (False, store_events r k (seen_after r k (now - rl_window r)))"
  | (full) "table_full (evictStale r (now - rl_window r))"
      "Allow r k now = (False, evictStale r (now - rl_window r))"
  | (evict) "\<not> rl_limit r \<le> int (length (seen_after r k (now - rl_window r)))"
      "\<not> table_full (evictStale r (now - rl_window r))" "map_of (rl_events r) k = None"
      "Allow r k now = (True, store_events (evictStale r (now - rl_window r)) k
         (seen_after r k (now - rl_window r) @ [now]))"
  | (recorded) "\<not> rl_limit r \<le> int (length (seen_after r k (now - rl_window r)))"
      "map_of (rl_events r) k \<noteq> None \<or> \<not> table_full r"
      "Allow r k now = (True, store_events r k (seen_after r k (now - rl_window r) @ [now]))"
proof -
  define kept where "kept = seen_after r k (now - rl_window r)"
  have a: "Allow r k now =
    (if rl_limit r \<le> int (length kept) then (False, store_events r k kept)
     else if map_of (rl_events r) k = None \<and> table_full r then
       (let r' = evictStale r (now - rl_window r)
        in if table_full r' then (False, r') else (True, store_events r' k (kept @ [now])))
     else (True, store_events r k (kept @ [now])))"
    unfolding Allow_def kept_def seen_after_def Let_def by simp
  show thesis
    using refuse full evict recorded a unfolding kept_def [symmetric] Let_def
    by (metis (full_types))
qed

lemma seen_after_store:
  "seen_after (store_events r k ts) k' c = (if k' = k then filter (\<lambda>t. c < t) ts else seen_after r k' c)"
  by (simp add: seen_after_def)

lemma seen_after_mono:
  "a \<le> c \<Longrightarrow> filter (\<lambda>t. c < t) (seen_after r k a) = seen_after r k c"
  by (auto simp: seen_after_def intro: filter_cong)

lemma limiter_inv_kept:
  assumes "limiter_inv lim w r now0" "now0 \<le> now"
  shows "sorted (seen_after r k c)" "\<forall>t \<in> set (seen_after r k c). t \<le> now"
    "sorted (seen_after r k c @ [now])" "\<forall>t \<in> set (seen_after r k c @ [now]). t \<le> now"
proof -
  have "sorted (events_of r k)" and le: "\<forall>t \<in> set (events_of r k). t \<le> now"
    using limiter_inv_events [OF assms(1)] assms(2) order_trans by blast+
  then show "sorted (seen_after r k c)" "\<forall>t \<in> set (seen_after r k c). t \<le> now"
    by (simp_all add: seen_after_def sorted_wrt_filter)
  with le show "sorted (seen_after r k c @ [now])"
    "\<forall>t \<in> set (seen_after r k c @ [now]). t \<le> now"
    by (simp_all add: sorted_append)
qed

interpretation sliding: window_limiter Allow seen_after "limiter_inv lim w" lim w
  for lim w
proof unfold_locales
  fix r now0 now k
  assume inv: "limiter_inv lim w r now0" and le: "now0 \<le> now"
  note kept = limiter_inv_kept [OF inv le]
  show "limiter_inv lim w (snd (Allow r k now)) now"
    using kept limiter_inv_store [OF inv le] limiter_inv_evict [OF inv le]
      limiter_inv_store [OF limiter_inv_evict [OF inv le] order_refl]
    by - (rule Allow_cases [of r k now], simp_all)
  show "int (length (seen_after r k (now - w))) < lim" if "fst (Allow r k now)"
    using that limiter_inv_D [OF inv] by - (rule Allow_cases [of r k now], auto)
  show "seen_after (snd (Allow r k now)) k' c =
      seen_after r k' c @ (if fst (Allow r k now) \<and> k' = k \<and> c < now then [now] else [])"
    if "now - w \<le> c" for k' c
    using that limiter_inv_D [OF inv] seen_after_evict [OF inv that] seen_after_mono [OF that]
    by - (rule Allow_cases [of r k now], auto simp: seen_after_store)
qed

subsection \<open>What the limiter guarantees\<close>

lemma new_inv: "limiter_inv lim w (newRateLimiter lim w) now"
  by (simp add: limiter_inv_def newRateLimiter_def)

lemma new_seen: "seen_after (newRateLimiter lim w) k c = []"
  by (simp add: seen_after_def events_of_def newRateLimiter_def)

lemma sorted_first_le: "sorted ts \<Longrightarrow> sorted ((case ts of [] \<Rightarrow> t | u # us \<Rightarrow> u) # ts)" for t :: time
  by (cases ts) simp_all

lemma limiter_window_bound:
  assumes "0 \<le> lim" "sorted (map snd calls)"
  shows "int (length (in_window (fst (run_calls Allow (newRateLimiter lim w) calls)) k w t)) \<le> lim"
proof -
  from sorted_first_le [OF assms(2), of 0] obtain now0 where "sorted (now0 # map snd calls)"
    by blast
  from sliding.window_bound [OF assms(1) new_inv new_seen this] show ?thesis .
qed

text \<open>
  C24. The sliding window: whatever calls a limiter gets, with whatever keys, as long as the
  clock does not run backwards, no window of the configured length ever holds more
  allowed calls of one key than the limit, evictions included.
\<close>

theorem Allow_window_bound:
  assumes "0 \<le> lim" "sorted (map snd calls)"
  shows "int (length (in_window (fst (run_calls Allow (newRateLimiter lim w) calls)) k w t)) \<le> lim"
  using assms by (rule limiter_window_bound)

theorem Allow_window_bound_witness:
  "int (length (in_window (fst (run_calls Allow (newRateLimiter 2 10)
      [(''a'', 0), (''a'', 1), (''b'', 2), (''a'', 3), (''a'', 12)])) ''a'' 10 3)) \<le> 2
   \<and> fst (run_calls Allow (newRateLimiter 2 10)
      [(''a'', 0), (''a'', 1), (''b'', 2), (''a'', 3), (''a'', 12)])
     = [(''a'', 0), (''a'', 1), (''b'', 2), (''a'', 12)]"
proof
  show "int (length (in_window (fst (run_calls Allow (newRateLimiter 2 10)
      [(''a'', 0), (''a'', 1), (''b'', 2), (''a'', 3), (''a'', 12)])) ''a'' 10 3)) \<le> 2"
    by (rule Allow_window_bound) simp_all
  show "fst (run_calls Allow (newRateLimiter 2 10)
      [(''a'', 0), (''a'', 1), (''b'', 2), (''a'', 3), (''a'', 12)])
     = [(''a'', 0), (''a'', 1), (''b'', 2), (''a'', 12)]"
    by (simp add: Allow_def newRateLimiter_def events_of_def store_events_def table_full_def)
qed

lemma length_update_le:
  "length (AList.update k v al) = (if k \<in> fst ` set al then length al else Suc (length al))"
  by (induction al) auto

lemma Allow_keys: "fst ` set (rl_events (snd (Allow r k now))) \<subseteq> insert k (fst ` set (rl_events r))"
  by (rule Allow_cases [of r k now]) (auto simp: store_events_def evictStale_def dom_update)

lemma Allow_fields:
  "rl_limit (snd (Allow r k now)) = rl_limit r" "rl_window (snd (Allow r k now)) = rl_window r"
  "rl_maxKeys (snd (Allow r k now)) = rl_maxKeys r"
  by (rule Allow_cases [of r k now]; simp)+

lemma length_store_events:
  "length (rl_events (store_events r k ts)) =
     (if map_of (rl_events r) k = None then Suc (length (rl_events r)) else length (rl_events r))"
  by (auto simp: store_events_def length_update_le map_of_eq_None_iff)

lemma length_evictStale: "length (rl_events (evictStale r c)) \<le> length (rl_events r)"
  by (simp add: evictStale_def)

text \<open>
  A refusal stores the pruned list under its key; with a positive limit that key is
  already in the table, so only an allowed call can add a row.
\<close>

lemma Allow_table_bound:
  assumes "0 < rl_limit r" "int (length (rl_events r)) \<le> rl_maxKeys r"
  shows "int (length (rl_events (snd (Allow r k now)))) \<le> rl_maxKeys r"
proof (rule Allow_cases [of r k now])
  assume "rl_limit r \<le> int (length (seen_after r k (now - rl_window r)))"
    and a: "Allow r k now = (False, store_events r k (seen_after r k (now - rl_window r)))"
  with assms(1) have "seen_after r k (now - rl_window r) \<noteq> []" by auto
  then have "map_of (rl_events r) k \<noteq> None"
    by (auto simp: seen_after_def events_of_def split: option.splits)
  with assms(2) a show ?thesis by (auto simp: length_store_events)
qed (use assms(2) length_evictStale [of r "now - rl_window r"] in
    \<open>auto simp: length_store_events table_full_def\<close>)

text \<open>
  C34. Memory is bounded: a limiter with a positive limit (all of the server's have one)
  never tracks more than its 10000 keys, whatever keys clients make it see.
\<close>

theorem Allow_memory_bound:
  assumes "0 < lim"
  shows "int (length (rl_events (snd (run_calls Allow (newRateLimiter lim w) calls)))) \<le> 10000"
proof -
  have "0 < rl_limit r \<Longrightarrow> int (length (rl_events r)) \<le> rl_maxKeys r \<Longrightarrow>
      int (length (rl_events (snd (run_calls Allow r calls)))) \<le> rl_maxKeys r" for r
  proof (induction calls arbitrary: r)
    case (Cons c calls)
    obtain k now where c: "c = (k, now)" by fastforce
    obtain ok r' where a: "Allow r k now = (ok, r')" by fastforce
    from Cons.prems Allow_table_bound [of r k now] Allow_fields [of r k now] Cons.IH [of r'] a
    show ?case by (auto simp: c split: prod.splits)
  qed simp
  from this [of "newRateLimiter lim w"] assms show ?thesis
    by (simp add: newRateLimiter_def)
qed

theorem Allow_memory_bound_witness:
  "int (length (rl_events (snd (run_calls Allow (newRateLimiter 1 10)
     [(''a'', 0), (''b'', 1), (''a'', 2)])))) \<le> 10000"
  by (rule Allow_memory_bound) simp

lemma run_keys:
  "fst ` set (rl_events (snd (run_calls Allow r calls))) \<subseteq> fst ` set calls \<union> fst ` set (rl_events r)"
proof (induction calls arbitrary: r)
  case (Cons c calls)
  from Allow_keys [of r "fst c" "snd c"] Cons.IH [of "snd (Allow r (fst c) (snd c))"]
  have "fst ` set (rl_events (snd (run_calls Allow r (c # calls))))
      \<subseteq> fst ` set calls \<union> insert (fst c) (fst ` set (rl_events r))"
    unfolding run_calls_snd by blast
  then show ?case by simp
qed simp

lemma run_fields:
  "rl_limit (snd (run_calls Allow r calls)) = rl_limit r"
  "rl_window (snd (run_calls Allow r calls)) = rl_window r"
  "rl_maxKeys (snd (run_calls Allow r calls)) = rl_maxKeys r"
  by (induction calls arbitrary: r) (simp_all add: run_calls_snd Allow_fields del: run_calls.simps(2))

lemma run_inv:
  "limiter_inv lim w r now0 \<Longrightarrow> sorted (now0 # map snd calls) \<Longrightarrow>
   limiter_inv lim w (snd (run_calls Allow r calls)) (last (now0 # map snd calls))"
proof (induction calls arbitrary: r now0)
  case (Cons c calls)
  from Cons.prems sliding.inv_allow [OF Cons.prems(1), of "snd c" "fst c"]
    Cons.IH [of "snd (Allow r (fst c) (snd c))" "snd c"]
  show ?case unfolding run_calls_snd by auto
qed simp

text \<open>
  C25. The limiter is exact while its table has room for the keys in play: after any run
  over fewer than 10000 distinct keys the next call of a key is allowed precisely when
  fewer than the limit of that key's calls were allowed within the last window. It never
  refuses a client that stayed under the limit.
\<close>

theorem Allow_exact:
  assumes "0 \<le> lim" "sorted (map snd calls @ [now])" "card (fst ` set calls) < 10000"
  shows "fst (Allow (snd (run_calls Allow (newRateLimiter lim w) calls)) k now)
    \<longleftrightarrow> int (length (in_window (fst (run_calls Allow (newRateLimiter lim w) calls)) k w now)) < lim"
proof -
  let ?r = "snd (run_calls Allow (newRateLimiter lim w) calls)"
  from sorted_first_le [OF assms(2), of 0] obtain now0
    where s: "sorted (now0 # map snd calls @ [now])" by blast
  then have "sorted (now0 # map snd calls)" by (simp add: sorted_append)
  from run_inv [OF new_inv this] have "distinct (map fst (rl_events ?r))"
    by (simp add: limiter_inv_def)
  then have "length (rl_events ?r) = card (fst ` set (rl_events ?r))"
    by (metis distinct_card length_map set_map)
  also have "\<dots> \<le> card (fst ` set calls)"
    using run_keys [of "newRateLimiter lim w" calls]
    by (intro card_mono) (auto simp: newRateLimiter_def)
  finally have nf: "\<not> table_full ?r"
    using assms(3) by (simp add: table_full_def run_fields newRateLimiter_def)
  then have "\<not> table_full (evictStale ?r (now - rl_window ?r))"
    using length_evictStale [of ?r "now - rl_window ?r"] by (simp add: table_full_def)
  then have "fst (Allow ?r k now) \<longleftrightarrow> \<not> rl_limit ?r \<le> int (length (seen_after ?r k (now - rl_window ?r)))"
    by - (rule Allow_cases [of ?r k now], auto)
  moreover have "rl_limit ?r = lim" "rl_window ?r = w"
    by (simp_all add: run_fields newRateLimiter_def)
  ultimately show ?thesis
    using sliding.seen_run [OF assms(1) new_inv new_seen s, of w k] by (auto simp: not_le)
qed

theorem Allow_exact_witness:
  "fst (Allow (snd (run_calls Allow (newRateLimiter 2 10) [(''a'', 0), (''a'', 1)])) ''a'' 9)
    \<longleftrightarrow> int (length (in_window (fst (run_calls Allow (newRateLimiter 2 10)
          [(''a'', 0), (''a'', 1)])) ''a'' 10 9)) < 2"
  by (rule Allow_exact) simp_all

end
