(* ===== verification/GoText.thy ===== *)
theory GoText
  imports Prelude
begin

section \<open>Go strings: bytes, UTF-8 runes and the string functions the code calls\<close>

text \<open>
  A Go string is a sequence of bytes; \<open>string\<close> (a list of 8-bit characters) models it
  byte for byte and \<open>length\<close> is Go's \<open>len\<close>. Ranging over a string, \<open>[]rune(s)\<close>
  and the functions of package \<open>strings\<close> decode UTF-8: \<open>decode_rune\<close> is
  \<open>utf8.DecodeRune\<close> (every invalid byte is one \<open>U+FFFD\<close> of width 1) and \<open>chunks\<close>
  cuts a string into its runes with the bytes of each. The theory holds the functions of
  the standard library the repository uses (\<open>strings.Map\<close>, \<open>TrimSpace\<close>, \<open>Cut\<close>,
  \<open>Split\<close>, \<open>path.Base\<close>, \<open>path.Ext\<close>) and their lemmas: decoding inverts
  encoding, no byte is lost, and an ASCII string is its own rune list.
\<close>

subsection \<open>Decoding and encoding\<close>

type_synonym rune = nat

abbreviation ord :: "char \<Rightarrow> nat" where "ord c \<equiv> of_char c"

definition RuneError :: rune where "RuneError = 0xFFFD"

definition cont_byte :: "nat \<Rightarrow> bool" where
  "cont_byte b \<longleftrightarrow> 0x80 \<le> b \<and> b \<le> 0xBF"

text \<open>The range of the second byte depends on the first (overlong forms, surrogates).\<close>

definition accept2 :: "nat \<Rightarrow> nat \<Rightarrow> bool" where
  "accept2 b0 b1 \<longleftrightarrow>
     (if b0 = 0xE0 then 0xA0 else if b0 = 0xF0 then 0x90 else 0x80) \<le> b1 \<and>
     b1 \<le> (if b0 = 0xED then 0x9F else if b0 = 0xF4 then 0x8F else 0xBF)"

fun decode_rune :: "nat list \<Rightarrow> rune \<times> nat" where
  "decode_rune [] = (RuneError, 0)"
| "decode_rune (b0 # bs) =
     (if b0 < 0x80 then (b0, 1)
      else if 0xC2 \<le> b0 \<and> b0 \<le> 0xDF \<and> 1 \<le> length bs \<and> accept2 b0 (bs ! 0)
        then (64 * (b0 - 0xC0) + (bs ! 0 - 0x80), 2)
      else if 0xE0 \<le> b0 \<and> b0 \<le> 0xEF \<and> 2 \<le> length bs \<and> accept2 b0 (bs ! 0)
              \<and> cont_byte (bs ! 1)
        then (4096 * (b0 - 0xE0) + 64 * (bs ! 0 - 0x80) + (bs ! 1 - 0x80), 3)
      else if 0xF0 \<le> b0 \<and> b0 \<le> 0xF4 \<and> 3 \<le> length bs \<and> accept2 b0 (bs ! 0)
              \<and> cont_byte (bs ! 1) \<and> cont_byte (bs ! 2)
        then (262144 * (b0 - 0xF0) + 4096 * (bs ! 0 - 0x80) + 64 * (bs ! 1 - 0x80)
              + (bs ! 2 - 0x80), 4)
      else (RuneError, 1))"

definition valid_rune :: "rune \<Rightarrow> bool" where
  "valid_rune r \<longleftrightarrow> r < 0xD800 \<or> (0xDFFF < r \<and> r \<le> 0x10FFFF)"

definition encode_bytes :: "rune \<Rightarrow> nat list" where
  "encode_bytes r0 =
     (let r = (if valid_rune r0 then r0 else RuneError) in
      if r < 0x80 then [r]
      else if r < 0x800 then [0xC0 + r div 64, 0x80 + r mod 64]
      else if r < 0x10000
        then [0xE0 + r div 4096, 0x80 + r div 64 mod 64, 0x80 + r mod 64]
      else [0xF0 + r div 262144, 0x80 + r div 4096 mod 64, 0x80 + r div 64 mod 64,
            0x80 + r mod 64])"

definition encode_rune :: "rune \<Rightarrow> string" where
  "encode_rune r = map char_of (encode_bytes r)"

lemma decode_width: "bs \<noteq> [] \<Longrightarrow> 1 \<le> snd (decode_rune bs)"
  by (cases bs) auto

lemma decode_width_le: "snd (decode_rune bs) \<le> length bs"
  by (cases bs) auto

function chunks :: "string \<Rightarrow> (rune \<times> string) list" where
  "chunks s =
     (if s = [] then []
      else let (r, w) = decode_rune (map of_char (take 4 s))
           in (r, take w s) # chunks (drop w s))"
  by pat_completeness auto
termination
proof (relation "measure length")
  fix s :: string and x :: "rune \<times> nat" and r w
  assume "s \<noteq> []" "x = decode_rune (map of_char (take 4 s))" "(r, w) = x"
  moreover from this decode_width [of "map of_char (take 4 s)"] have "1 \<le> w"
    by (cases s) (auto dest: arg_cong [where f = snd])
  ultimately show "(drop w s, s) \<in> measure length"
    by (cases s) auto
qed simp

declare chunks.simps [simp del]

definition runes :: "string \<Rightarrow> rune list" where
  "runes s = map fst (chunks s)"

definition of_runes :: "rune list \<Rightarrow> string" where
  "of_runes rs = concat (map encode_rune rs)"


lemma chunks_Nil [simp]: "chunks [] = []"
  by (simp add: chunks.simps)

lemma runes_Nil [simp]: "runes [] = []" and of_runes_Nil [simp]: "of_runes [] = []"
  by (simp_all add: runes_def of_runes_def)

lemma of_runes_Cons [simp]: "of_runes (r # rs) = encode_rune r @ of_runes rs"
  and of_runes_append [simp]: "of_runes (rs @ qs) = of_runes rs @ of_runes qs"
  by (simp_all add: of_runes_def)

text \<open>No byte is lost by cutting a string into chunks.\<close>

lemma chunks_concat: "concat (map snd (chunks s)) = s"
proof (induction s rule: chunks.induct)
  case (1 s)
  obtain r w where rw: "decode_rune (map of_char (take 4 s)) = (r, w)"
    by fastforce
  show ?case
  proof (cases "s = []")
    case False
    with "1.IH" rw have "concat (map snd (chunks (drop w s))) = drop w s" by auto
    with False rw show ?thesis by (subst chunks.simps) simp
  qed simp
qed

lemma chunks_ascii_Cons [simp]:
  "ord c < 0x80 \<Longrightarrow> chunks (c # s) = (ord c, [c]) # chunks s"
  by (subst chunks.simps) simp

lemma runes_ascii_Cons [simp]: "ord c < 0x80 \<Longrightarrow> runes (c # s) = ord c # runes s"
  by (simp add: runes_def)

lemma runes_ascii: "\<forall>c \<in> set s. ord c < 0x80 \<Longrightarrow> runes s = map ord s"
  by (induction s) simp_all

lemma decode_rune_lead:
  assumes "0x80 \<le> b"
  shows "0x80 \<le> fst (decode_rune (b # bs))"
proof -
  let ?x = "bs ! 0"
  have 2: "0x80 \<le> 64 * (b - 0xC0) + y" if "0xC2 \<le> b" for y
    using that by linarith
  have 3: "0x80 \<le> 4096 * (b - 0xE0) + 64 * (?x - 0x80) + y" if "0xE0 \<le> b" "accept2 b ?x" for y
    using that by (cases "b = 0xE0") (simp_all add: accept2_def, linarith+)
  have 4: "0x80 \<le> 262144 * (b - 0xF0) + 4096 * (?x - 0x80) + y + z"
    if "0xF0 \<le> b" "accept2 b ?x" for y z
    using that by (cases "b = 0xF0") (simp_all add: accept2_def, linarith+)
  show ?thesis
    using assms 2 3 4 by (simp add: RuneError_def)
qed

text \<open>Only ASCII bytes decode to ASCII runes.\<close>

lemma runes_ascii_iff: "(\<forall>r \<in> set (runes s). r < 0x80) \<longleftrightarrow> (\<forall>c \<in> set s. ord c < 0x80)"
proof (induction s)
  case (Cons c s)
  show ?case
  proof (cases "ord c < 0x80")
    case True
    with Cons.IH show ?thesis by simp
  next
    case False
    obtain r w where rw: "decode_rune (map of_char (take 4 (c # s))) = (r, w)"
      by fastforce
    with False decode_rune_lead [of "ord c" "map of_char (take 3 s)"] have "0x80 \<le> r"
      by (simp del: decode_rune.simps)
    moreover from rw have "r \<in> set (runes (c # s))"
      unfolding runes_def by (subst chunks.simps) (simp del: decode_rune.simps)
    ultimately show ?thesis
      using False by (metis leD list.set_intros(1))
  qed
qed simp

lemma encode_bytes_256: "b \<in> set (encode_bytes r) \<Longrightarrow> b < 256"
  by (auto simp: encode_bytes_def Let_def valid_rune_def RuneError_def split: if_splits)

lemma map_ord_encode [simp]: "map of_char (encode_rune r) = encode_bytes r"
  unfolding encode_rune_def using encode_bytes_256 [of _ r]
  by (simp add: o_def map_idI)

lemma encode_bytes_length: "1 \<le> length (encode_bytes r)" "length (encode_bytes r) \<le> 4"
  by (auto simp: encode_bytes_def Let_def)

lemma length_encode_rune: "length (encode_rune r) = length (encode_bytes r)"
  by (simp add: encode_rune_def)

lemma encode_rune_not_Nil [simp]: "encode_rune r \<noteq> []"
  using encode_bytes_length(1) [of r] by (auto simp: encode_rune_def)

text \<open>Decoding inverts encoding, whatever bytes follow.\<close>

lemma decode_encode:
  assumes "valid_rune r"
  shows "decode_rune (encode_bytes r @ bs) = (r, length (encode_bytes r))"
proof -
  define a b c d where abcd: "a = r div 262144" "b = r div 4096 mod 64"
    "c = r div 64 mod 64" "d = r mod 64"
  have "r = 64 * (r div 64) + d" "r div 64 = 64 * (r div 4096) + c"
    "r div 4096 = 64 * a + b" and lt: "b < 64" "c < 64" "d < 64"
    using div_mult2_eq [of r 64 64] div_mult2_eq [of r 4096 64]
      mult_div_mod_eq [of 64 r] mult_div_mod_eq [of 64 "r div 64"]
      mult_div_mod_eq [of 64 "r div 4096"]
    by (simp_all add: abcd)
  then have r: "r = 262144 * a + 4096 * b + 64 * c + d"
    and bd: "r div 4096 = 64 * a + b" "r div 64 = 4096 * a + 64 * b + c"
    by linarith+
  then have a: "r < 0x110000 \<Longrightarrow> a < 5" by linarith
  from assms have v: "r < 0xD800 \<or> (0xDFFF < r \<and> r \<le> 0x10FFFF)"
    by (simp add: valid_rune_def)
  have acc: "accept2 x (0x80 + y)" if "y < 64" "x = 0xE0 \<Longrightarrow> 32 \<le> y" "x = 0xF0 \<Longrightarrow> 16 \<le> y"
    "x = 0xED \<Longrightarrow> y < 32" "x = 0xF4 \<Longrightarrow> y < 16" for x y
    using that by (simp add: accept2_def) linarith
  have cont: "cont_byte (0x80 + y)" if "y < 64" for y
    using that by (simp add: cont_byte_def)
  consider "r < 0x80" | "0x80 \<le> r" "r < 0x800" | "0x800 \<le> r" "r < 0x10000" | "0x10000 \<le> r"
    by linarith
  then show ?thesis
  proof cases
    case 1
    with assms show ?thesis by (simp add: encode_bytes_def)
  next
    case 2
    with r have "a = 0" "b = 0" by auto
    with 2 r lt have "2 \<le> c" "c < 32" by linarith+
    from 2 assms \<open>a = 0\<close> \<open>b = 0\<close> bd have e: "encode_bytes r = [0xC0 + c, 0x80 + d]"
      by (simp add: encode_bytes_def flip: abcd(4))
    moreover from \<open>c < 32\<close> lt have "accept2 (0xC0 + c) (0x80 + d)" by (intro acc) auto
    ultimately show ?thesis using r \<open>a = 0\<close> \<open>b = 0\<close> \<open>2 \<le> c\<close> \<open>c < 32\<close> by simp
  next
    case 3
    with r have "a = 0" by auto
    with 3 r have "b < 16" by linarith
    moreover from 3 assms \<open>a = 0\<close> bd
    have e: "encode_bytes r = [0xE0 + b, 0x80 + c, 0x80 + d]"
      by (simp add: encode_bytes_def flip: abcd(3,4))
    moreover from 3 v r lt \<open>a = 0\<close> have "accept2 (0xE0 + b) (0x80 + c)"
      by (intro acc) auto
    ultimately show ?thesis using r \<open>a = 0\<close> lt cont by simp
  next
    case 4
    with v a have "a < 5" by simp
    from 4 assms have e: "encode_bytes r = [0xF0 + a, 0x80 + b, 0x80 + c, 0x80 + d]"
      by (simp add: encode_bytes_def abcd [symmetric])
    moreover from 4 v r lt have "accept2 (0xF0 + a) (0x80 + b)"
      by (intro acc) auto
    ultimately show ?thesis using r \<open>a < 5\<close> lt cont by simp
  qed
qed

lemma chunks_encode_rune [simp]:
  assumes "valid_rune r"
  shows "chunks (encode_rune r @ s) = (r, encode_rune r) # chunks s"
proof -
  have "take 4 (encode_rune r @ s)
      = encode_rune r @ take (4 - length (encode_rune r)) s"
    using encode_bytes_length(2) [of r] by (simp add: length_encode_rune)
  with decode_encode [OF assms] show ?thesis
    by (subst chunks.simps) (simp add: length_encode_rune [symmetric])
qed

lemma chunks_of_runes:
  "\<forall>r \<in> set rs. valid_rune r \<Longrightarrow>
   chunks (of_runes rs @ s) = map (\<lambda>r. (r, encode_rune r)) rs @ chunks s"
  by (induction rs) simp_all

lemma runes_of_runes_append:
  "\<forall>r \<in> set rs. valid_rune r \<Longrightarrow> runes (of_runes rs @ s) = rs @ runes s"
  by (simp add: runes_def chunks_of_runes o_def)

lemma runes_of_runes: "\<forall>r \<in> set rs. valid_rune r \<Longrightarrow> runes (of_runes rs) = rs"
  using runes_of_runes_append [of rs "[]"] by simp

text \<open>Every rune that decoding yields is a valid code point.\<close>

lemma valid_rune_two: "u < 32 \<Longrightarrow> v < 64 \<Longrightarrow> valid_rune (64 * u + v)"
  by (simp add: valid_rune_def)

lemma valid_rune_three:
  "u < 16 \<Longrightarrow> v < 64 \<Longrightarrow> w < 64 \<Longrightarrow> (u = 13 \<Longrightarrow> v < 32) \<Longrightarrow> valid_rune (4096 * u + 64 * v + w)"
  unfolding valid_rune_def by (cases "u = 13"; cases "u < 13") linarith+

lemma valid_rune_four:
  "u < 5 \<Longrightarrow> v < 64 \<Longrightarrow> w < 64 \<Longrightarrow> z < 64 \<Longrightarrow> (u = 0 \<Longrightarrow> 16 \<le> v) \<Longrightarrow> (u = 4 \<Longrightarrow> v < 16) \<Longrightarrow>
   valid_rune (262144 * u + 4096 * v + 64 * w + z)"
  unfolding valid_rune_def by (cases "u = 0"; cases "u = 4") linarith+

lemma cont_byte_offset: "cont_byte b \<Longrightarrow> b - 0x80 < 64"
  by (simp add: cont_byte_def) linarith

lemma accept2_offset:
  assumes "accept2 b x"
  shows "x - 0x80 < 64" "b = 0xED \<Longrightarrow> x - 0x80 < 32" "b = 0xF0 \<Longrightarrow> 16 \<le> x - 0x80"
    "b = 0xF4 \<Longrightarrow> x - 0x80 < 16"
  using assms by (auto simp: accept2_def split: if_splits)

lemma decode_rune_valid: "valid_rune (fst (decode_rune bs))"
proof (cases bs)
  case (Cons b cs)
  let ?x = "cs ! 0" and ?y = "cs ! 1" and ?z = "cs ! 2"
  have 2: "valid_rune (64 * (b - 0xC0) + (?x - 0x80))"
    if "0xC2 \<le> b" "b \<le> 0xDF" "accept2 b ?x"
    using that accept2_offset [of b ?x] by (intro valid_rune_two) auto
  have 3: "valid_rune (4096 * (b - 0xE0) + 64 * (?x - 0x80) + (?y - 0x80))"
    if "0xE0 \<le> b" "b \<le> 0xEF" "accept2 b ?x" "cont_byte ?y"
  proof (intro valid_rune_three)
    show "?x - 0x80 < 32" if "b - 0xE0 = 13"
      using that accept2_offset(2) [OF \<open>accept2 b ?x\<close>] by simp
  qed (use that accept2_offset(1) cont_byte_offset in auto)
  have 4: "valid_rune (262144 * (b - 0xF0) + 4096 * (?x - 0x80) + 64 * (?y - 0x80) + (?z - 0x80))"
    if "0xF0 \<le> b" "b \<le> 0xF4" "accept2 b ?x" "cont_byte ?y" "cont_byte ?z"
  proof (intro valid_rune_four)
    show "16 \<le> ?x - 0x80" if "b - 0xF0 = 0"
      using that \<open>0xF0 \<le> b\<close> accept2_offset(3) [OF \<open>accept2 b ?x\<close>] by simp
    show "?x - 0x80 < 16" if "b - 0xF0 = 4"
      using that accept2_offset(4) [OF \<open>accept2 b ?x\<close>] by simp
  qed (use that accept2_offset(1) cont_byte_offset in auto)
  have "valid_rune b" if "b < 0x80"
    using that by (simp add: valid_rune_def)
  moreover have "valid_rune RuneError"
    by (simp add: valid_rune_def RuneError_def)
  ultimately show ?thesis
    using 2 3 4 unfolding Cons decode_rune.simps by simp
qed (simp add: valid_rune_def RuneError_def)

lemma runes_valid: "r \<in> set (runes s) \<Longrightarrow> valid_rune r"
proof (induction s rule: chunks.induct)
  case (1 s)
  obtain q w where qw: "decode_rune (map of_char (take 4 s)) = (q, w)"
    by fastforce
  show ?case
  proof (cases "s = []")
    case False
    then have "runes s = q # runes (drop w s)"
      using qw unfolding runes_def by (subst chunks.simps) simp
    with 1 False qw decode_rune_valid [of "map of_char (take 4 s)"] show ?thesis
      by auto
  qed (use "1.prems" in simp)
qed

text \<open>A string is well-formed UTF-8 when it is the encoding of its runes.\<close>

definition valid_utf8 :: "string \<Rightarrow> bool" where
  "valid_utf8 s \<longleftrightarrow> of_runes (runes s) = s"

lemma valid_utf8_of_runes: "\<forall>r \<in> set rs. valid_rune r \<Longrightarrow> valid_utf8 (of_runes rs)"
  by (simp add: valid_utf8_def runes_of_runes)

lemma encode_rune_ascii [simp]: "ord c < 0x80 \<Longrightarrow> encode_rune (ord c) = [c]"
  by (simp add: encode_rune_def encode_bytes_def valid_rune_def)

lemma valid_utf8_ascii: "\<forall>c \<in> set s. ord c < 0x80 \<Longrightarrow> valid_utf8 s"
  by (induction s) (simp_all add: valid_utf8_def)

lemma length_of_runes_ge: "length rs \<le> length (of_runes rs)"
proof (induction rs)
  case (Cons r rs)
  then show ?case
    using encode_bytes_length(1) [of r] by (simp add: length_encode_rune)
qed simp

subsection \<open>Functions of package strings\<close>

text \<open>\<open>strings.Map\<close>: \<open>None\<close> stands for a negative result, which drops the rune.\<close>

definition strings_Map :: "(rune \<Rightarrow> rune option) \<Rightarrow> string \<Rightarrow> string" where
  "strings_Map f s =
     concat (map (\<lambda>r. case f r of None \<Rightarrow> [] | Some q \<Rightarrow> encode_rune q) (runes s))"

text \<open>\<open>unicode.IsSpace\<close>.\<close>

definition is_space :: "rune \<Rightarrow> bool" where
  "is_space r \<longleftrightarrow> r \<in> {0x09, 0x0A, 0x0B, 0x0C, 0x0D, 0x20, 0x85, 0xA0, 0x1680,
                      0x2028, 0x2029, 0x202F, 0x205F, 0x3000}
                  \<or> (0x2000 \<le> r \<and> r \<le> 0x200A)"

definition trim :: "('a \<Rightarrow> bool) \<Rightarrow> 'a list \<Rightarrow> 'a list" where
  "trim p xs = rev (dropWhile p (rev (dropWhile p xs)))"

definition TrimSpace :: "string \<Rightarrow> string" where
  "TrimSpace s = concat (map snd (trim (is_space \<circ> fst) (chunks s)))"

text \<open>\<open>strings.Cut\<close> with a separator of one byte.\<close>

definition Cut :: "string \<Rightarrow> char \<Rightarrow> string \<times> string \<times> bool" where
  "Cut s sep =
     (let before = takeWhile (\<lambda>c. c \<noteq> sep) s
      in if length before = length s then (s, [], False)
         else (before, drop (Suc (length before)) s, True))"

text \<open>\<open>strings.Split\<close> with a separator of one byte.\<close>

fun Split_on :: "string \<Rightarrow> char \<Rightarrow> string list" where
  "Split_on [] sep = [[]]"
| "Split_on (c # s) sep =
     (if c = sep then [] # Split_on s sep
      else (case Split_on s sep of p # ps \<Rightarrow> (c # p) # ps | [] \<Rightarrow> [[c]]))"

text \<open>\<open>strings.ReplaceAll\<close> of one byte by another.\<close>

definition ReplaceAll :: "string \<Rightarrow> char \<Rightarrow> char \<Rightarrow> string" where
  "ReplaceAll s old new = map (\<lambda>c. if c = old then new else c) s"

text \<open>Lower-casing of the ASCII letters, as far as the code depends on it.\<close>

definition lower_ascii :: "char \<Rightarrow> char" where
  "lower_ascii c = (if 65 \<le> ord c \<and> ord c \<le> 90 then char_of (ord c + 32) else c)"

definition ToLower :: "string \<Rightarrow> string" where
  "ToLower s = map lower_ascii s"

definition EqualFold :: "string \<Rightarrow> string \<Rightarrow> bool" where
  "EqualFold s t \<longleftrightarrow> ToLower s = ToLower t"

text \<open>Decimal rendering (\<open>%d\<close>).\<close>

fun digits :: "nat \<Rightarrow> string" where
  "digits n = (if n < 10 then [char_of (48 + n)] else digits (n div 10) @ [char_of (48 + n mod 10)])"

declare digits.simps [simp del]

definition itoa :: "int \<Rightarrow> string" where
  "itoa i = (if i < 0 then CHR ''-'' # digits (nat (- i)) else digits (nat i))"

subsection \<open>Functions of package path\<close>

definition path_Base :: "string \<Rightarrow> string" where
  "path_Base p =
     (if p = [] then ''.''
      else let q = dropWhile (\<lambda>c. c = CHR ''/'') (rev p);
               r = rev (takeWhile (\<lambda>c. c \<noteq> CHR ''/'') q)
           in if r = [] then ''/'' else r)"

definition path_Ext :: "string \<Rightarrow> string" where
  "path_Ext p =
     (let t = takeWhile (\<lambda>c. c \<noteq> CHR ''/'' \<and> c \<noteq> CHR ''.'') (rev p)
      in case drop (length t) (rev p) of
           c # _ \<Rightarrow> if c = CHR ''.'' then CHR ''.'' # rev t else []
         | [] \<Rightarrow> [])"

end
