(* ===== verification/Crypto.thy ===== *)
theory Crypto
  imports GoText
begin

section \<open>The cryptographic functions the access codes rest on\<close>

text \<open>
  The functions of Go's standard library that \<open>internal/domain\<close> calls, on bytes as
  8-bit words: SHA-256 (FIPS 180-4), hexadecimal encoding and decoding
  (\<open>encoding/hex\<close>), the constant-time comparison of \<open>crypto/subtle\<close> with its
  accumulator, and \<open>crypto/rand\<close>. Randomness is a finite prefix of what the generator
  will deliver: a read past its end is \<open>None\<close> ("not answered yet"), so a rejection loop
  that has not ended within the prefix is told apart from one that has returned.
\<close>

unbundle bit_operations_syntax

type_synonym w32 = "32 word"

definition bytes_of :: "string \<Rightarrow> byte list" where
  "bytes_of s = map (\<lambda>c. word_of_nat (of_char c)) s"

definition string_of :: "byte list \<Rightarrow> string" where
  "string_of bs = map (\<lambda>b. char_of (unat b)) bs"

subsection \<open>SHA-256\<close>

definition sha_k :: "w32 list" where
  "sha_k = [
    1116352408, 1899447441, 3049323471, 3921009573, 961987163, 1508970993, 2453635748, 2870763221,
    3624381080, 310598401, 607225278, 1426881987, 1925078388, 2162078206, 2614888103, 3248222580,
    3835390401, 4022224774, 264347078, 604807628, 770255983, 1249150122, 1555081692, 1996064986,
    2554220882, 2821834349, 2952996808, 3210313671, 3336571891, 3584528711, 113926993, 338241895,
    666307205, 773529912, 1294757372, 1396182291, 1695183700, 1986661051, 2177026350, 2456956037,
    2730485921, 2820302411, 3259730800, 3345764771, 3516065817, 3600352804, 4094571909, 275423344,
    430227734, 506948616, 659060556, 883997877, 958139571, 1322822218, 1537002063, 1747873779,
    1955562222, 2024104815, 2227730452, 2361852424, 2428436474, 2756734187, 3204031479, 3329325298]"

definition sha_h0 :: "w32 list" where
  "sha_h0 = [1779033703, 3144134277, 1013904242, 2773480762,
             1359893119, 2600822924, 528734635, 1541459225]"

definition be32 :: "byte list \<Rightarrow> w32" where
  "be32 bs = foldl (\<lambda>w b. push_bit 8 w OR ucast b) 0 bs"

definition bytes32 :: "w32 \<Rightarrow> byte list" where
  "bytes32 w = [ucast (drop_bit 24 w), ucast (drop_bit 16 w), ucast (drop_bit 8 w), ucast w]"

definition sha_pad :: "byte list \<Rightarrow> byte list" where
  "sha_pad m =
     (let bits = 8 * length m in
      m @ [0x80] @ replicate ((119 - length m mod 64) mod 64) 0
        @ map (\<lambda>i. word_of_nat (bits div 256 ^ i)) (rev [0..<8]))"

text \<open>The first argument bounds the recursion; \<open>length bs\<close> pieces are always enough.\<close>

fun pieces :: "nat \<Rightarrow> nat \<Rightarrow> 'a list \<Rightarrow> 'a list list" where
  "pieces 0 n xs = []"
| "pieces (Suc k) n xs = (if xs = [] then [] else take n xs # pieces k n (drop n xs))"

definition sha_extend :: "w32 list \<Rightarrow> w32 list" where
  "sha_extend ws = foldl (\<lambda>acc t.
     let w15 = acc ! (t - 15); w2 = acc ! (t - 2);
         s0 = word_rotr 7 w15 XOR word_rotr 18 w15 XOR drop_bit 3 w15;
         s1 = word_rotr 17 w2 XOR word_rotr 19 w2 XOR drop_bit 10 w2
     in acc @ [acc ! (t - 16) + s0 + acc ! (t - 7) + s1]) ws [16..<64]"

fun sha_round :: "w32 list \<Rightarrow> w32 \<times> w32 \<Rightarrow> w32 list" where
  "sha_round [a, b, c, d, e, f, g, h] (k, w) =
     (let s1 = word_rotr 6 e XOR word_rotr 11 e XOR word_rotr 25 e;
          ch = (e AND f) XOR (NOT e AND g);
          t1 = h + s1 + ch + k + w;
          s0 = word_rotr 2 a XOR word_rotr 13 a XOR word_rotr 22 a;
          maj = (a AND b) XOR (a AND c) XOR (b AND c);
          t2 = s0 + maj
      in [t1 + t2, a, b, c, d + t1, e, f, g])"
| "sha_round st kw = st"

definition sha_block :: "w32 list \<Rightarrow> byte list \<Rightarrow> w32 list" where
  "sha_block st blk =
     map2 (+) st (foldl sha_round st (zip sha_k (sha_extend (map be32 (pieces 16 4 blk)))))"

definition sha256 :: "byte list \<Rightarrow> byte list" where
  "sha256 m = concat (map bytes32
     (foldl sha_block sha_h0 (pieces (length (sha_pad m)) 64 (sha_pad m))))"

text \<open>A digest always has 32 bytes.\<close>

lemma length_bytes32 [simp]: "length (bytes32 w) = 4"
  by (simp add: bytes32_def)

lemma length_sha_round: "length st = 8 \<Longrightarrow> length (sha_round st kw) = 8"
  by (cases "(st, kw)" rule: sha_round.cases) (auto simp: Let_def)

lemma length_foldl_inv:
  "P st \<Longrightarrow> (\<And>st x. P st \<Longrightarrow> P (f st x)) \<Longrightarrow> P (foldl f st xs)"
  by (induction xs arbitrary: st) simp_all

lemma length_sha_block:
  assumes "length st = 8"
  shows "length (sha_block st blk) = 8"
proof -
  have "length (foldl sha_round st kws) = 8" for kws
    by (rule length_foldl_inv [where P = "\<lambda>st. length st = 8"])
      (simp_all add: assms length_sha_round)
  with assms show ?thesis by (simp add: sha_block_def)
qed

lemma length_sha256: "length (sha256 m) = 32"
proof -
  have "length (foldl sha_block sha_h0 bs) = 8" for bs
    by (rule length_foldl_inv [where P = "\<lambda>st. length st = 8"])
      (simp_all add: length_sha_block sha_h0_def)
  then show ?thesis
    by (simp add: sha256_def length_concat o_def sum_list_triv)
qed

subsection \<open>Hexadecimal text\<close>

definition hex_digit :: "nat \<Rightarrow> char" where
  "hex_digit n = ''0123456789abcdef'' ! n"

definition hex_encode :: "byte list \<Rightarrow> string" where
  "hex_encode bs = concat (map (\<lambda>b. [hex_digit (unat b div 16), hex_digit (unat b mod 16)]) bs)"

definition from_hex :: "char \<Rightarrow> nat option" where
  "from_hex c =
     (let n = ord c in
      if 48 \<le> n \<and> n \<le> 57 then Some (n - 48)
      else if 97 \<le> n \<and> n \<le> 102 then Some (n - 87)
      else if 65 \<le> n \<and> n \<le> 70 then Some (n - 55)
      else None)"

fun hex_decode :: "string \<Rightarrow> goerr + byte list" where
  "hex_decode [] = Inr []"
| "hex_decode [p] =
     (case from_hex p of None \<Rightarrow> Inl (Fault ''invalid byte'')
      | Some _ \<Rightarrow> Inl (Fault ''odd length hex string''))"
| "hex_decode (p # q # s) =
     (case from_hex p of None \<Rightarrow> Inl (Fault ''invalid byte'')
      | Some a \<Rightarrow>
        (case from_hex q of None \<Rightarrow> Inl (Fault ''invalid byte'')
         | Some b \<Rightarrow>
           (case hex_decode s of Inl e \<Rightarrow> Inl e
            | Inr bs \<Rightarrow> Inr (word_of_nat (16 * a + b) # bs))))"

lemma from_hex_digit: "n < 16 \<Longrightarrow> from_hex (hex_digit n) = Some n"
proof -
  have "\<forall>n \<in> set [0..<16]. from_hex (hex_digit n) = Some n"
    by (simp add: upt_rec hex_digit_def from_hex_def)
  moreover assume "n < 16"
  ultimately show ?thesis by simp
qed

lemma hex_decode_encode: "hex_decode (hex_encode bs) = Inr bs"
proof (induction bs)
  case (Cons b bs)
  have "unat b div 16 < 16"
    using unsigned_less [of b, where ?'a = nat] by simp
  moreover have "(word_of_nat (16 * (unat b div 16) + unat b mod 16) :: byte) = b"
    by simp
  ultimately show ?case
    using Cons by (simp add: hex_encode_def from_hex_digit del: of_nat_add of_nat_mult)
qed (simp add: hex_encode_def)

lemma length_hex_encode: "length (hex_encode bs) = 2 * length bs"
  by (induction bs) (simp_all add: hex_encode_def)

subsection \<open>Constant-time comparison\<close>

definition ConstantTimeByteEq :: "byte \<Rightarrow> byte \<Rightarrow> w32" where
  "ConstantTimeByteEq x y = drop_bit 31 ((ucast (x XOR y) :: w32) - 1)"

definition ConstantTimeCompare :: "byte list \<Rightarrow> byte list \<Rightarrow> w32" where
  "ConstantTimeCompare x y =
     (if length x \<noteq> length y then 0
      else ConstantTimeByteEq (foldl (\<lambda>v (a, b). v OR (a XOR b)) 0 (zip x y)) 0)"

lemma xor_zero_iff: "x XOR y = 0 \<longleftrightarrow> x = y" for x y :: byte
proof
  assume "x XOR y = 0"
  then have "(x XOR y) XOR y = y" by (simp only: xor.left_neutral)
  then show "x = y" by (simp only: xor.assoc xor_self_eq xor.right_neutral)
qed simp

lemma ConstantTimeByteEq_iff: "ConstantTimeByteEq x y = (if x = y then 1 else 0)"
proof (cases "x = y")
  case True
  then show ?thesis by (simp add: ConstantTimeByteEq_def)
next
  case False
  define w where "w = x XOR y"
  from False have "w \<noteq> 0" by (simp add: w_def xor_zero_iff)
  then have "0 < unat w" by (simp add: unat_gt_0)
  have "unat (ucast w :: w32) = unat w"
    using unsigned_less [of w, where ?'a = nat]
    by (simp add: unsigned_ucast_eq take_bit_nat_eq_self)
  moreover from this \<open>0 < unat w\<close> have "(ucast w :: w32) \<noteq> 0"
    by (metis less_numeral_extra(3) unsigned_0)
  then have "unat ((ucast w :: w32) - 1) = unat (ucast w :: w32) - 1"
    by (rule unat_minus_one)
  moreover have "unat w < 256" using unsigned_less [of w, where ?'a = nat] by simp
  ultimately have "unat ((ucast w :: w32) - 1) < 256" by linarith
  then have "unat ((ucast w :: w32) - 1) < 2 ^ 31" by (rule less_le_trans) simp
  then have "unat (drop_bit 31 ((ucast w :: w32) - 1)) = 0"
    by (subst unat_drop_bit_eq) (simp only: drop_bit_eq_div div_less)
  then have "drop_bit 31 ((ucast w :: w32) - 1) = 0"
    by (simp only: unsigned_eq_0_iff)
  with False show ?thesis by (simp add: ConstantTimeByteEq_def w_def)
qed

lemma or_accumulator_zero:
  fixes v :: byte
  assumes "length x = length y"
  shows "foldl (\<lambda>v (a, b). v OR (a XOR b)) v (zip x y) = 0 \<longleftrightarrow> v = 0 \<and> x = y"
  using assms
  by (induction x y arbitrary: v rule: list_induct2) (auto simp: or_eq_0_iff xor_zero_iff)

lemma ConstantTimeCompare_iff: "ConstantTimeCompare x y = 1 \<longleftrightarrow> x = y"
  by (auto simp: ConstantTimeCompare_def ConstantTimeByteEq_iff or_accumulator_zero)

subsection \<open>Random bytes\<close>

text \<open>
  One entry is what the generator delivers next: a byte, or the error its Read returns.
\<close>

type_synonym entropy = "(goerr + byte) list"

fun rand_Read :: "nat \<Rightarrow> entropy \<Rightarrow> ((goerr + byte list) \<times> entropy) option" where
  "rand_Read 0 es = Some (Inr [], es)"
| "rand_Read (Suc n) [] = None"
| "rand_Read (Suc n) (Inl e # es) = Some (Inl e, es)"
| "rand_Read (Suc n) (Inr b # es) =
     (case rand_Read n es of
        None \<Rightarrow> None
      | Some (Inl e, rest) \<Rightarrow> Some (Inl e, rest)
      | Some (Inr bs, rest) \<Rightarrow> Some (Inr (b # bs), rest))"

lemma rand_Read_Inr:
  "rand_Read n es = Some (Inr bs, rest) \<Longrightarrow> length bs = n \<and> es = map Inr bs @ rest"
  by (induction n es arbitrary: bs rule: rand_Read.induct)
    (auto split: option.splits sum.splits)

lemma rand_Read_bytes: "length bs = n \<Longrightarrow> rand_Read n (map Inr bs @ rest) = Some (Inr bs, rest)"
  by (induction bs arbitrary: n) auto

text \<open>
  Sequencing of steps that draw randomness and may fail: \<open>if err != nil\<close> returns the
  error wrapped with the step's format.
\<close>

type_synonym 'a drawn = "((goerr + 'a) \<times> entropy) option"

definition draw :: "string \<Rightarrow> 'a drawn \<Rightarrow> ('a \<Rightarrow> entropy \<Rightarrow> 'b drawn) \<Rightarrow> 'b drawn" where
  "draw format m k =
     (case m of
        None \<Rightarrow> None
      | Some (Inl e, es) \<Rightarrow> Some (Inl (Wrapped (Sprintf format []) e), es)
      | Some (Inr x, es) \<Rightarrow> k x es)"

lemma draw_simps [simp]:
  "draw f None k = None"
  "draw f (Some (Inl e, es)) k = Some (Inl (Wrapped (Sprintf f []) e), es)"
  "draw f (Some (Inr x, es)) k = k x es"
  by (simp_all add: draw_def)

lemma draw_eq_Inr:
  "draw f m k = Some (Inr y, rest) \<longleftrightarrow>
     (\<exists>x es. m = Some (Inr x, es) \<and> k x es = Some (Inr y, rest))"
  by (auto simp: draw_def split: option.splits sum.splits)

lemma bytes_of_inj: "bytes_of s = bytes_of t \<longleftrightarrow> s = t"
proof
  have inv: "map (\<lambda>b. char_of (unat b)) (bytes_of u) = u" for u
  proof (induction u)
    case (Cons c u)
    have "(of_char c :: nat) < 2 ^ LENGTH(8)" by simp
    then have "unat (word_of_nat (of_char c) :: byte) = of_char c"
      by (simp add: unat_of_nat take_bit_nat_eq_self)
    with Cons show ?case by (simp add: bytes_of_def)
  qed (simp add: bytes_of_def)
  assume "bytes_of s = bytes_of t"
  then show "s = t" by (metis inv)
qed simp

end
