(* ===== verification/Domain.thy ===== *)
theory Domain
  imports Crypto
begin

section \<open>internal/domain: shares, access codes and slugs\<close>

text \<open>
  The core types (\<open>Share\<close>, \<open>Upload\<close>, \<open>User\<close>) and the rules on them, from
  \<open>internal/domain\<close>: \<open>NewShare\<close>, \<open>Rotate\<close>, \<open>Verify\<close>, \<open>ValidateSlug\<close>,
  \<open>normalizeCode\<close> and the rejection sampling of \<open>randomString\<close>. Every reading of the
  clock is an argument \<open>now\<close>, every random byte comes from the \<open>entropy\<close> argument;
  the result \<open>None\<close> of a drawing function means the given prefix of random bytes did
  not suffice for it to return.
\<close>

subsection \<open>Types and constants\<close>

record share =
  sh_Slug :: string
  sh_StorageKey :: string
  sh_FileName :: string
  sh_FileSize :: int
  sh_OwnerID :: string
  sh_OwnerEmail :: string
  sh_RecipientEmail :: string
  sh_CodeSalt :: string
  sh_CodeHash :: string
  sh_ShareCount :: int
  sh_CreatedAt :: time
  sh_ExpiresAt :: time

record upload =
  up_StorageKey :: string
  up_OwnerID :: string
  up_FileName :: string
  up_SizeBytes :: int
  up_CreatedAt :: time
  up_DeleteAttempts :: int

record user =
  usr_ID :: string
  usr_Email :: string

definition slugLength :: nat where "slugLength = 10"
definition codeLength :: nat where "codeLength = 6"
definition saltLength :: nat where "saltLength = 16"
definition DefaultTTL :: duration where "DefaultTTL = 72 * Hour"
definition MaxTTL :: duration where "MaxTTL = 7 * 24 * Hour"
definition MaxShareCount :: int where "MaxShareCount = 3"

definition slugAlphabet :: string where
  "slugAlphabet = ''abcdefghijklmnopqrstuvwxyzABCDEFGHIJKLMNOPQRSTUVWXYZ0123456789''"

definition codeAlphabet :: string where
  "codeAlphabet = ''ABCDEFGHJKLMNPQRSTUVWXYZ23456789''"

subsection \<open>Random strings\<close>

text \<open>The loop of \<open>randomString\<close>; the number counts the places left (\<open>length - i\<close>).\<close>

fun random_loop :: "string \<Rightarrow> nat \<Rightarrow> nat \<Rightarrow> string \<Rightarrow> entropy \<Rightarrow> string drawn" where
  "random_loop alphabet mx 0 out es = Some (Inr out, es)"
| "random_loop alphabet mx (Suc n) out [] = None"
| "random_loop alphabet mx (Suc n) out (Inl e # es) = Some (Inl e, es)"
| "random_loop alphabet mx (Suc n) out (Inr b # es) =
     (if mx \<le> unat b then random_loop alphabet mx (Suc n) out es
      else random_loop alphabet mx n (out @ [alphabet ! (unat b mod length alphabet)]) es)"

definition randomString :: "string \<Rightarrow> nat \<Rightarrow> entropy \<Rightarrow> string drawn" where
  "randomString alphabet len es =
     random_loop alphabet (256 - 256 mod length alphabet) len [] es"

subsection \<open>Codes\<close>

definition hashCode :: "byte list \<Rightarrow> string \<Rightarrow> string" where
  "hashCode salt code = hex_encode (sha256 (salt @ bytes_of code))"

definition upper_rune :: "rune \<Rightarrow> rune" where
  "upper_rune r = (if 97 \<le> r \<and> r \<le> 122 then r - 32 else r)"

definition normalizeCode :: "string \<Rightarrow> string" where
  "normalizeCode code =
     of_runes (map upper_rune (filter (\<lambda>r. \<not> (r = 32 \<or> r = 45)) (runes code)))"

subsection \<open>Shares\<close>

definition effective_ttl :: "duration \<Rightarrow> duration" where
  "effective_ttl ttl = (if ttl \<le> 0 \<or> MaxTTL < ttl then DefaultTTL else ttl)"

definition NewShare ::
  "string \<Rightarrow> string \<Rightarrow> int \<Rightarrow> string \<Rightarrow> string \<Rightarrow> string \<Rightarrow> duration \<Rightarrow> time \<Rightarrow> entropy
   \<Rightarrow> (share \<times> string) drawn" where
  "NewShare storageKey fileName fileSize ownerID ownerEmail recipientEmail ttl now es =
     draw ''generating slug: %w'' (randomString slugAlphabet slugLength es) (\<lambda>slug es.
     draw ''generating code: %w'' (randomString codeAlphabet codeLength es) (\<lambda>code es.
     draw ''generating salt: %w'' (rand_Read saltLength es) (\<lambda>salt es.
       Some (Inr (\<lparr>sh_Slug = slug, sh_StorageKey = storageKey, sh_FileName = fileName,
                   sh_FileSize = fileSize, sh_OwnerID = ownerID, sh_OwnerEmail = ownerEmail,
                   sh_RecipientEmail = recipientEmail, sh_CodeSalt = hex_encode salt,
                   sh_CodeHash = hashCode salt code, sh_ShareCount = 1,
                   sh_CreatedAt = now, sh_ExpiresAt = now + effective_ttl ttl\<rparr>, code), es))))"

text \<open>\<open>Rotate\<close> writes the receiver only after every step that can fail.\<close>

definition Rotate :: "share \<Rightarrow> duration \<Rightarrow> time \<Rightarrow> entropy \<Rightarrow> (share \<times> string) drawn" where
  "Rotate s ttl now es =
     (if MaxShareCount \<le> sh_ShareCount s then Some (Inl ErrShareLimit, es)
      else
        draw ''generating code: %w'' (randomString codeAlphabet codeLength es) (\<lambda>code es.
        draw ''generating salt: %w'' (rand_Read saltLength es) (\<lambda>salt es.
          Some (Inr (s\<lparr>sh_CodeSalt := hex_encode salt, sh_CodeHash := hashCode salt code,
                       sh_ShareCount := sh_ShareCount s + 1,
                       sh_ExpiresAt := now + effective_ttl ttl\<rparr>, code), es))))"

definition Verify :: "share \<Rightarrow> string \<Rightarrow> time \<Rightarrow> goerr option" where
  "Verify s code now =
     (if sh_ExpiresAt s < now then Some ErrExpired
      else case hex_decode (sh_CodeSalt s) of
        Inl e \<Rightarrow> Some (Wrapped (Sprintf ''decoding salt: %w'' []) e)
      | Inr salt \<Rightarrow>
          (let expected = bytes_of (sh_CodeHash s);
               actual = bytes_of (hashCode salt (normalizeCode code))
           in if ConstantTimeCompare expected actual \<noteq> 1 then Some ErrWrongCode else None))"

definition Expired :: "share \<Rightarrow> time \<Rightarrow> bool" where
  "Expired s now \<longleftrightarrow> sh_ExpiresAt s < now"

definition slug_rune :: "rune \<Rightarrow> bool" where
  "slug_rune r \<longleftrightarrow> (97 \<le> r \<and> r \<le> 122) \<or> (65 \<le> r \<and> r \<le> 90) \<or> (48 \<le> r \<and> r \<le> 57)"

definition ValidateSlug :: "string \<Rightarrow> goerr option" where
  "ValidateSlug slug =
     (if length slug \<noteq> slugLength then Some ErrInvalidSlug
      else if \<not> list_all slug_rune (runes slug) then Some ErrInvalidSlug
      else None)"

subsection \<open>Random strings: reference definition, termination, uniformity\<close>

definition accepted :: "nat \<Rightarrow> byte list \<Rightarrow> byte list" where
  "accepted mx bs = filter (\<lambda>b. unat b < mx) bs"

definition pick :: "string \<Rightarrow> byte \<Rightarrow> char" where
  "pick alphabet b = alphabet ! (unat b mod length alphabet)"

lemma accepted_simps [simp]:
  "accepted mx [] = []"
  "accepted mx (b # bs) = (if unat b < mx then b # accepted mx bs else accepted mx bs)"
  by (simp_all add: accepted_def)

text \<open>
  The loop computes "drop the rejected bytes, take the first \<open>n\<close> that remain"; it has
  returned exactly when there are that many.
\<close>

lemma random_loop_accepted:
  "map_option fst (random_loop alphabet mx n out (map Inr bs)) =
     (if n \<le> length (accepted mx bs)
      then Some (Inr (out @ map (pick alphabet) (take n (accepted mx bs)))) else None)"
proof (induction bs arbitrary: n out)
  case Nil
  then show ?case by (cases n) simp_all
next
  case (Cons b bs)
  then show ?case
    by (cases n) (simp_all add: pick_def del: map_option_eq_Some map_option_is_None option.map_disc_iff)
qed

lemma pick_in: "alphabet \<noteq> [] \<Longrightarrow> pick alphabet b \<in> set alphabet"
  by (simp add: pick_def)

lemma random_loop_Inr:
  assumes "random_loop alphabet mx n out es = Some (Inr s, rest)"
  shows "\<exists>bs. length bs = n \<and> s = out @ map (pick alphabet) bs"
  using assms
proof (induction alphabet mx n out es rule: random_loop.induct)
  case (4 alphabet mx n out b es)
  show ?case
  proof (cases "mx \<le> unat b")
    case True
    with 4 show ?thesis by simp
  next
    case False
    with 4 obtain bs where "length bs = n" "s = (out @ [pick alphabet b]) @ map (pick alphabet) bs"
      by (auto simp: pick_def)
    then show ?thesis by (intro exI [of _ "b # bs"]) simp
  qed
qed simp_all

lemma randomString_Inr:
  assumes "randomString alphabet n es = Some (Inr s, rest)" "alphabet \<noteq> []"
  shows "length s = n" "set s \<subseteq> set alphabet"
proof -
  from assms(1) obtain bs where "length bs = n" "s = map (pick alphabet) bs"
    by (auto simp: randomString_def dest: random_loop_Inr)
  with pick_in [OF assms(2)] show "length s = n" "set s \<subseteq> set alphabet" by auto
qed

text \<open>With an alphabet whose size divides 256 no byte is ever rejected.\<close>

lemma random_loop_all_accepted:
  "random_loop alphabet 256 (length bs) out (map Inr bs @ rest)
     = Some (Inr (out @ map (pick alphabet) bs), rest)"
proof (induction bs arbitrary: out)
  case (Cons b bs)
  have "\<not> 256 \<le> unat b" using unsigned_less [of b, where ?'a = nat] by simp
  with Cons show ?case by (simp add: pick_def)
qed simp

lemma codeAlphabet_size: "length codeAlphabet = 32" "distinct codeAlphabet"
  by (simp_all add: codeAlphabet_def)

lemma slugAlphabet_size: "length slugAlphabet = 62" "distinct slugAlphabet"
  by (simp_all add: slugAlphabet_def)

lemma randomString_code:
  "length bs = codeLength \<Longrightarrow>
   randomString codeAlphabet codeLength (map Inr bs @ rest)
     = Some (Inr (map (pick codeAlphabet) bs), rest)"
  using random_loop_all_accepted [of codeAlphabet bs "[]" rest]
  by (simp add: randomString_def codeAlphabet_size)

text \<open>Counting residues: below \<open>k * l\<close>, each residue modulo \<open>l\<close> occurs \<open>k\<close> times.\<close>

lemma card_residue:
  assumes "i < (l :: nat)"
  shows "card {n. n < k * l \<and> n mod l = i} = k"
proof -
  have "{n. n < k * l \<and> n mod l = i} = (\<lambda>q. q * l + i) ` {..<k}" (is "?L = ?R")
  proof
    show "?L \<subseteq> ?R"
    proof
      fix n assume n: "n \<in> ?L"
      then have "n = n div l * l + i" "n div l < k"
        using div_mult_mod_eq [of n l] less_mult_imp_div_less [of n k l] by auto
      then show "n \<in> ?R" by blast
    qed
    have "q * l + i < k * l" if "q < k" for q
    proof -
      have "q * l + i < Suc q * l" using assms by simp
      also have "\<dots> \<le> k * l" using that by (intro mult_le_mono1) simp
      finally show ?thesis .
    qed
    with assms show "?R \<subseteq> ?L" by auto
  qed
  moreover have "inj_on (\<lambda>q. q * l + i) {..<k}"
    using assms by (auto simp: inj_on_def)
  ultimately show ?thesis by (simp add: card_image)
qed

lemma card_bytes:
  assumes "\<And>n. P n \<Longrightarrow> n < 256"
  shows "card {b :: byte. P (unat b)} = card {n. P n}"
proof -
  have "unat (word_of_nat n :: byte) = n" if "P n" for n
    using assms that by (simp add: unat_of_nat take_bit_nat_eq_self)
  then have "bij_betw unat {b :: byte. P (unat b)} {n. P n}"
    by (intro bij_betw_byWitness [where f' = word_of_nat]) auto
  then show ?thesis by (rule bij_betw_same_card)
qed

text \<open>
  \<open>randomString\<close> computes its reference definition: the first \<open>n\<close> accepted bytes,
  each mapped into the alphabet; on a prefix with fewer accepted bytes it has not
  returned, and no other byte influences the result.
\<close>

lemma randomString_reference:
  "map_option fst (randomString alphabet n (map Inr bs)) =
     (let ok = accepted (256 - 256 mod length alphabet) bs
      in if n \<le> length ok then Some (Inr (map (pick alphabet) (take n ok))) else None)"
  by (simp add: randomString_def random_loop_accepted Let_def
      del: map_option_eq_Some map_option_is_None option.map_disc_iff)

lemma card_picks:
  assumes "distinct alphabet" "c \<in> set alphabet" "length alphabet \<le> 256"
  shows "card {b :: byte. unat b < 256 - 256 mod length alphabet \<and> pick alphabet b = c}
       = 256 div length alphabet"
proof -
  let ?l = "length alphabet"
  from assms(2) obtain i where i: "i < ?l" "alphabet ! i = c"
    by (auto simp: in_set_conv_nth)
  have "unat b mod ?l < ?l" for b :: byte
    using i(1) by (intro mod_less_divisor) linarith
  then have "pick alphabet b = c \<longleftrightarrow> unat b mod ?l = i" for b
    using i assms(1) nth_eq_iff_index_eq [of alphabet "unat b mod ?l" i]
    by (simp add: pick_def)
  moreover have "256 - 256 mod ?l = 256 div ?l * ?l"
    by (rule minus_mod_eq_div_mult)
  ultimately have "card {b :: byte. unat b < 256 - 256 mod ?l \<and> pick alphabet b = c}
      = card {b :: byte. unat b < 256 div ?l * ?l \<and> unat b mod ?l = i}" by simp
  also have "\<dots> = card {n. n < 256 div ?l * ?l \<and> n mod ?l = i}"
    using div_times_less_eq_dividend [of 256 ?l] by (intro card_bytes) linarith
  also have "\<dots> = 256 div ?l"
    using i(1) by (rule card_residue)
  finally show ?thesis .
qed

text \<open>
  In how many ways \<open>L\<close> random bytes can yield a string of \<open>n\<close> characters over an alphabet of
  size \<open>l\<close>: the first byte is rejected or gives the first character. The string does not
  occur in it.
\<close>

fun ways :: "nat \<Rightarrow> nat \<Rightarrow> nat \<Rightarrow> nat" where
  "ways l L 0 = 256 ^ L"
| "ways l 0 (Suc n) = 0"
| "ways l (Suc L) (Suc n) = (256 mod l) * ways l L (Suc n) + (256 div l) * ways l L n"

definition yields :: "string \<Rightarrow> nat \<Rightarrow> string \<Rightarrow> byte list set" where
  "yields alphabet L s = {bs. length bs = L \<and> map_option fst (randomString alphabet (length s) (map Inr bs)) = Some (Inr s)}"

lemma yields_iff:
  "bs \<in> yields alphabet L s \<longleftrightarrow> length bs = L
     \<and> (let ok = accepted (256 - 256 mod length alphabet) bs
        in length s \<le> length ok \<and> map (pick alphabet) (take (length s) ok) = s)"
  unfolding yields_def mem_Collect_eq randomString_reference Let_def by auto

lemma finite_bytes: "finite {bs :: byte list. length bs = L}"
  using finite_lists_length_eq [of "UNIV :: byte set" L] by simp

lemma finite_yields: "finite (yields alphabet L s)"
  by (rule finite_subset [OF _ finite_bytes [of L]]) (auto simp: yields_iff)

lemma card_prefixed:
  "card ((\<lambda>(b, bs). b # bs) ` (A \<times> B)) = card A * card B"
  by (subst card_image) (auto simp: inj_on_def card_cartesian_product)

lemma yields_Cons:
  "yields alphabet (Suc L) (c # s) =
     (\<lambda>(b, bs). b # bs) ` ({b. \<not> unat b < 256 - 256 mod length alphabet} \<times> yields alphabet L (c # s))
   \<union> (\<lambda>(b, bs). b # bs) ` ({b. unat b < 256 - 256 mod length alphabet \<and> pick alphabet b = c} \<times> yields alphabet L s)"
  (is "?Y = ?R \<union> ?P")
proof (intro set_eqI)
  fix bs
  show "bs \<in> ?Y \<longleftrightarrow> bs \<in> ?R \<union> ?P"
    by (cases bs) (auto simp: yields_iff Let_def image_iff)
qed

lemma card_yields:
  assumes "distinct alphabet" "length alphabet \<le> 256" "set s \<subseteq> set alphabet"
  shows "card (yields alphabet L s) = ways (length alphabet) L (length s)"
  using assms(3)
proof (induction "length alphabet" L "length s" arbitrary: s rule: ways.induct)
  case (1 L)
  then have "yields alphabet L s = {bs. set bs \<subseteq> UNIV \<and> length bs = L}" by (auto simp: yields_iff)
  then show ?case using 1 card_lists_length_eq [of "UNIV :: byte set" L] by (simp add: card_word)
next
  case (2 n)
  then have "yields alphabet 0 s = {}" by (auto simp: yields_iff Let_def)
  with 2 show ?case by (metis card.empty ways.simps(2))
next
  case (3 L n)
  then obtain c t where s: "s = c # t" "n = length t" by (cases s) auto
  let ?mx = "256 - 256 mod length alphabet"
  have "card {b :: byte. \<not> unat b < ?mx} = card {n. ?mx \<le> n \<and> n < 256}"
  proof -
    have "unat b < 256" for b :: byte using unsigned_less [of b, where ?'a = nat] by simp
    then have "{b :: byte. \<not> unat b < ?mx} = {b. ?mx \<le> unat b \<and> unat b < 256}" by auto
    then show ?thesis using card_bytes [of "\<lambda>n. ?mx \<le> n \<and> n < 256"] by simp
  qed
  also have "{n. ?mx \<le> n \<and> n < 256} = {?mx ..< 256}" by auto
  finally have rejected: "card {b :: byte. \<not> unat b < ?mx} = 256 mod length alphabet" by simp
  have "card (yields alphabet (Suc L) s) =
      card {b :: byte. \<not> unat b < ?mx} * card (yields alphabet L (c # t))
    + card {b :: byte. unat b < ?mx \<and> pick alphabet b = c} * card (yields alphabet L t)"
    unfolding s(1) yields_Cons
    by (subst card_Un_disjoint) (auto simp: card_prefixed finite_yields)
  also have "card {b :: byte. unat b < ?mx \<and> pick alphabet b = c} = 256 div length alphabet"
    using "3.prems" s(1) assms(1,2) by (intro card_picks) auto
  finally show ?case using "3.hyps" "3.prems" s rejected by simp
qed

lemma ways_pos: "0 < l \<Longrightarrow> l \<le> 256 \<Longrightarrow> n \<le> L \<Longrightarrow> 0 < ways l L n"
  by (induction l L n rule: ways.induct) (auto simp: div_greater_zero_iff)

text \<open>
  C32. No modulo bias: over an alphabet of at most 256 distinct characters, \<open>randomString\<close>
  returns each string of the length asked for on exactly as many sequences of random bytes
  as any other, whatever number of bytes is read, and on some as soon as there are as many
  bytes as characters. So slugs and codes are uniformly distributed when the bytes are.
\<close>

theorem randomString_unbiased:
  assumes "distinct alphabet" "length alphabet \<le> 256"
    and "length s = n" "set s \<subseteq> set alphabet" "length t = n" "set t \<subseteq> set alphabet"
  shows "card {bs :: byte list. length bs = L \<and> map_option fst (randomString alphabet n (map Inr bs)) = Some (Inr s)}
       = card {bs :: byte list. length bs = L \<and> map_option fst (randomString alphabet n (map Inr bs)) = Some (Inr t)}
    \<and> (alphabet \<noteq> [] \<and> n \<le> L \<longrightarrow>
      (\<exists>bs :: byte list. length bs = L \<and> map_option fst (randomString alphabet n (map Inr bs)) = Some (Inr s)))"
proof (intro conjI impI)
  note s = card_yields [OF assms(1,2,4), of L] and t = card_yields [OF assms(1,2,6), of L]
  from s t show "card {bs :: byte list. length bs = L \<and> map_option fst (randomString alphabet n (map Inr bs)) = Some (Inr s)}
      = card {bs :: byte list. length bs = L \<and> map_option fst (randomString alphabet n (map Inr bs)) = Some (Inr t)}"
    unfolding yields_def assms(3,5) by simp
  show "\<exists>bs :: byte list. length bs = L \<and> map_option fst (randomString alphabet n (map Inr bs)) = Some (Inr s)"
    if "alphabet \<noteq> [] \<and> n \<le> L"
  proof -
    from s ways_pos [of "length alphabet" n L] that assms(2,3) have "yields alphabet L s \<noteq> {}"
      by (metis card.empty length_greater_0_conv not_less0)
    then show ?thesis using assms(3) by (auto simp: yields_def)
  qed
qed

theorem randomString_unbiased_witness:
  "card {bs :: byte list. length bs = 12 \<and> map_option fst (randomString slugAlphabet 10 (map Inr bs)) = Some (Inr ''aaaaaaaaaa'')}
   = card {bs :: byte list. length bs = 12 \<and> map_option fst (randomString slugAlphabet 10 (map Inr bs)) = Some (Inr ''Zz0Zz0Zz0Z'')}"
proof -
  have "set ''aaaaaaaaaa'' \<subseteq> set slugAlphabet" "set ''Zz0Zz0Zz0Z'' \<subseteq> set slugAlphabet"
    by (simp_all add: slugAlphabet_def)
  with randomString_unbiased [OF slugAlphabet_size(2), of "''aaaaaaaaaa''" 10 "''Zz0Zz0Zz0Z''" 12] show ?thesis
    by (simp add: slugAlphabet_size)
qed

text \<open>The bytes after the ones needed are left for the next step.\<close>

lemma random_loop_rest:
  assumes "n \<le> length (accepted mx bs)"
  shows "\<exists>s ds. random_loop alphabet mx n out (map Inr bs @ es)
           = Some (Inr s, map Inr ds @ es)"
  using assms
proof (induction bs arbitrary: n out)
  case Nil
  then show ?case by (auto intro: exI [of _ "[]"])
next
  case (Cons b bs)
  show ?case
  proof (cases n)
    case 0
    then show ?thesis by (auto intro: exI [of _ "b # bs"])
  next
    case (Suc m)
    with Cons.prems Cons.IH [of "Suc m" out] Cons.IH [of m "out @ [pick alphabet b]"]
    show ?thesis by (auto simp: pick_def)
  qed
qed

subsection \<open>Codes as typed by the recipient\<close>

definition separator :: "char \<Rightarrow> bool" where
  "separator c \<longleftrightarrow> c = CHR '' '' \<or> c = CHR ''-''"

lemma codeAlphabet_ord:
  "c \<in> set codeAlphabet \<Longrightarrow> (50 \<le> ord c \<and> ord c \<le> 57) \<or> (65 \<le> ord c \<and> ord c \<le> 90)"
  by (auto simp: codeAlphabet_def)

lemma ord_lower_ascii:
  "ord (lower_ascii c) = (if 65 \<le> ord c \<and> ord c \<le> 90 then ord c + 32 else ord c)"
  by (simp add: lower_ascii_def)

lemma separator_ord: "separator c \<longleftrightarrow> ord c = 32 \<or> ord c = 45"
proof -
  have "ord c = 32 \<longleftrightarrow> c = CHR '' ''" "ord c = 45 \<longleftrightarrow> c = CHR ''-''"
    using of_char_eq_iff [of c "CHR '' ''"] of_char_eq_iff [of c "CHR ''-''"] by simp_all
  then show ?thesis by (simp add: separator_def)
qed

lemma upper_typed_char:
  assumes "c \<in> set codeAlphabet" "lower_ascii d = lower_ascii c"
  shows "ord d < 0x80" "upper_rune (ord d) = ord c"
proof -
  from assms(2) have "ord (lower_ascii d) = ord (lower_ascii c)" by simp
  with codeAlphabet_ord [OF assms(1)] show "ord d < 0x80" "upper_rune (ord d) = ord c"
    by (auto simp: ord_lower_ascii upper_rune_def split: if_splits)
qed

lemma normalizeCode_typed:
  assumes "set code \<subseteq> set codeAlphabet"
    and "ToLower (filter (\<lambda>c. \<not> separator c) typed) = ToLower code"
  shows "normalizeCode typed = code"
  using assms
proof (induction typed arbitrary: code)
  case Nil
  then show ?case by (simp add: normalizeCode_def ToLower_def)
next
  case (Cons d typed)
  show ?case
  proof (cases "separator d")
    case True
    then have "ord d = 32 \<or> ord d = 45" by (simp add: separator_ord)
    then have "normalizeCode (d # typed) = normalizeCode typed"
      by (auto simp: normalizeCode_def)
    with Cons True show ?thesis by simp
  next
    case False
    with Cons.prems(2) obtain c code' where code: "code = c # code'"
      and lower: "lower_ascii d = lower_ascii c"
      and rest: "ToLower (filter (\<lambda>c. \<not> separator c) typed) = ToLower code'"
      by (auto simp: ToLower_def)
    from code Cons.prems(1) have c: "c \<in> set codeAlphabet" by simp
    note typed = upper_typed_char [OF c lower]
    from False have "\<not> (ord d = 32 \<or> ord d = 45)" by (simp add: separator_ord)
    moreover from codeAlphabet_ord [OF c] have "encode_rune (ord c) = [c]" by auto
    ultimately have "normalizeCode (d # typed) = c # normalizeCode typed"
      using typed by (simp add: normalizeCode_def)
    with Cons.IH [OF _ rest] Cons.prems(1) code show ?thesis by simp
  qed
qed

subsection \<open>What the operations produce\<close>

lemma NewShare_Inr:
  assumes "NewShare key name sz oid oemail remail ttl now es = Some (Inr (sh, code), rest)"
  obtains salt where
    "length (sh_Slug sh) = slugLength" "set (sh_Slug sh) \<subseteq> set slugAlphabet"
    "length code = codeLength" "set code \<subseteq> set codeAlphabet"
    "length salt = saltLength" "sh_CodeSalt sh = hex_encode salt"
    "sh_CodeHash sh = hashCode salt code" "sh_ShareCount sh = 1"
    "sh_StorageKey sh = key" "sh_FileName sh = name" "sh_FileSize sh = sz"
    "sh_OwnerID sh = oid" "sh_OwnerEmail sh = oemail" "sh_RecipientEmail sh = remail"
    "sh_CreatedAt sh = now" "sh_ExpiresAt sh = now + effective_ttl ttl"
proof -
  have ne: "slugAlphabet \<noteq> []" "codeAlphabet \<noteq> []"
    by (simp_all add: slugAlphabet_def codeAlphabet_def)
  from assms obtain slug es1 es2 salt es3 where
    "randomString slugAlphabet slugLength es = Some (Inr slug, es1)"
    "randomString codeAlphabet codeLength es1 = Some (Inr code, es2)"
    "rand_Read saltLength es2 = Some (Inr salt, es3)"
    "sh = \<lparr>sh_Slug = slug, sh_StorageKey = key, sh_FileName = name,
           sh_FileSize = sz, sh_OwnerID = oid, sh_OwnerEmail = oemail,
           sh_RecipientEmail = remail, sh_CodeSalt = hex_encode salt,
           sh_CodeHash = hashCode salt code, sh_ShareCount = 1,
           sh_CreatedAt = now, sh_ExpiresAt = now + effective_ttl ttl\<rparr>"
    by (auto simp: NewShare_def draw_eq_Inr)
  with that randomString_Inr [OF _ ne(1)] randomString_Inr [OF _ ne(2)] rand_Read_Inr
  show thesis by (metis share.select_convs)
qed

lemma Rotate_Inr:
  assumes "Rotate s ttl now es = Some (Inr (s', code), rest)"
  obtains salt where
    "length code = codeLength" "set code \<subseteq> set codeAlphabet" "length salt = saltLength"
    "sh_ShareCount s < MaxShareCount"
    "s' = s\<lparr>sh_CodeSalt := hex_encode salt, sh_CodeHash := hashCode salt code,
            sh_ShareCount := sh_ShareCount s + 1, sh_ExpiresAt := now + effective_ttl ttl\<rparr>"
proof -
  have ne: "codeAlphabet \<noteq> []"
    by (simp add: codeAlphabet_def)
  from assms obtain es1 es2 salt where
    "randomString codeAlphabet codeLength es = Some (Inr code, es1)"
    "rand_Read saltLength es1 = Some (Inr salt, es2)"
    "sh_ShareCount s < MaxShareCount"
    "s' = s\<lparr>sh_CodeSalt := hex_encode salt, sh_CodeHash := hashCode salt code,
            sh_ShareCount := sh_ShareCount s + 1, sh_ExpiresAt := now + effective_ttl ttl\<rparr>"
    by (auto simp: Rotate_def draw_eq_Inr split: if_splits)
  with that randomString_Inr [OF _ ne] rand_Read_Inr show thesis by metis
qed

lemma effective_ttl_bounds: "0 < effective_ttl ttl" "effective_ttl ttl \<le> MaxTTL"
  by (auto simp: effective_ttl_def DefaultTTL_def MaxTTL_def Hour_eq)

lemma hex_encode_inj: "hex_encode a = hex_encode b \<longleftrightarrow> a = b"
  by (metis hex_decode_encode sum.inject(2))

lemma Verify_salted:
  "sh_CodeSalt s = hex_encode salt \<Longrightarrow>
   Verify s typed now =
     (if sh_ExpiresAt s < now then Some ErrExpired
      else if sh_CodeHash s = hashCode salt (normalizeCode typed) then None
      else Some ErrWrongCode)"
  by (simp add: Verify_def hex_decode_encode ConstantTimeCompare_iff bytes_of_inj)

lemma salted_code_opens:
  assumes "sh_CodeSalt s = hex_encode salt" "sh_CodeHash s = hashCode salt code"
    and "set code \<subseteq> set codeAlphabet" "now \<le> sh_ExpiresAt s"
    and "ToLower (filter (\<lambda>c. \<not> separator c) typed) = ToLower code"
  shows "Verify s typed now = None"
  using assms normalizeCode_typed [OF assms(3,5)] by (simp add: Verify_salted [OF assms(1)])

text \<open>
  The access code returned with a new share opens it until it expires, however the
  recipient types it: with spaces and dashes anywhere and in either case.
\<close>

theorem NewShare_code_opens:
  assumes "NewShare key name sz oid oemail remail ttl now es = Some (Inr (sh, code), rest)"
    and "now' \<le> sh_ExpiresAt sh"
    and "ToLower (filter (\<lambda>c. \<not> separator c) typed) = ToLower code"
  shows "Verify sh typed now' = None"
proof -
  obtain salt
    where s: "set code \<subseteq> set codeAlphabet" "sh_CodeSalt sh = hex_encode salt"
      "sh_CodeHash sh = hashCode salt code"
    by (rule NewShare_Inr [OF assms(1)])
  from salted_code_opens [OF s(2,3,1) assms(2,3)] show ?thesis .
qed

text \<open>
  A rotation replaces the code: it hands out a code that opens the share, and any other
  text opens it only if its SHA-256 digest under the new 16-byte salt collides with the
  new code's; in particular the previous code is refused unless it collides. The link
  (slug), the file, the owner and the creation time are kept, and the count goes up by one.
\<close>

theorem Rotate_replaces_code:
  assumes "Rotate s ttl now es = Some (Inr (s', code), rest)"
    and "now' \<le> sh_ExpiresAt s'"
  shows "\<exists>salt. sh_CodeSalt s' = hex_encode salt \<and> length salt = saltLength
    \<and> Verify s' code now' = None
    \<and> (\<forall>typed. Verify s' typed now' =
          (if sha256 (salt @ bytes_of (normalizeCode typed)) = sha256 (salt @ bytes_of code)
           then None else Some ErrWrongCode))
    \<and> sh_Slug s' = sh_Slug s \<and> sh_StorageKey s' = sh_StorageKey s
    \<and> sh_OwnerID s' = sh_OwnerID s \<and> sh_CreatedAt s' = sh_CreatedAt s
    \<and> sh_ShareCount s' = sh_ShareCount s + 1"
proof -
  obtain salt
    where s: "set code \<subseteq> set codeAlphabet" "sh_CodeSalt s' = hex_encode salt"
      "sh_CodeHash s' = hashCode salt code" "length salt = saltLength"
    and kept: "sh_Slug s' = sh_Slug s" "sh_StorageKey s' = sh_StorageKey s"
      "sh_OwnerID s' = sh_OwnerID s" "sh_CreatedAt s' = sh_CreatedAt s"
      "sh_ShareCount s' = sh_ShareCount s + 1"
    by (rule Rotate_Inr [OF assms(1)]) simp
  have "filter (\<lambda>c. \<not> separator c) code = code"
    using s(1) codeAlphabet_ord by (fastforce simp: filter_id_conv separator_ord)
  with normalizeCode_typed [OF s(1), of code] have "normalizeCode code = code" by simp
  with s assms(2) kept show ?thesis
    by (intro exI [of _ salt]) (auto simp: Verify_salted hashCode_def hex_encode_inj)
qed

text \<open>A concrete run of the random draws: every byte delivered is zero.\<close>

definition zeros :: "nat \<Rightarrow> entropy" where
  "zeros n = replicate n (Inr 0)"

lemma random_loop_zeros:
  "0 < mx \<Longrightarrow>
   random_loop a mx n out (zeros n @ es) = Some (Inr (out @ replicate n (a ! 0)), es)"
  by (induction n arbitrary: out) (simp_all add: zeros_def)

lemma randomString_zeros:
  "length a = 62 \<or> length a = 32 \<Longrightarrow>
   randomString a n (zeros n @ es) = Some (Inr (replicate n (a ! 0)), es)"
  using random_loop_zeros [of _ a n "[]" es] by (auto simp: randomString_def)

lemma rand_Read_zeros: "rand_Read n (zeros n @ es) = Some (Inr (replicate n 0), es)"
  using rand_Read_bytes [of "replicate n 0" n es] by (simp add: zeros_def)

definition sample_salt :: "byte list" where "sample_salt = replicate saltLength 0"

lemma NewShare_zeros:
  "NewShare key name sz oid oemail remail ttl now
     (zeros slugLength @ zeros codeLength @ zeros saltLength @ es) =
     Some (Inr (\<lparr>sh_Slug = ''aaaaaaaaaa'', sh_StorageKey = key, sh_FileName = name,
       sh_FileSize = sz, sh_OwnerID = oid, sh_OwnerEmail = oemail, sh_RecipientEmail = remail,
       sh_CodeSalt = hex_encode sample_salt, sh_CodeHash = hashCode sample_salt ''AAAAAA'',
       sh_ShareCount = 1, sh_CreatedAt = now, sh_ExpiresAt = now + effective_ttl ttl\<rparr>,
       ''AAAAAA''), es)"
proof -
  have "replicate slugLength (slugAlphabet ! 0) = ''aaaaaaaaaa''"
    "replicate codeLength (codeAlphabet ! 0) = ''AAAAAA''"
    by (simp_all add: slugLength_def slugAlphabet_def codeLength_def codeAlphabet_def
        numeral_eq_Suc)
  then show ?thesis
    by (simp add: NewShare_def randomString_zeros rand_Read_zeros slugAlphabet_size
        codeAlphabet_size sample_salt_def)
qed

lemma Rotate_zeros:
  "sh_ShareCount s < MaxShareCount \<Longrightarrow>
   Rotate s ttl now (zeros codeLength @ zeros saltLength @ es) =
     Some (Inr (s\<lparr>sh_CodeSalt := hex_encode sample_salt,
       sh_CodeHash := hashCode sample_salt ''AAAAAA'',
       sh_ShareCount := sh_ShareCount s + 1, sh_ExpiresAt := now + effective_ttl ttl\<rparr>,
       ''AAAAAA''), es)"
proof -
  have "replicate codeLength (codeAlphabet ! 0) = ''AAAAAA''"
    by (simp add: codeLength_def codeAlphabet_def numeral_eq_Suc)
  moreover assume "sh_ShareCount s < MaxShareCount"
  ultimately show ?thesis
    by (simp add: Rotate_def randomString_zeros rand_Read_zeros codeAlphabet_size
        sample_salt_def)
qed

definition sample_share :: share where
  "sample_share = \<lparr>sh_Slug = ''aaaaaaaaaa'', sh_StorageKey = ''id_a.txt'', sh_FileName = ''a.txt'',
     sh_FileSize = 5, sh_OwnerID = [], sh_OwnerEmail = [], sh_RecipientEmail = [],
     sh_CodeSalt = hex_encode sample_salt, sh_CodeHash = hashCode sample_salt ''AAAAAA'',
     sh_ShareCount = 1, sh_CreatedAt = 0, sh_ExpiresAt = Hour\<rparr>"

theorem NewShare_code_opens_witness:
  "Verify sample_share ''aa-A AAa '' 7 = None"
proof (rule NewShare_code_opens)
  show "NewShare ''id_a.txt'' ''a.txt'' 5 [] [] [] Hour 0
      (zeros slugLength @ zeros codeLength @ zeros saltLength @ [])
      = Some (Inr (sample_share, ''AAAAAA''), [])"
    unfolding NewShare_zeros by (simp add: sample_share_def effective_ttl_def Hour_eq MaxTTL_def)
  show "7 \<le> sh_ExpiresAt sample_share"
    by (simp add: sample_share_def Hour_eq)
  show "ToLower (filter (\<lambda>c. \<not> separator c) ''aa-A AAa '') = ToLower ''AAAAAA''"
    by code_simp
qed

theorem Rotate_replaces_code_witness:
  "\<exists>s' code salt. sh_CodeSalt s' = hex_encode salt \<and> Verify s' code 7 = None
     \<and> sh_Slug s' = ''aaaaaaaaaa'' \<and> sh_ShareCount s' = 2"
proof -
  from Rotate_zeros [of sample_share Hour 0 "[]"] obtain s' where
    r: "Rotate sample_share Hour 0 (zeros codeLength @ zeros saltLength @ [])
        = Some (Inr (s', ''AAAAAA''), [])" and e: "7 \<le> sh_ExpiresAt s'"
    by (simp add: sample_share_def MaxShareCount_def effective_ttl_def Hour_eq MaxTTL_def)
  from Rotate_replaces_code [OF r e] show ?thesis
    by (auto simp: sample_share_def intro!: exI [of _ s'])
qed

subsection \<open>Slugs, lifetimes and limits\<close>

lemma slugAlphabet_ord: "c \<in> set slugAlphabet \<longleftrightarrow> slug_rune (ord c)"
proof
  assume "c \<in> set slugAlphabet"
  then show "slug_rune (ord c)" by (auto simp: slugAlphabet_def slug_rune_def)
next
  assume "slug_rune (ord c)"
  then have "ord c \<in> {97..<123} \<union> {65..<91} \<union> {48..<58}"
    by (auto simp: slug_rune_def)
  moreover have "\<forall>n \<in> {97..<123} \<union> {65..<91} \<union> {48..<58}. n \<in> ord ` set slugAlphabet"
    unfolding atLeastLessThan_upt by (simp add: slugAlphabet_def upt_rec)
  ultimately have "ord c \<in> ord ` set slugAlphabet" by blast
  then show "c \<in> set slugAlphabet" by auto
qed

text \<open>
  \<open>ValidateSlug\<close> accepts exactly the strings that slug generation can produce: ten
  characters of the slug alphabet, judged on bytes although the code ranges over runes.
\<close>

theorem ValidateSlug_iff:
  "ValidateSlug s = None \<longleftrightarrow> length s = slugLength \<and> set s \<subseteq> set slugAlphabet"
proof -
  have "list_all slug_rune (runes s) \<longleftrightarrow> set s \<subseteq> set slugAlphabet"
  proof
    assume ok: "list_all slug_rune (runes s)"
    then have "\<forall>r \<in> set (runes s). r < 0x80"
      by (auto simp: list_all_iff slug_rune_def)
    then have "runes s = map ord s"
      by (simp add: runes_ascii_iff runes_ascii)
    with ok show "set s \<subseteq> set slugAlphabet"
      by (auto simp: list_all_iff slugAlphabet_ord)
  next
    assume sub: "set s \<subseteq> set slugAlphabet"
    then have rune: "\<forall>c \<in> set s. slug_rune (ord c)"
      by (auto simp: slugAlphabet_ord)
    then have "runes s = map ord s"
      by (intro runes_ascii) (auto simp: slug_rune_def)
    with rune show "list_all slug_rune (runes s)"
      by (simp add: list_all_iff)
  qed
  then show ?thesis by (simp add: ValidateSlug_def)
qed

lemma ValidateSlug_cases: "ValidateSlug s = None \<or> ValidateSlug s = Some ErrInvalidSlug"
  by (simp add: ValidateSlug_def)

lemma NewShare_slug_valid:
  assumes "NewShare key name sz oid oemail remail ttl now es = Some (Inr (sh, code), rest)"
  shows "ValidateSlug (sh_Slug sh) = None"
  by (rule NewShare_Inr [OF assms]) (simp add: ValidateSlug_iff)

text \<open>
  C33. Whatever \<open>ttl_hours\<close> a client sends, also where \<open>ttl_hours * time.Hour\<close> wraps
  around in 64 bits, \<open>NewShare\<close> makes a share that expires after its creation and at most
  seven days later, and \<open>Rotate\<close> gives any share, however often it was rotated before, an
  expiry after the rotation's clock reading and at most seven days later. (The handlers may
  shorten it further, to the end of the file's retention.)
\<close>

theorem share_lifetime_bounded:
  assumes "NewShare key name sz oid oemail remail (wrap64 (hours * Hour)) now es
             = Some (Inr (sh, code), rest)"
    and "Rotate old (wrap64 (hours' * Hour)) now' es' = Some (Inr (sh', code'), rest')"
  shows "now < sh_ExpiresAt sh \<and> sh_ExpiresAt sh \<le> now + 7 * 24 * Hour \<and> sh_CreatedAt sh = now
       \<and> now' < sh_ExpiresAt sh' \<and> sh_ExpiresAt sh' \<le> now' + 7 * 24 * Hour"
proof -
  have "sh_ExpiresAt sh = now + effective_ttl (wrap64 (hours * Hour))" "sh_CreatedAt sh = now"
    by (rule NewShare_Inr [OF assms(1)], simp)+
  moreover have "sh_ExpiresAt sh' = now' + effective_ttl (wrap64 (hours' * Hour))"
    by (rule Rotate_Inr [OF assms(2)]) simp
  ultimately show ?thesis
    using effective_ttl_bounds [of "wrap64 (hours * Hour)"]
      effective_ttl_bounds [of "wrap64 (hours' * Hour)"]
    by (simp add: MaxTTL_def)
qed

theorem share_lifetime_bounded_witness:
  "\<exists>(sh :: share) (sh' :: share). 0 < sh_ExpiresAt sh \<and> sh_ExpiresAt sh \<le> 7 * 24 * Hour
     \<and> 5 < sh_ExpiresAt sh' \<and> sh_ExpiresAt sh' \<le> 5 + 7 * 24 * Hour"
proof -
  obtain sh where n: "NewShare ''k'' ''n'' 1 [] [] [] (wrap64 (2 * Hour)) 0
      (zeros slugLength @ zeros codeLength @ zeros saltLength @ [])
      = Some (Inr (sh, ''AAAAAA''), [])" and c: "sh_ShareCount sh < MaxShareCount"
    unfolding NewShare_zeros by (simp add: MaxShareCount_def)
  obtain sh' where r: "Rotate sh (wrap64 (3 * Hour)) 5 (zeros codeLength @ zeros saltLength @ [])
      = Some (Inr (sh', ''AAAAAA''), [])"
    using Rotate_zeros [OF c] by blast
  from share_lifetime_bounded [OF n r] show ?thesis
    by (intro exI [of _ sh] exI [of _ sh']) auto
qed

text \<open>
  \<open>ttl_hours\<close> is multiplied into nanoseconds in 64 bits before it is compared with
  the limits, so it is only read modulo \<open>2 ^ 51\<close> hours: an absurd request such as
  \<open>2 ^ 51 + 1\<close> hours, or a hugely negative one, is taken for one hour instead of being
  replaced by the 72-hour default.
\<close>

lemma ttl_hours_wraps:
  "wrap64 ((2 ^ 51 * k + h) * Hour) = wrap64 (h * Hour)
   \<and> effective_ttl (wrap64 ((2 ^ 51 + 1) * Hour)) = Hour
   \<and> effective_ttl (wrap64 ((1 - 2 ^ 51) * Hour)) = Hour"
proof (intro conjI)
  have "(2 ^ 51 * k + h) * Hour + 2 ^ 63 = h * Hour + 2 ^ 63 + 2 ^ 64 * (k * 439453125)"
    by (simp add: Hour_eq algebra_simps)
  then show "wrap64 ((2 ^ 51 * k + h) * Hour) = wrap64 (h * Hour)"
    by (simp only: wrap64_def mod_mult_self2)
next
  show "effective_ttl (wrap64 ((2 ^ 51 + 1) * Hour)) = Hour"
    "effective_ttl (wrap64 ((1 - 2 ^ 51) * Hour)) = Hour"
    by (simp_all add: wrap64_def effective_ttl_def Hour_eq MaxTTL_def)
qed

end
