(* ===== verification/Rest.thy ===== *)
theory Rest
  imports RateLimit Domain
begin

section \<open>internal/transport/rest and the request as the handlers see it\<close>

text \<open>
  Responses (\<open>transport/rest/response.go\<close>), the health handler, the parts of a gin request
  the handlers read, and the rate-limiting middleware. JSON decoding is gin's: a body is
  the decoded struct or \<open>None\<close> when the decoder fails; what the \<open>binding\<close> tags of the
  struct demand is checked by \<open>ShouldBindJSON\<close>.
\<close>

subsection \<open>Responses\<close>

datatype 'a body = Data 'a | ErrorBody string int

record 'a response =
  rsp_Status :: int
  rsp_Body :: "'a body"

definition StatusOK :: int where "StatusOK = 200"

definition Success :: "'a \<Rightarrow> 'a response" where
  "Success data = \<lparr>rsp_Status = StatusOK, rsp_Body = Data data\<rparr>"

definition Error :: "int \<Rightarrow> string \<Rightarrow> 'a response" where
  "Error code message = \<lparr>rsp_Status = code, rsp_Body = ErrorBody message code\<rparr>"

definition InternalError :: "string \<Rightarrow> 'a response" where
  "InternalError = Error 500"

definition BadRequest :: "string \<Rightarrow> 'a response" where
  "BadRequest = Error 400"

definition NotFound :: "string \<Rightarrow> 'a response" where
  "NotFound = Error 404"

lemma response_simps [simp]:
  "Success a = Success b \<longleftrightarrow> a = b" "Success a \<noteq> Error n m" "Error n m \<noteq> Success a"
  "InternalError m = Error 500 m" "BadRequest m = Error 400 m" "NotFound m = Error 404 m"
  "Error n m = Error n' m' \<longleftrightarrow> n = n' \<and> m = m'"
  "rsp_Status (Success a) = 200" "rsp_Status (Error n m) = n"
  by (auto simp: Success_def Error_def InternalError_def BadRequest_def NotFound_def StatusOK_def)

record health =
  h_Status :: string
  h_Timestamp :: int
  h_Service :: string

definition HealthHandler :: "time \<Rightarrow> health response" where
  "HealthHandler now =
     Success \<lparr>h_Status = ''ok'', h_Timestamp = now div Second, h_Service = ''lapis-archive-file-service''\<rparr>"

subsection \<open>Requests\<close>

text \<open>
  What a handler reads of \<open>gin.Context\<close>: the client's address (\<open>c.ClientIP()\<close>) and the
  user that the auth middleware stored (\<open>auth.UserFrom\<close>).
\<close>

record ctx =
  c_ClientIP :: string
  c_User :: "user option"

definition ShouldBindJSON :: "('r \<Rightarrow> bool) \<Rightarrow> 'r option \<Rightarrow> 'r option" where
  "ShouldBindJSON tags body =
     (case body of None \<Rightarrow> None | Some r \<Rightarrow> if tags r then Some r else None)"

lemma ShouldBindJSON_Some [simp]: "ShouldBindJSON tags body = Some r \<longleftrightarrow> body = Some r \<and> tags r"
  by (auto simp: ShouldBindJSON_def split: option.splits)

text \<open>
  \<open>RateLimitByIP\<close>: one limiter shared by the routes of a group. The handler behind it is
  the continuation; \<open>None\<close> says the request was turned away.
\<close>

definition RateLimitByIP :: "string \<Rightarrow> time \<Rightarrow> limiter \<Rightarrow> 'a response option \<times> limiter" where
  "RateLimitByIP ip now l =
     (case Allow l ip now of
        (False, l') \<Rightarrow> (Some (Error 429 ''Too many requests, slow down''), l')
      | (True, l') \<Rightarrow> (None, l'))"

end
