(* ===== verification/StorageKey.thy ===== *)
theory StorageKey
  imports GoText
begin

section \<open>internal/storagekey: the "<fileID>_<fileName>" object keys\<close>

text \<open>
  \<open>Build\<close> and \<open>Split\<close> of \<open>internal/storagekey/storagekey.go\<close>. \<open>Split\<close> cuts at the
  first underscore, so it inverts \<open>Build\<close> for ids without one (UUIDs have none).
\<close>

definition Build :: "string \<Rightarrow> string \<Rightarrow> string" where
  "Build fileID fileName = fileID @ ''_'' @ fileName"

definition Split :: "string \<Rightarrow> string \<times> string" where
  "Split key =
     (case Cut key (CHR ''_'') of
        (fid, name, found) \<Rightarrow> if \<not> found then ([], key) else (fid, name))"

lemma takeWhile_absent: "c \<notin> set a \<Longrightarrow> takeWhile (\<lambda>d. d \<noteq> c) a = a"
  by (induction a) auto

lemma Cut_found: "c \<notin> set a \<Longrightarrow> Cut (a @ c # b) c = (a, b, True)"
proof -
  assume "c \<notin> set a"
  then have "takeWhile (\<lambda>d. d \<noteq> c) (a @ c # b) = a"
    by (induction a) auto
  then show ?thesis by (simp add: Cut_def)
qed

lemma Cut_not_found: "c \<notin> set a \<Longrightarrow> Cut a c = (a, [], False)"
  by (simp add: Cut_def Let_def takeWhile_absent)

lemma Cut_cases:
  obtains (found) a b where "s = a @ c # b" "c \<notin> set a" "Cut s c = (a, b, True)"
  | (absent) "c \<notin> set s" "Cut s c = (s, [], False)"
proof (cases "c \<in> set s")
  case True
  then obtain a b where "s = a @ c # b" "c \<notin> set a" by (meson split_list_first)
  then show thesis using found Cut_found by metis
next
  case False
  then show thesis using absent Cut_not_found by metis
qed

lemma Split_Build: "CHR ''_'' \<notin> set fid \<Longrightarrow> Split (Build fid name) = (fid, name)"
  by (simp add: Split_def Build_def Cut_found)

lemma Split_no_separator: "CHR ''_'' \<notin> set key \<Longrightarrow> Split key = ([], key)"
  by (simp add: Split_def Cut_not_found)

text \<open>
  Storage keys round-trip: a key with an underscore splits into an id and a name exactly
  when it was built from them and the id has no underscore; so what \<open>Build\<close> joins
  \<open>Split\<close> takes apart, however many underscores the file name has, and a key without an
  underscore is all name.
\<close>

theorem Split_iff_Build:
  "(Split key = (fid, name) \<and> CHR ''_'' \<in> set key \<longleftrightarrow>
     key = Build fid name \<and> CHR ''_'' \<notin> set fid)
   \<and> (CHR ''_'' \<in> set key \<or> Split key = ([], key))"
proof (cases key "CHR ''_''" rule: Cut_cases)
  case (found a b)
  then have "Split key = (a, b)" "key = Build a b"
    by (simp_all add: Split_def Build_def)
  with found(2) Split_Build show ?thesis
    by (metis Build_def append_Cons fst_conv in_set_conv_decomp snd_conv)
next
  case absent
  then show ?thesis by (auto simp: Split_no_separator Build_def)
qed

end
