(* ===== verification/Auth.thy ===== *)
theory Auth
  imports Rest StorageKey
begin

section \<open>internal/auth: bearer tokens and the verified user\<close>

text \<open>
  \<open>auth.go\<close>: reading the bearer token, checking it (\<open>Verifier.parse\<close>) and the two
  middlewares. \<open>jwt.Parse\<close> with its key function is a parameter: applied to the parser
  options the code assembles and a token, it gives the claims or an error. A token whose
  claims are not a map is the inner \<open>None\<close>. The fetch of the key set in
  \<open>checkJWKSHasKeys\<close> is a parameter as well.
\<close>

record parser_options =
  o_ValidMethods :: "string list"
  o_Issuer :: "string option"
  o_Audience :: "string option"

datatype claim = StringClaim string | OtherClaim

type_synonym jwt_parser = "string \<Rightarrow> parser_options \<Rightarrow> goerr + (string \<Rightarrow> claim option) option"

record verifier =
  v_parse :: jwt_parser
  v_issuer :: string
  v_audience :: string

definition parser_opts :: "verifier \<Rightarrow> parser_options" where
  "parser_opts v =
     \<lparr>o_ValidMethods = [''RS256'', ''ES256''],
      o_Issuer = (if v_issuer v \<noteq> [] then Some (v_issuer v) else None),
      o_Audience = (if v_audience v \<noteq> [] then Some (v_audience v) else None)\<rparr>"

definition string_claim :: "(string \<Rightarrow> claim option) \<Rightarrow> string \<Rightarrow> string" where
  "string_claim claims k = (case claims k of Some (StringClaim s) \<Rightarrow> s | _ \<Rightarrow> [])"

definition parse :: "verifier \<Rightarrow> string \<Rightarrow> goerr + user" where
  "parse v tokenString =
     (case v_parse v tokenString (parser_opts v) of
        Inl e \<Rightarrow> Inl e
      | Inr None \<Rightarrow> Inl (Fault ''unexpected claims type'')
      | Inr (Some claims) \<Rightarrow>
          (let sub = string_claim claims ''sub''
           in if sub = [] then Inl (Fault ''token missing sub'')
              else Inr \<lparr>usr_ID = sub, usr_Email = string_claim claims ''email''\<rparr>))"

text \<open>\<open>strings.SplitN(header, " ", 2)\<close> has two parts exactly when there is a space.\<close>

definition bearerToken :: "string \<Rightarrow> string" where
  "bearerToken header =
     (if header = [] then []
      else case Cut header (CHR '' '') of
        (scheme, rest, two) \<Rightarrow>
          if \<not> two \<or> \<not> EqualFold scheme ''Bearer'' then [] else TrimSpace rest)"

text \<open>\<open>Required\<close> answers the request itself (\<open>Inl\<close>) or passes the user on.\<close>

definition Required :: "verifier \<Rightarrow> string \<Rightarrow> 'a response + user" where
  "Required v header =
     (let token = bearerToken header
      in if token = [] then Inl (Error 401 ''Authentication required'')
         else case parse v token of
           Inl e \<Rightarrow> Inl (Error 401 ''Invalid or expired token'')
         | Inr user \<Rightarrow> Inr user)"

definition Optional :: "verifier \<Rightarrow> string \<Rightarrow> user option" where
  "Optional v header =
     (let token = bearerToken header
      in if token \<noteq> [] then (case parse v token of Inl e \<Rightarrow> None | Inr user \<Rightarrow> Some user) else None)"

subsection \<open>Start-up\<close>

text \<open>The answer of the key-set endpoint: its status and the number of keys decoded.\<close>

record jwks_answer =
  jw_StatusCode :: int
  jw_Keys :: "goerr + nat"

definition checkJWKSHasKeys :: "(string \<Rightarrow> goerr + jwks_answer) \<Rightarrow> string \<Rightarrow> goerr option" where
  "checkJWKSHasKeys fetch jwksURL =
     (case fetch jwksURL of
        Inl e \<Rightarrow> Some (Wrapped (Sprintf ''fetching jwks: %w'' []) e)
      | Inr resp \<Rightarrow>
          if jw_StatusCode resp \<noteq> 200
          then Some (Wrapped (Sprintf ''fetching jwks: unexpected status %d'' [itoa (jw_StatusCode resp)])
                       (Fault ''status''))
          else (case jw_Keys resp of
              Inl e \<Rightarrow> Some (Wrapped (Sprintf ''decoding jwks: %w'' []) e)
            | Inr n \<Rightarrow> if n = 0 then Some (Fault ''jwks has no keys'') else None))"

definition NewVerifier ::
  "(string \<Rightarrow> goerr + jwks_answer) \<Rightarrow> (string \<Rightarrow> goerr + jwt_parser) \<Rightarrow> string \<Rightarrow> string \<Rightarrow> string
   \<Rightarrow> goerr + verifier" where
  "NewVerifier fetch keyfunc jwksURL issuer audience =
     (if jwksURL = [] then Inl (Fault ''jwks url is empty'')
      else case checkJWKSHasKeys fetch jwksURL of
        Some e \<Rightarrow> Inl e
      | None \<Rightarrow>
          (case keyfunc jwksURL of
             Inl e \<Rightarrow> Inl (Wrapped (Sprintf ''loading jwks: %w'' []) e)
           | Inr p \<Rightarrow> Inr \<lparr>v_parse = p, v_issuer = issuer, v_audience = audience\<rparr>))"

subsection \<open>What the middlewares guarantee\<close>

lemma parse_Inr:
  "parse v tok = Inr u \<longleftrightarrow>
     (\<exists>claims. v_parse v tok (parser_opts v) = Inr (Some claims)
        \<and> claims ''sub'' = Some (StringClaim (usr_ID u)) \<and> usr_ID u \<noteq> []
        \<and> usr_Email u = string_claim claims ''email'')"
  by (cases u)
    (auto simp: parse_def string_claim_def Let_def split: sum.splits option.splits claim.splits)

lemma Required_Inr:
  "Required v header = Inr u \<longleftrightarrow> bearerToken header \<noteq> [] \<and> parse v (bearerToken header) = Inr u"
  by (auto simp: Required_def Let_def split: sum.splits)

text \<open>
  The documented contract of \<open>jwt.Parse\<close>: it succeeds only for a token signed by a key of
  the key set with one of the valid methods, whose issuer and audience are the required
  ones. \<open>signed_by\<close>, \<open>issuer_of\<close> and \<open>audience_of\<close> say which tokens those are.
\<close>

definition jwt_contract ::
  "jwt_parser \<Rightarrow> (string \<Rightarrow> string \<Rightarrow> bool) \<Rightarrow> (string \<Rightarrow> string) \<Rightarrow> (string \<Rightarrow> string list) \<Rightarrow> bool" where
  "jwt_contract p signed_by issuer_of audience_of \<longleftrightarrow>
     (\<forall>tok opts claims. p tok opts = Inr claims \<longrightarrow>
        (\<exists>m \<in> set (o_ValidMethods opts). signed_by tok m)
        \<and> (\<forall>i. o_Issuer opts = Some i \<longrightarrow> issuer_of tok = i)
        \<and> (\<forall>a. o_Audience opts = Some a \<longrightarrow> a \<in> set (audience_of tok)))"

text \<open>
  C27. A request passes \<open>Required\<close> only with a bearer token that is asymmetrically signed by
  the configured issuer for the configured audience, and the user it acts as has the
  token's non-empty subject as id; a token signed with a shared secret never passes.
\<close>

theorem Required_sound:
  assumes "jwt_contract (v_parse v) signed_by issuer_of audience_of"
    and "Required v header = Inr u"
  shows "let tok = bearerToken header in
       (signed_by tok ''RS256'' \<or> signed_by tok ''ES256'')
     \<and> (v_issuer v \<noteq> [] \<longrightarrow> issuer_of tok = v_issuer v)
     \<and> (v_audience v \<noteq> [] \<longrightarrow> v_audience v \<in> set (audience_of tok))
     \<and> usr_ID u \<noteq> []
     \<and> (\<exists>claims. v_parse v tok (parser_opts v) = Inr (Some claims)
          \<and> claims ''sub'' = Some (StringClaim (usr_ID u)))"
proof -
  from assms(2) obtain claims where
    c: "v_parse v (bearerToken header) (parser_opts v) = Inr (Some claims)"
      "claims ''sub'' = Some (StringClaim (usr_ID u))" "usr_ID u \<noteq> []"
    by (auto simp: Required_Inr parse_Inr)
  with assms(1) show ?thesis
    unfolding jwt_contract_def Let_def by (fastforce simp: parser_opts_def)
qed

text \<open>A service with one user; its tokens are \<open>good\<close> and, with another audience, \<open>other\<close>.\<close>

definition sample_verifier :: verifier where
  "sample_verifier =
     \<lparr>v_parse = \<lambda>tok opts.
        if tok = ''good'' \<and> ''ES256'' \<in> set (o_ValidMethods opts) \<and> o_Issuer opts \<in> {None, Some ''iss''}
           \<and> o_Audience opts \<in> {None, Some ''aud''}
        then Inr (Some [''sub'' \<mapsto> StringClaim ''u-1'', ''email'' \<mapsto> StringClaim ''a@b.c''])
        else Inl (Fault ''token is unverifiable''),
      v_issuer = ''iss'', v_audience = ''aud''\<rparr>"

lemma sample_bearer: "bearerToken ''bEARER  good '' = ''good''"
proof -
  have "EqualFold ''bEARER'' ''Bearer''" by code_simp
  moreover have "TrimSpace '' good '' = ''good''"
    by (simp add: TrimSpace_def trim_def is_space_def)
  ultimately show ?thesis by (simp add: bearerToken_def Cut_def)
qed

lemma sample_Required:
  "Required sample_verifier ''bEARER  good '' = Inr \<lparr>usr_ID = ''u-1'', usr_Email = ''a@b.c''\<rparr>"
  by (simp add: Required_def sample_bearer parse_def sample_verifier_def parser_opts_def string_claim_def)

theorem Required_sound_witness:
  "let tok = bearerToken ''bEARER  good '' in
     (\<lambda>_ m. m = ''ES256'') tok ''ES256''
     \<and> (\<exists>claims. v_parse sample_verifier tok (parser_opts sample_verifier) = Inr (Some claims)
          \<and> claims ''sub'' = Some (StringClaim ''u-1''))"
proof -
  have "jwt_contract (v_parse sample_verifier) (\<lambda>_ m. m = ''ES256'') (\<lambda>_. ''iss'') (\<lambda>_. [''aud''])"
    by (auto simp: jwt_contract_def sample_verifier_def split: if_splits)
  from Required_sound [OF this sample_Required] show ?thesis
    by (auto simp: Let_def)
qed

text \<open>
  Optional authentication attaches exactly the user \<open>Required\<close> would accept, and treats every
  other request as anonymous.
\<close>

lemma Optional_is_Required:
  "Optional v header = (case Required v header of Inr u \<Rightarrow> Some u | Inl r \<Rightarrow> None)"
  by (auto simp: Optional_def Required_def Let_def split: sum.splits)

end
