(* ===== verification/Config.thy ===== *)
theory Config
  imports GoText
begin

section \<open>internal/config: the configuration read from the environment\<close>

text \<open>
  \<open>Load\<close> and its readers. The environment is a function from names to values, where an
  unset variable and an empty one are the same to \<open>os.Getenv\<close>. \<open>strconv.Atoi\<close> and
  \<open>strconv.ParseBool\<close> are spelled out. A list that may be \<open>nil\<close> is just a list: the code
  looks at its length only.
\<close>

type_synonym env = "string \<Rightarrow> string"

subsection \<open>strconv\<close>

definition digit_of :: "char \<Rightarrow> int option" where
  "digit_of c = (if 48 \<le> ord c \<and> ord c \<le> 57 then Some (int (ord c) - 48) else None)"

fun read_digits :: "string \<Rightarrow> int \<Rightarrow> int option" where
  "read_digits [] n = Some n"
| "read_digits (c # s) n =
     (case digit_of c of None \<Rightarrow> None | Some d \<Rightarrow> read_digits s (10 * n + d))"

definition read_nat :: "string \<Rightarrow> int option" where
  "read_nat s = (if s = [] then None else read_digits s 0)"

definition in_int64 :: "int \<Rightarrow> int option" where
  "in_int64 n = (if - (2 ^ 63) \<le> n \<and> n < 2 ^ 63 then Some n else None)"

definition Atoi :: "string \<Rightarrow> int option" where
  "Atoi s =
     (case s of
        [] \<Rightarrow> None
      | c # t \<Rightarrow>
          if c = CHR ''-'' then Option.bind (read_nat t) (\<lambda>n. in_int64 (- n))
          else if c = CHR ''+'' then Option.bind (read_nat t) in_int64
          else Option.bind (read_nat s) in_int64)"

definition ParseBool :: "string \<Rightarrow> bool option" where
  "ParseBool s =
     (if s \<in> {''1'', ''t'', ''T'', ''true'', ''TRUE'', ''True''} then Some True
      else if s \<in> {''0'', ''f'', ''F'', ''false'', ''FALSE'', ''False''} then Some False
      else None)"

subsection \<open>Readers\<close>

definition getEnv :: "env \<Rightarrow> string \<Rightarrow> string \<Rightarrow> string" where
  "getEnv env key defaultValue = (let value = env key in if value \<noteq> [] then value else defaultValue)"

definition getEnvInt :: "env \<Rightarrow> string \<Rightarrow> int \<Rightarrow> int" where
  "getEnvInt env key defaultValue =
     (let value = env key
      in if value \<noteq> [] then (case Atoi value of Some n \<Rightarrow> n | None \<Rightarrow> defaultValue) else defaultValue)"

definition getEnvList :: "env \<Rightarrow> string \<Rightarrow> string list \<Rightarrow> string list" where
  "getEnvList env key defaultValue =
     (let value = env key
      in if value = [] then defaultValue
         else let xs = filter (\<lambda>t. t \<noteq> []) (map TrimSpace (Split_on value (CHR '','')))
              in if xs = [] then defaultValue else xs)"

definition getEnvBool :: "env \<Rightarrow> string \<Rightarrow> bool \<Rightarrow> bool" where
  "getEnvBool env key defaultValue =
     (let value = env key
      in if value \<noteq> [] then (case ParseBool value of Some b \<Rightarrow> b | None \<Rightarrow> defaultValue) else defaultValue)"

definition mask :: "string \<Rightarrow> string" where
  "mask s = (if length s \<le> 4 then ''****'' else take 4 s @ ''****'')"

subsection \<open>Load\<close>

record server_config =
  sc_Port :: int
  sc_ReadTimeout :: int
  sc_WriteTimeout :: int
  sc_IdleTimeout :: int
  sc_ShutdownTimeout :: int
  sc_MaxUploadMB :: int
  sc_AllowedOrigins :: "string list"
  sc_TrustedProxies :: "string list"

record logging_config =
  lc_Level :: string
  lc_Mode :: string

record s3_config =
  s3_Endpoint :: string
  s3_Region :: string
  s3_AccessKeyID :: string
  s3_SecretAccessKey :: string
  s3_UseSSL :: bool
  s3_BucketName :: string
  s3_ForcePathStyle :: bool

record auth_config =
  ac_JWKSURL :: string
  ac_Issuer :: string
  ac_Audience :: string

record retention_config =
  rc_AnonHours :: int
  rc_OwnedHours :: int

record config =
  cf_Server :: server_config
  cf_Logging :: logging_config
  cf_S3 :: s3_config
  cf_DatabaseURL :: string
  cf_Auth :: auth_config
  cf_Retention :: retention_config

definition load_server :: "env \<Rightarrow> server_config" where
  "load_server env =
     \<lparr>sc_Port = getEnvInt env ''PORT'' 6060,
      sc_ReadTimeout = getEnvInt env ''READ_TIMEOUT'' 30,
      sc_WriteTimeout = getEnvInt env ''WRITE_TIMEOUT'' 30,
      sc_IdleTimeout = getEnvInt env ''IDLE_TIMEOUT'' 120,
      sc_ShutdownTimeout = getEnvInt env ''SHUTDOWN_TIMEOUT'' 5,
      sc_MaxUploadMB = getEnvInt env ''MAX_UPLOAD_MB'' 512,
      sc_AllowedOrigins = getEnvList env ''ALLOWED_ORIGINS'' [],
      sc_TrustedProxies = getEnvList env ''TRUSTED_PROXIES'' []\<rparr>"

definition load_s3 :: "env \<Rightarrow> s3_config" where
  "load_s3 env =
     \<lparr>s3_Endpoint = getEnv env ''S3_ENDPOINT'' [],
      s3_Region = getEnv env ''S3_REGION'' ''us-east-1'',
      s3_AccessKeyID = getEnv env ''S3_ACCESS_KEY_ID'' [],
      s3_SecretAccessKey = getEnv env ''S3_SECRET_ACCESS_KEY'' [],
      s3_UseSSL = getEnvBool env ''S3_USE_SSL'' True,
      s3_BucketName = getEnv env ''S3_BUCKET_NAME'' ''oss-archive'',
      s3_ForcePathStyle = getEnvBool env ''S3_FORCE_PATH_STYLE'' False\<rparr>"

text \<open>The configuration, with the arguments of the line \<open>Load\<close> logs about it.\<close>

definition Load :: "env \<Rightarrow> config \<times> fmt" where
  "Load env =
     (let cfg = \<lparr>cf_Server = load_server env,
            cf_Logging = \<lparr>lc_Level = getEnv env ''LOG_LEVEL'' ''info'', lc_Mode = getEnv env ''GIN_MODE'' ''release''\<rparr>,
            cf_S3 = load_s3 env,
            cf_DatabaseURL = getEnv env ''DATABASE_URL'' [],
            cf_Auth = \<lparr>ac_JWKSURL = getEnv env ''AUTH_JWKS_URL'' [], ac_Issuer = getEnv env ''AUTH_ISSUER'' [],
                       ac_Audience = getEnv env ''AUTH_AUDIENCE'' []\<rparr>,
            cf_Retention = \<lparr>rc_AnonHours = getEnvInt env ''RETENTION_ANON_HOURS'' 72,
                            rc_OwnedHours = getEnvInt env ''RETENTION_OWNED_HOURS'' 168\<rparr>\<rparr>
      in (cfg, Sprintf ''config: port=%d s3_endpoint=%q s3_region=%s s3_bucket=%s s3_access_key=%s''
           [itoa (sc_Port (cf_Server cfg)), s3_Endpoint (cf_S3 cfg), s3_Region (cf_S3 cfg),
            s3_BucketName (cf_S3 cfg), mask (s3_AccessKeyID (cf_S3 cfg))]))"

subsection \<open>What was written is read\<close>

lemma digit_of_char: "d < 10 \<Longrightarrow> digit_of (char_of (48 + d)) = Some (int d)"
  by (simp add: digit_of_def)

lemma read_digits_append:
  "read_digits (s @ t) n = Option.bind (read_digits s n) (read_digits t)"
  by (induction s n rule: read_digits.induct) (auto split: option.splits)

lemma read_digits_of: "\<exists>k. \<forall>m. read_digits (digits n) m = Some (10 ^ k * m + int n)"
proof (induction n rule: digits.induct)
  case (1 n)
  show ?case
  proof (cases "n < 10")
    case True
    then have "digits n = [char_of (48 + n)]" by (subst digits.simps) simp
    with True show ?thesis by (intro exI [of _ 1]) (simp add: digit_of_char)
  next
    case False
    with 1 obtain k where k: "\<And>m. read_digits (digits (n div 10)) m = Some (10 ^ k * m + int (n div 10))"
      by blast
    from False have "digits n = digits (n div 10) @ [char_of (48 + n mod 10)]"
      by (subst digits.simps) simp
    moreover have "10 * int (n div 10) + int (n mod 10) = int n"
      by (metis mult_div_mod_eq of_nat_add of_nat_mult of_nat_numeral)
    ultimately show ?thesis
      by (intro exI [of _ "Suc k"]) (simp add: read_digits_append k digit_of_char algebra_simps)
  qed
qed

lemma digits_first: "\<exists>c s. digits n = c # s \<and> digit_of c \<noteq> None"
proof (induction n rule: digits.induct)
  case (1 n)
  show ?case
  proof (cases "n < 10")
    case True
    then have "digits n = [char_of (48 + n)]" by (subst digits.simps) simp
    with True show ?thesis by (simp add: digit_of_char)
  next
    case False
    with 1 obtain c s where "digits (n div 10) = c # s" "digit_of c \<noteq> None" by blast
    moreover from False have "digits n = digits (n div 10) @ [char_of (48 + n mod 10)]"
      by (subst digits.simps) simp
    ultimately show ?thesis by simp
  qed
qed

lemma read_nat_digits: "read_nat (digits n) = Some (int n)"
proof -
  obtain k where "\<forall>m. read_digits (digits n) m = Some (10 ^ k * m + int n)"
    using read_digits_of by blast
  with digits_first [of n] show ?thesis by (auto simp: read_nat_def)
qed

lemma Atoi_itoa:
  assumes "- (2 ^ 63) \<le> n" "n < 2 ^ 63"
  shows "Atoi (itoa n) = Some n"
proof (cases "n < 0")
  case True
  with assms show ?thesis by (simp add: Atoi_def itoa_def read_nat_digits in_int64_def)
next
  case False
  obtain c s where c: "digits (nat n) = c # s" "digit_of c \<noteq> None" using digits_first by blast
  then have "c \<noteq> CHR ''-''" "c \<noteq> CHR ''+''" by (auto simp: digit_of_def)
  with c(1) False assms read_nat_digits [of "nat n"] show ?thesis
    by (simp add: Atoi_def itoa_def in_int64_def)
qed

lemma Atoi_itoa_range:
  assumes "\<not> (- (2 ^ 63) \<le> n \<and> n < 2 ^ 63)"
  shows "Atoi (itoa n) = None"
proof (cases "n < 0")
  case True
  with assms show ?thesis by (simp add: Atoi_def itoa_def read_nat_digits in_int64_def)
next
  case False
  obtain c s where c: "digits (nat n) = c # s" "digit_of c \<noteq> None" using digits_first by blast
  then have "c \<noteq> CHR ''-''" "c \<noteq> CHR ''+''" by (auto simp: digit_of_def)
  with c(1) False assms read_nat_digits [of "nat n"] show ?thesis
    by (simp add: Atoi_def itoa_def in_int64_def)
qed

text \<open>What counts as a number: decimal digits, with a sign or none, and nothing else.\<close>

definition decimal_digit :: "char \<Rightarrow> bool" where
  "decimal_digit c \<longleftrightarrow> 48 \<le> ord c \<and> ord c \<le> 57"

definition denotes :: "string \<Rightarrow> int \<Rightarrow> bool" where
  "denotes s n \<longleftrightarrow> (\<exists>sign ds. s = sign @ ds \<and> sign \<in> {[], ''+'', ''-''} \<and> ds \<noteq> [] \<and> list_all decimal_digit ds
     \<and> n = (if sign = ''-'' then -1 else 1) * foldl (\<lambda>k c. 10 * k + (int (ord c) - 48)) 0 ds)"

lemma read_digits_iff:
  "read_digits ds k = Some n \<longleftrightarrow> list_all decimal_digit ds \<and> n = foldl (\<lambda>k c. 10 * k + (int (ord c) - 48)) k ds"
  by (induction ds arbitrary: k) (auto simp: digit_of_def decimal_digit_def)

lemma read_nat_iff:
  "read_nat ds = Some n \<longleftrightarrow> ds \<noteq> [] \<and> list_all decimal_digit ds
     \<and> n = foldl (\<lambda>k c. 10 * k + (int (ord c) - 48)) 0 ds"
  by (simp add: read_nat_def read_digits_iff)

lemma in_int64_iff: "in_int64 n = Some m \<longleftrightarrow> m = n \<and> - (2 ^ 63) \<le> n \<and> n < 2 ^ 63"
  by (auto simp: in_int64_def)

lemma denotes_cases:
  "denotes s n \<longleftrightarrow> read_nat s = Some n \<or> (\<exists>ds. s = CHR ''+'' # ds \<and> read_nat ds = Some n)
     \<or> (\<exists>ds. s = CHR ''-'' # ds \<and> read_nat ds = Some (- n))"
proof -
  define Q where "Q sign \<longleftrightarrow> (\<exists>ds. s = sign @ ds \<and> ds \<noteq> [] \<and> list_all decimal_digit ds
     \<and> n = (if sign = ''-'' then -1 else 1) * foldl (\<lambda>k c. 10 * k + (int (ord c) - 48)) 0 ds)" for sign
  have "denotes s n \<longleftrightarrow> (\<exists>sign \<in> {[], ''+'', ''-''}. Q sign)"
    unfolding denotes_def Q_def by blast
  also have "\<dots> \<longleftrightarrow> Q [] \<or> Q ''+'' \<or> Q ''-''" by simp
  also have "Q [] \<longleftrightarrow> read_nat s = Some n" by (simp add: Q_def read_nat_iff)
  also have "Q ''+'' \<longleftrightarrow> (\<exists>ds. s = CHR ''+'' # ds \<and> read_nat ds = Some n)" by (simp add: Q_def read_nat_iff)
  also have "Q ''-'' \<longleftrightarrow> (\<exists>ds. s = CHR ''-'' # ds \<and> read_nat ds = Some (- n))"
  proof -
    have "n = - v \<longleftrightarrow> - n = v" for v :: int by auto
    then show ?thesis by (simp add: Q_def read_nat_iff)
  qed
  finally show ?thesis .
qed

lemma denotes_Cons:
  "denotes (c # t) n \<longleftrightarrow>
     (if c = CHR ''-'' then read_nat t = Some (- n)
      else if c = CHR ''+'' then read_nat t = Some n else read_nat (c # t) = Some n)"
proof -
  have "read_nat (CHR ''-'' # t) = None" "read_nat (CHR ''+'' # t) = None"
    by (simp_all add: read_nat_def digit_of_def)
  then show ?thesis by (auto simp: denotes_cases)
qed

lemma Atoi_iff: "Atoi s = Some n \<longleftrightarrow> denotes s n \<and> - (2 ^ 63) \<le> n \<and> n < 2 ^ 63"
proof (cases s)
  case Nil
  then show ?thesis by (simp add: Atoi_def denotes_def)
next
  case (Cons c t)
  then show ?thesis
    by (auto simp: Atoi_def denotes_Cons bind_eq_Some_conv in_int64_iff split: if_splits)
qed

text \<open>
  C40. Integer settings are read back exactly or not at all: every 64-bit integer written in
  decimal is the value \<open>getEnvInt\<close> returns, whatever the default, and one out of range gives
  the default. In general a variable that holds decimal digits, with a sign or none, for a
  number of 64 bits gives that number, and anything else, be it unset, out of range or no
  number as a whole, gives the default instead of being wrapped or cut.
\<close>

theorem getEnvInt_roundtrip:
  "(- (2 ^ 63) \<le> n \<and> n < 2 ^ 63 \<longrightarrow> getEnvInt (env(key := itoa n)) key d = n)
   \<and> (\<not> (- (2 ^ 63) \<le> n \<and> n < 2 ^ 63) \<longrightarrow> getEnvInt (env(key := itoa n)) key d = d)
   \<and> (\<forall>m. denotes (env key) m \<and> - (2 ^ 63) \<le> m \<and> m < 2 ^ 63 \<longrightarrow> getEnvInt env key d = m)
   \<and> ((\<forall>m. denotes (env key) m \<longrightarrow> \<not> (- (2 ^ 63) \<le> m \<and> m < 2 ^ 63)) \<longrightarrow> getEnvInt env key d = d)"
proof (intro conjI)
  have nonempty: "itoa n \<noteq> []"
    using digits_first [of "nat n"] by (auto simp: itoa_def)
  with Atoi_itoa [of n] show "- (2 ^ 63) \<le> n \<and> n < 2 ^ 63 \<longrightarrow> getEnvInt (env(key := itoa n)) key d = n"
    by (auto simp: getEnvInt_def Let_def)
  from nonempty Atoi_itoa_range [of n]
  show "\<not> (- (2 ^ 63) \<le> n \<and> n < 2 ^ 63) \<longrightarrow> getEnvInt (env(key := itoa n)) key d = d"
    by (auto simp: getEnvInt_def Let_def)
  show "\<forall>m. denotes (env key) m \<and> - (2 ^ 63) \<le> m \<and> m < 2 ^ 63 \<longrightarrow> getEnvInt env key d = m"
  proof (intro allI impI)
    fix m assume "denotes (env key) m \<and> - (2 ^ 63) \<le> m \<and> m < 2 ^ 63"
    then have "Atoi (env key) = Some m" by (simp add: Atoi_iff)
    then show "getEnvInt env key d = m" by (auto simp: getEnvInt_def Let_def Atoi_def)
  qed
  show "(\<forall>m. denotes (env key) m \<longrightarrow> \<not> (- (2 ^ 63) \<le> m \<and> m < 2 ^ 63)) \<longrightarrow> getEnvInt env key d = d"
  proof
    assume "\<forall>m. denotes (env key) m \<longrightarrow> \<not> (- (2 ^ 63) \<le> m \<and> m < 2 ^ 63)"
    then have "Atoi (env key) = None" by (meson Atoi_iff not_Some_eq)
    then show "getEnvInt env key d = d" by (simp add: getEnvInt_def Let_def)
  qed
qed

theorem getEnvInt_roundtrip_witness:
  "getEnvInt ((\<lambda>_. [])(''PORT'' := itoa 8080)) ''PORT'' 6060 = 8080"
  using getEnvInt_roundtrip [of 8080 "\<lambda>_. []" "''PORT''" 6060] by simp

end
