(* ===== verification/Routes.thy ===== *)
theory Routes
  imports Auth Config
begin

section \<open>internal/server/routes.go: which request reaches which handler, and through what\<close>

text \<open>
  \<open>SetupRoutes\<close> as the table it registers: a route is a method, a path pattern, the
  middlewares in the order gin runs them (those of the group, then those of the route) and
  the handler. gin picks the route of the method whose pattern matches; a parameter matches
  one non-empty segment. No two patterns of a method match the same path, so the order of
  registration does not matter. gin's own redirects (trailing slashes) and the CORS
  middleware are not modelled beyond the choice of its configuration.
\<close>

subsection \<open>Routes\<close>

datatype http_method = GET | POST | PUT | DELETE | PATCH | HEAD | OPTIONS | CONNECT | TRACE

datatype segment = Lit string | Param

datatype handler =
    H_Health | H_PresignUpload | H_GetFile
  | H_MultipartInit | H_MultipartPart | H_MultipartStatus | H_MultipartComplete | H_MultipartAbort
  | H_ShareMaintenance | H_CreateShare | H_GetShare | H_UnlockShare | H_ListMine | H_RevokeShare
  | H_AuthUnavailable

datatype limiter_id = UploadLimit | DownloadLimit | CreateLimit

datatype middleware =
    Limit limiter_id
  | LimitBody int
  | AuthOptional verifier
  | AuthRequired verifier

record route =
  rt_method :: http_method
  rt_path :: "segment list"
  rt_chain :: "middleware list"
  rt_handler :: handler

text \<open>Of the dependencies the routing looks at: which are there, and the server's settings.\<close>

record deps =
  dp_Multipart :: bool
  dp_Shares :: bool
  dp_Verifier :: "verifier option"
  dp_Config :: server_config

datatype cors = NoCors | AllowAllOrigins | AllowOrigins "string list"

definition cors_of :: "server_config \<Rightarrow> cors" where
  "cors_of cfg =
     (if length (sc_AllowedOrigins cfg) = 0 then NoCors
      else if length (sc_AllowedOrigins cfg) = 1 \<and> sc_AllowedOrigins cfg ! 0 = ''*'' then AllowAllOrigins
      else AllowOrigins (sc_AllowedOrigins cfg))"

definition max_upload_bytes :: "server_config \<Rightarrow> int" where
  "max_upload_bytes cfg = wrap64 (wrap64 (sc_MaxUploadMB cfg * 1024) * 1024)"

definition maxJSONBytes :: int where "maxJSONBytes = 64 * 1024"
definition maxCompleteBytes :: int where "maxCompleteBytes = 2 * 1024 * 1024"

definition api :: "segment list \<Rightarrow> segment list" where
  "api p = Lit ''api'' # Lit ''v1'' # p"

definition route :: "http_method \<Rightarrow> segment list \<Rightarrow> middleware list \<Rightarrow> handler \<Rightarrow> route" where
  "route m p chain h = \<lparr>rt_method = m, rt_path = api p, rt_chain = chain, rt_handler = h\<rparr>"

definition optional_auth :: "verifier option \<Rightarrow> middleware list" where
  "optional_auth v = (case v of None \<Rightarrow> [] | Some v \<Rightarrow> [AuthOptional v])"

definition file_routes :: "deps \<Rightarrow> route list" where
  "file_routes d =
     [route POST [Lit ''files'', Lit ''presign-upload'']
        (optional_auth (dp_Verifier d) @ [Limit UploadLimit, LimitBody maxJSONBytes]) H_PresignUpload,
      route GET [Lit ''files'', Param] (optional_auth (dp_Verifier d) @ [Limit DownloadLimit]) H_GetFile]"

definition multipart_routes :: "deps \<Rightarrow> route list" where
  "multipart_routes d =
     (if \<not> dp_Multipart d then []
      else
        let group = [Limit UploadLimit] @ optional_auth (dp_Verifier d);
            post = (\<lambda>name n h. route POST [Lit ''uploads'', Lit ''multipart'', Lit name] (group @ [LimitBody n]) h)
        in [post ''init'' maxJSONBytes H_MultipartInit,
            post ''part'' maxJSONBytes H_MultipartPart,
            post ''status'' maxJSONBytes H_MultipartStatus,
            post ''complete'' maxCompleteBytes H_MultipartComplete,
            post ''abort'' maxJSONBytes H_MultipartAbort])"

text \<open>\<open>Any\<close> registers a handler for every method.\<close>

definition any_route :: "segment list \<Rightarrow> handler \<Rightarrow> route list" where
  "any_route p h =
     map (\<lambda>m. route m p [] h) [GET, POST, PUT, PATCH, HEAD, OPTIONS, DELETE, CONNECT, TRACE]"

definition share_routes :: "deps \<Rightarrow> route list" where
  "share_routes d =
     (if \<not> dp_Shares d then
        any_route [Lit ''shares''] H_ShareMaintenance
        @ any_route [Lit ''shares'', Param] H_ShareMaintenance
        @ any_route [Lit ''shares'', Param, Lit ''unlock''] H_ShareMaintenance
      else
        [route POST [Lit ''shares''] ([Limit CreateLimit] @ optional_auth (dp_Verifier d)
           @ [LimitBody maxJSONBytes]) H_CreateShare,
         route GET [Lit ''shares'', Param] [] H_GetShare,
         route POST [Lit ''shares'', Param, Lit ''unlock''] [LimitBody maxJSONBytes] H_UnlockShare]
        @ (case dp_Verifier d of
             Some v \<Rightarrow>
               [route GET [Lit ''shares''] [AuthRequired v] H_ListMine,
                route DELETE [Lit ''shares'', Param] [AuthRequired v] H_RevokeShare]
           | None \<Rightarrow>
               [route GET [Lit ''shares''] [] H_AuthUnavailable,
                route DELETE [Lit ''shares'', Param] [] H_AuthUnavailable]))"

definition SetupRoutes :: "deps \<Rightarrow> route list" where
  "SetupRoutes d = route GET [Lit ''health''] [] H_Health # file_routes d @ multipart_routes d @ share_routes d"

subsection \<open>Handlers of the package itself\<close>

definition authUnavailable :: "'a response" where
  "authUnavailable = Error 503 ''Accounts are unavailable right now''"

definition shareMaintenance :: "'a response" where
  "shareMaintenance = Error 503
     ''Sharing is temporarily unavailable while the database is under maintenance. Back in a few minutes.''"

text \<open>The handlers that are functions of this file answer at once.\<close>

fun local_reply :: "handler \<Rightarrow> 'a response option" where
  "local_reply H_AuthUnavailable = Some authUnavailable"
| "local_reply H_ShareMaintenance = Some shareMaintenance"
| "local_reply h = None"

subsection \<open>Serving a request\<close>

record request =
  rq_method :: http_method
  rq_path :: "string list"
  rq_ClientIP :: string
  rq_Authorization :: string

fun matches :: "segment list \<Rightarrow> string list \<Rightarrow> string list option" where
  "matches [] [] = Some []"
| "matches (Lit a # p) (s # ss) = (if a = s then matches p ss else None)"
| "matches (Param # p) (s # ss) =
     (if s = [] then None else map_option ((#) s) (matches p ss))"
| "matches _ _ = None"

definition find_route :: "route list \<Rightarrow> http_method \<Rightarrow> string list \<Rightarrow> route option" where
  "find_route rs m path = List.find (\<lambda>r. rt_method r = m \<and> matches (rt_path r) path \<noteq> None) rs"

text \<open>The limiters \<open>SetupRoutes\<close> creates: 60 uploads, 20 downloads, 30 creations a minute.\<close>

type_synonym limiters = "limiter_id \<Rightarrow> limiter"

definition new_limiters :: limiters where
  "new_limiters i = newRateLimiter
     (case i of UploadLimit \<Rightarrow> 60 | DownloadLimit \<Rightarrow> 20 | CreateLimit \<Rightarrow> 30) Minute"

text \<open>
  What the handler finds: its path parameters, the user the auth middleware attached, the
  bound on the body (\<open>http.MaxBytesReader\<close>).
\<close>

record arrival =
  ar_handler :: handler
  ar_params :: "string list"
  ar_ctx :: ctx
  ar_body_limit :: "int option"

fun run_chain ::
  "middleware list \<Rightarrow> request \<Rightarrow> time \<Rightarrow> arrival \<Rightarrow> limiters \<Rightarrow> (unit response + arrival) \<times> limiters" where
  "run_chain [] rq now a ls = (Inr a, ls)"
| "run_chain (Limit i # ms) rq now a ls =
     (case RateLimitByIP (rq_ClientIP rq) now (ls i) of
        (Some r, l) \<Rightarrow> (Inl r, ls(i := l))
      | (None, l) \<Rightarrow> run_chain ms rq now a (ls(i := l)))"
| "run_chain (LimitBody n # ms) rq now a ls = run_chain ms rq now (a\<lparr>ar_body_limit := Some n\<rparr>) ls"
| "run_chain (AuthOptional v # ms) rq now a ls =
     run_chain ms rq now (case Optional v (rq_Authorization rq) of
         None \<Rightarrow> a | Some u \<Rightarrow> a\<lparr>ar_ctx := (ar_ctx a)\<lparr>c_User := Some u\<rparr>\<rparr>) ls"
| "run_chain (AuthRequired v # ms) rq now a ls =
     (case Required v (rq_Authorization rq) of
        Inl r \<Rightarrow> (Inl r, ls)
      | Inr u \<Rightarrow> run_chain ms rq now (a\<lparr>ar_ctx := (ar_ctx a)\<lparr>c_User := Some u\<rparr>\<rparr>) ls)"

definition serve :: "deps \<Rightarrow> request \<Rightarrow> time \<Rightarrow> limiters \<Rightarrow> (unit response + arrival) \<times> limiters" where
  "serve d rq now ls =
     (case find_route (SetupRoutes d) (rq_method rq) (rq_path rq) of
        None \<Rightarrow> (Inl (Error 404 ''404 page not found''), ls)
      | Some r \<Rightarrow>
          run_chain (rt_chain r) rq now
            \<lparr>ar_handler = rt_handler r,
             ar_params = (case matches (rt_path r) (rq_path rq) of Some ps \<Rightarrow> ps | None \<Rightarrow> []),
             ar_ctx = \<lparr>c_ClientIP = rq_ClientIP rq, c_User = None\<rparr>, ar_body_limit = None\<rparr> ls)"

subsection \<open>The table\<close>

text \<open>
  The limiter that the routes put in front of a handler. A look at a share and an unlock have
  none there, they call their own (theory \<open>Service\<close>).
\<close>

definition behind :: "handler \<Rightarrow> limiter_id option" where
  "behind h =
     (if h \<in> {H_PresignUpload, H_MultipartInit, H_MultipartPart, H_MultipartStatus, H_MultipartComplete, H_MultipartAbort}
      then Some UploadLimit
      else if h = H_GetFile then Some DownloadLimit
      else if h = H_CreateShare then Some CreateLimit else None)"

fun limits :: "middleware list \<Rightarrow> limiter_id list" where
  "limits [] = []"
| "limits (Limit i # ms) = i # limits ms"
| "limits (m # ms) = limits ms"

definition well_guarded :: "verifier option \<Rightarrow> route \<Rightarrow> bool" where
  "well_guarded v r \<longleftrightarrow>
     limits (rt_chain r) = (case behind (rt_handler r) of None \<Rightarrow> [] | Some i \<Rightarrow> [i])
     \<and> (\<forall>u. AuthRequired u \<in> set (rt_chain r) \<longrightarrow> v = Some u \<and> rt_chain r = [AuthRequired u])
     \<and> (\<forall>u. AuthOptional u \<in> set (rt_chain r) \<longrightarrow> v = Some u)
     \<and> (rt_handler r \<in> {H_ListMine, H_RevokeShare} \<longrightarrow> (\<exists>u. rt_chain r = [AuthRequired u]))
     \<and> (rt_method r = POST \<and> rt_handler r \<noteq> H_ShareMaintenance \<longrightarrow>
          (\<exists>n. LimitBody n \<in> set (rt_chain r)))
     \<and> (\<forall>n. LimitBody n \<in> set (rt_chain r) \<longrightarrow> n \<le> maxCompleteBytes)"

lemma limits_append [simp]: "limits (a @ b) = limits a @ limits b"
  by (induction a rule: limits.induct) simp_all

lemma route_simps [simp]:
  "rt_method (route m p c h) = m" "rt_path (route m p c h) = api p" "rt_chain (route m p c h) = c"
  "rt_handler (route m p c h) = h"
  by (simp_all add: route_def)

lemma optional_auth_simps [simp]:
  "limits (optional_auth v) = []" "AuthOptional u \<in> set (optional_auth v) \<longleftrightarrow> v = Some u"
  "AuthRequired u \<notin> set (optional_auth v)" "LimitBody n \<notin> set (optional_auth v)"
  "Limit i \<notin> set (optional_auth v)"
  by (auto simp: optional_auth_def split: option.splits)

lemma any_route_guarded: "r \<in> set (any_route p H_ShareMaintenance) \<Longrightarrow> well_guarded v r"
  by (auto simp: any_route_def well_guarded_def behind_def)

lemma body_guarded:
  assumes "behind h = Some i" "n \<le> maxCompleteBytes" "set c = {Limit i, LimitBody n} \<union> set (optional_auth v)"
    and "limits c = [i]"
  shows "well_guarded v (route POST p c h)"
proof -
  from assms(1) have "h \<notin> {H_ListMine, H_RevokeShare}" by (auto simp: behind_def)
  with assms show ?thesis by (auto simp: well_guarded_def)
qed

lemma json_le_complete: "maxJSONBytes \<le> maxCompleteBytes"
  by (simp add: maxJSONBytes_def maxCompleteBytes_def)

lemma file_routes_guarded: "list_all (well_guarded (dp_Verifier d)) (file_routes d)"
proof -
  have "well_guarded v (route POST p (optional_auth v @ [Limit UploadLimit, LimitBody maxJSONBytes]) H_PresignUpload)"
    for v p by (rule body_guarded [where i = UploadLimit and n = maxJSONBytes]) (auto simp: behind_def json_le_complete)
  moreover have "well_guarded v (route GET p (optional_auth v @ [Limit DownloadLimit]) H_GetFile)" for v p
    by (auto simp: well_guarded_def behind_def)
  ultimately show ?thesis by (simp add: file_routes_def)
qed

lemma multipart_routes_guarded: "list_all (well_guarded (dp_Verifier d)) (multipart_routes d)"
proof -
  have "well_guarded v (route POST p ([Limit UploadLimit] @ optional_auth v @ [LimitBody n]) h)"
    if "behind h = Some UploadLimit" "n \<le> maxCompleteBytes" for v p h n
    by (rule body_guarded [where i = UploadLimit and n = n]) (use that in auto)
  note post = this [simplified]
  have "behind h = Some UploadLimit"
    if "h \<in> {H_MultipartInit, H_MultipartPart, H_MultipartStatus, H_MultipartComplete, H_MultipartAbort}" for h
    using that by (auto simp: behind_def)
  with post json_le_complete show ?thesis by (simp add: multipart_routes_def)
qed

lemma share_routes_guarded: "list_all (well_guarded (dp_Verifier d)) (share_routes d)"
proof -
  have create: "well_guarded v (route POST p ([Limit CreateLimit] @ optional_auth v @ [LimitBody maxJSONBytes]) H_CreateShare)"
    for v p by (rule body_guarded [where i = CreateLimit and n = maxJSONBytes]) (auto simp: behind_def json_le_complete)
  have view: "well_guarded v (route GET p [] H_GetShare)" for v p
    by (simp add: well_guarded_def behind_def)
  have unavailable: "well_guarded v (route m p [] H_AuthUnavailable)"
    if "m \<noteq> POST" for v p m using that by (simp add: well_guarded_def behind_def)
  have unlock: "well_guarded v (route POST p [LimitBody maxJSONBytes] H_UnlockShare)" for v p
    by (auto simp: well_guarded_def behind_def json_le_complete)
  have mine: "well_guarded (Some v) (route m p [AuthRequired v] h)"
    if "m \<noteq> POST" "h \<in> {H_ListMine, H_RevokeShare}" for v m p h
    using that by (auto simp: well_guarded_def behind_def)
  have down: "list_all (well_guarded v) (any_route p H_ShareMaintenance)" for v p
    by (simp add: list_all_iff any_route_guarded)
  show ?thesis
    using create [simplified] view unavailable unlock mine down
    by (cases "dp_Verifier d") (auto simp: share_routes_def)
qed

lemma table_guarded:
  assumes "r \<in> set (SetupRoutes d)"
  shows "well_guarded (dp_Verifier d) r"
proof -
  have "well_guarded v (route GET p [] H_Health)" for v p by (simp add: well_guarded_def behind_def)
  with file_routes_guarded multipart_routes_guarded share_routes_guarded
  have "list_all (well_guarded (dp_Verifier d)) (SetupRoutes d)" by (simp add: SetupRoutes_def)
  with assms show ?thesis by (simp add: list_all_iff)
qed

lemma find_route_Some:
  "find_route rs m path = Some r \<Longrightarrow> r \<in> set rs \<and> rt_method r = m \<and> matches (rt_path r) path \<noteq> None"
  by (auto simp: find_route_def find_Some_iff)

subsection \<open>What a chain guarantees\<close>

lemma run_chain_keeps:
  "run_chain ms rq now a ls = (Inr b, ls') \<Longrightarrow>
   ar_handler b = ar_handler a \<and> ar_params b = ar_params a \<and> c_ClientIP (ar_ctx b) = c_ClientIP (ar_ctx a)"
proof (induction ms rq now a ls rule: run_chain.induct)
  case (4 v ms rq now a ls)
  then show ?case by (auto split: option.splits)
qed (auto split: prod.splits option.splits sum.splits)

lemma run_chain_body:
  "run_chain ms rq now a ls = (Inr b, ls') \<Longrightarrow>
   (if \<exists>n. LimitBody n \<in> set ms then \<exists>n. LimitBody n \<in> set ms \<and> ar_body_limit b = Some n
    else ar_body_limit b = ar_body_limit a)"
proof (induction ms arbitrary: a ls)
  case (Cons m ms)
  then obtain a' ls2 where step: "run_chain ms rq now a' ls2 = (Inr b, ls')"
    and limit: "ar_body_limit a' = (case m of LimitBody n \<Rightarrow> Some n | _ \<Rightarrow> ar_body_limit a)"
    by (cases m) (auto split: prod.splits option.splits sum.splits)
  from Cons.IH [OF step] limit show ?case by (cases m) (auto split: if_splits)
qed simp

lemma run_chain_user:
  "run_chain ms rq now a ls = (Inr b, ls') \<Longrightarrow>
   c_User (ar_ctx b) = c_User (ar_ctx a)
   \<or> (\<exists>v u. (AuthOptional v \<in> set ms \<or> AuthRequired v \<in> set ms)
        \<and> Optional v (rq_Authorization rq) = Some u \<and> c_User (ar_ctx b) = Some u)"
proof (induction ms arbitrary: a ls)
  case (Cons m ms)
  have opt: "Optional v h = Some u" if "(Required v h :: unit response + user) = Inr u" for v h u
    using that by (simp add: Optional_is_Required [where ?'a = unit])
  from Cons.prems obtain a' ls2 where step: "run_chain ms rq now a' ls2 = (Inr b, ls')"
    and user: "c_User (ar_ctx a') = c_User (ar_ctx a)
      \<or> (\<exists>v u. (m = AuthOptional v \<or> m = AuthRequired v)
           \<and> Optional v (rq_Authorization rq) = Some u \<and> c_User (ar_ctx a') = Some u)"
    by (cases m) (auto dest: opt split: prod.splits option.splits sum.splits)
  from Cons.IH [OF step] user show ?case by auto
qed simp

lemma run_chain_limits:
  "run_chain ms rq now a ls = (x, ls') \<Longrightarrow> \<forall>v. AuthRequired v \<notin> set ms \<Longrightarrow>
   (limits ms = [] \<longrightarrow> ls' = ls) \<and>
   (limits ms = [i] \<longrightarrow> ls' = ls(i := snd (Allow (ls i) (rq_ClientIP rq) now))
       \<and> ((\<exists>b. x = Inr b) \<longrightarrow> fst (Allow (ls i) (rq_ClientIP rq) now)))"
proof (induction ms arbitrary: a ls)
  case (Cons m ms)
  show ?case
  proof (cases m)
    case (Limit j)
    obtain ok l where l: "Allow (ls j) (rq_ClientIP rq) now = (ok, l)" by (rule prod.exhaust)
    show ?thesis
    proof (cases ok)
      case True
      with Cons.prems l Limit have "run_chain ms rq now a (ls(j := l)) = (x, ls')"
        by (simp add: RateLimitByIP_def)
      from Cons.IH [OF this] Cons.prems(2) l True Limit show ?thesis by auto
    next
      case False
      with Cons.prems l Limit show ?thesis by (auto simp: RateLimitByIP_def)
    qed
  next
    case (LimitBody n)
    with Cons.prems Cons.IH show ?thesis by simp
  next
    case (AuthOptional v)
    with Cons.prems Cons.IH show ?thesis by simp
  next
    case (AuthRequired v)
    with Cons.prems(2) have False by auto
    then show ?thesis ..
  qed
qed simp

subsection \<open>Who reaches which handler\<close>

lemma serve_Inr:
  assumes "serve d rq now ls = (Inr a, ls')"
  obtains r a0 where "find_route (SetupRoutes d) (rq_method rq) (rq_path rq) = Some r"
    "run_chain (rt_chain r) rq now a0 ls = (Inr a, ls')" "well_guarded (dp_Verifier d) r"
    "r \<in> set (SetupRoutes d)" "rt_method r = rq_method rq"
    "ar_ctx a0 = \<lparr>c_ClientIP = rq_ClientIP rq, c_User = None\<rparr>" "ar_handler a = rt_handler r"
    "c_ClientIP (ar_ctx a) = rq_ClientIP rq" "matches (rt_path r) (rq_path rq) = Some (ar_params a)"
proof -
  obtain r where r: "find_route (SetupRoutes d) (rq_method rq) (rq_path rq) = Some r"
    using assms by (auto simp: serve_def split: option.splits)
  from find_route_Some [OF r] obtain ps where route: "r \<in> set (SetupRoutes d)" "rt_method r = rq_method rq"
    and ps: "matches (rt_path r) (rq_path rq) = Some ps" by auto
  define a0 where "a0 = \<lparr>ar_handler = rt_handler r, ar_params = ps,
     ar_ctx = \<lparr>c_ClientIP = rq_ClientIP rq, c_User = None\<rparr>, ar_body_limit = None\<rparr>"
  from assms r ps have run: "run_chain (rt_chain r) rq now a0 ls = (Inr a, ls')"
    by (simp add: serve_def a0_def)
  from run_chain_keeps [OF run] ps show thesis
    by (intro that [OF r run table_guarded [OF route(1)] route]) (simp_all add: a0_def)
qed

lemma serve_user:
  assumes "serve d rq now ls = (Inr a, ls')" "c_User (ar_ctx a) = Some u"
  shows "\<exists>v. dp_Verifier d = Some v \<and> Optional v (rq_Authorization rq) = Some u"
  using assms(1)
proof (rule serve_Inr)
  fix r a0
  assume run: "run_chain (rt_chain r) rq now a0 ls = (Inr a, ls')" and g: "well_guarded (dp_Verifier d) r"
    and "ar_ctx a0 = \<lparr>c_ClientIP = rq_ClientIP rq, c_User = None\<rparr>"
  then have "c_User (ar_ctx a0) = None" by simp
  with run_chain_user [OF run] assms(2) obtain v where
    v: "AuthOptional v \<in> set (rt_chain r) \<or> AuthRequired v \<in> set (rt_chain r)"
      "Optional v (rq_Authorization rq) = Some u" by auto
  from v(1) g have "dp_Verifier d = Some v" unfolding well_guarded_def by blast
  with v(2) show ?thesis by blast
qed

text \<open>
  Whatever the configuration, a request reaches a handler only through its guards in the
  chain: listing and revoking shares only with a token that \<open>Required\<close> accepts, as the user
  it names; any user a handler sees comes from such a token; a handler behind one of the
  three limiters only when it lets the client's address through; and no POST handler reads a
  body without a bound, at most 2 MiB.
\<close>

theorem serve_guarded:
  assumes "serve d rq now ls = (Inr a, ls')"
  shows "(ar_handler a \<in> {H_ListMine, H_RevokeShare} \<longrightarrow>
      (\<exists>v u. dp_Verifier d = Some v \<and> (Required v (rq_Authorization rq) :: unit response + user) = Inr u
         \<and> c_User (ar_ctx a) = Some u))
    \<and> (\<forall>u. c_User (ar_ctx a) = Some u \<longrightarrow>
         (\<exists>v. dp_Verifier d = Some v \<and> Optional v (rq_Authorization rq) = Some u))
    \<and> (\<forall>i. behind (ar_handler a) = Some i \<longrightarrow> fst (Allow (ls i) (rq_ClientIP rq) now))
    \<and> (rq_method rq = POST \<and> ar_handler a \<noteq> H_ShareMaintenance \<longrightarrow>
         (\<exists>n. ar_body_limit a = Some n \<and> n \<le> 2 * 1024 * 1024))
    \<and> c_ClientIP (ar_ctx a) = rq_ClientIP rq"
proof -
  obtain r a0 where run: "run_chain (rt_chain r) rq now a0 ls = (Inr a, ls')"
    and g: "well_guarded (dp_Verifier d) r" and m: "rt_method r = rq_method rq"
    and h: "ar_handler a = rt_handler r" "c_ClientIP (ar_ctx a) = rq_ClientIP rq"
    by (rule serve_Inr [OF assms])
  have mine: "\<exists>v u. dp_Verifier d = Some v \<and> (Required v (rq_Authorization rq) :: unit response + user) = Inr u
         \<and> c_User (ar_ctx a) = Some u" if "ar_handler a \<in> {H_ListMine, H_RevokeShare}"
  proof -
    from that g h obtain v where v: "rt_chain r = [AuthRequired v]"
      unfolding well_guarded_def by auto
    then have "AuthRequired v \<in> set (rt_chain r)" by simp
    with g have d: "dp_Verifier d = Some v" unfolding well_guarded_def by blast
    from run v obtain u where u: "(Required v (rq_Authorization rq) :: unit response + user) = Inr u"
      by (cases "Required v (rq_Authorization rq) :: unit response + user") simp_all
    with run v have "a = a0\<lparr>ar_ctx := (ar_ctx a0)\<lparr>c_User := Some u\<rparr>\<rparr>" by simp
    with d u show ?thesis by simp
  qed
  have limit: "fst (Allow (ls i) (rq_ClientIP rq) now)" if "behind (ar_handler a) = Some i" for i
  proof -
    from g that h have l: "limits (rt_chain r) = [i]" by (simp add: well_guarded_def)
    have "\<forall>v. AuthRequired v \<notin> set (rt_chain r)"
    proof (intro allI notI)
      fix v assume "AuthRequired v \<in> set (rt_chain r)"
      with g have "rt_chain r = [AuthRequired v]" by (simp add: well_guarded_def)
      with l show False by simp
    qed
    from run_chain_limits [OF run this, of i] l show ?thesis by simp
  qed
  have body: "\<exists>n. ar_body_limit a = Some n \<and> n \<le> 2 * 1024 * 1024"
    if "rq_method rq = POST" "ar_handler a \<noteq> H_ShareMaintenance"
  proof -
    from g that h m have "\<exists>n. LimitBody n \<in> set (rt_chain r)" by (simp add: well_guarded_def)
    with run_chain_body [OF run] obtain n where "LimitBody n \<in> set (rt_chain r)" "ar_body_limit a = Some n"
      by auto
    with g show ?thesis by (auto simp: well_guarded_def maxCompleteBytes_def)
  qed
  from mine serve_user [OF assms] limit body h show ?thesis by blast
qed

definition sample_deps :: deps where
  "sample_deps = \<lparr>dp_Multipart = True, dp_Shares = True, dp_Verifier = Some sample_verifier,
     dp_Config = load_server (\<lambda>_. [])\<rparr>"

definition list_request :: request where
  "list_request = \<lparr>rq_method = GET, rq_path = [''api'', ''v1'', ''shares''], rq_ClientIP = ''10.0.0.9'',
     rq_Authorization = ''bEARER  good ''\<rparr>"

lemma sample_route:
  "find_route (SetupRoutes sample_deps) GET [''api'', ''v1'', ''shares'']
     = Some (route GET [Lit ''shares''] [AuthRequired sample_verifier] H_ListMine)"
  by (simp add: find_route_def SetupRoutes_def file_routes_def multipart_routes_def share_routes_def
      sample_deps_def api_def Let_def)

theorem serve_guarded_witness:
  "\<exists>a ls'. serve sample_deps list_request 0 new_limiters = (Inr a, ls') \<and> ar_handler a = H_ListMine
     \<and> (\<exists>v u. (Required v ''bEARER  good '' :: unit response + user) = Inr u \<and> c_User (ar_ctx a) = Some u)"
proof -
  obtain a ls' where run: "serve sample_deps list_request 0 new_limiters = (Inr a, ls')"
    and h: "ar_handler a = H_ListMine"
    by (simp add: serve_def list_request_def sample_route sample_Required)
  from serve_guarded [OF run] h run show ?thesis by (auto simp: list_request_def)
qed

subsection \<open>Without a database, without accounts\<close>

lemma find_append:
  "List.find P (xs @ ys) = (case List.find P xs of None \<Rightarrow> List.find P ys | Some x \<Rightarrow> Some x)"
  by (induction xs) auto

lemma find_route_append:
  "find_route (xs @ ys) m path =
     (case find_route xs m path of None \<Rightarrow> find_route ys m path | Some r \<Rightarrow> Some r)"
  unfolding find_route_def by (rule find_append)

lemma find_any_route:
  "find_route (any_route p h) m path = (if matches (api p) path = None then None else Some (route m p [] h))"
  by (cases m) (simp_all add: find_route_def any_route_def)

lemma find_other_routes:
  "find_route (route GET [Lit ''health''] [] H_Health # file_routes d @ multipart_routes d) m
     (''api'' # ''v1'' # ''shares'' # rest) = None"
  by (simp add: find_route_def file_routes_def multipart_routes_def api_def Let_def)

lemma find_share_route:
  "find_route (SetupRoutes d) m (''api'' # ''v1'' # ''shares'' # rest)
     = find_route (share_routes d) m (''api'' # ''v1'' # ''shares'' # rest)"
  using find_other_routes [of d m rest]
  by (simp add: SetupRoutes_def find_route_def find_append flip: append_Cons append_assoc)

definition share_handlers :: "handler set" where
  "share_handlers = {H_CreateShare, H_GetShare, H_UnlockShare, H_ListMine, H_RevokeShare}"

lemma serve_handler:
  assumes "serve d rq now ls = (Inr a, ls')"
  shows "\<exists>r \<in> set (SetupRoutes d). ar_handler a = rt_handler r"
proof -
  obtain r where r: "find_route (SetupRoutes d) (rq_method rq) (rq_path rq) = Some r"
    using assms by (auto simp: serve_def split: option.splits)
  with assms have "ar_handler a = rt_handler r"
    by (auto simp: serve_def dest!: run_chain_keeps)
  with find_route_Some [OF r] show ?thesis by blast
qed

lemma share_maintenance:
  assumes "\<not> dp_Shares d" "rq_path rq = [''api'', ''v1'', ''shares'']
      \<or> (\<exists>slug. slug \<noteq> [] \<and> rq_path rq = [''api'', ''v1'', ''shares'', slug])
      \<or> (\<exists>slug. slug \<noteq> [] \<and> rq_path rq = [''api'', ''v1'', ''shares'', slug, ''unlock''])"
  shows "\<exists>a. serve d rq now ls = (Inr a, ls) \<and> ar_handler a = H_ShareMaintenance"
proof -
  from assms(2) obtain rest where path: "rq_path rq = ''api'' # ''v1'' # ''shares'' # rest"
    "rest = [] \<or> (\<exists>s. s \<noteq> [] \<and> (rest = [s] \<or> rest = [s, ''unlock'']))" by auto
  have "\<exists>p. find_route (share_routes d) (rq_method rq) (rq_path rq)
      = Some (route (rq_method rq) p [] H_ShareMaintenance)"
    using assms(1) path by (auto simp: share_routes_def find_route_append find_any_route api_def)
  then have "\<exists>p. find_route (SetupRoutes d) (rq_method rq) (rq_path rq)
      = Some (route (rq_method rq) p [] H_ShareMaintenance)"
    unfolding path(1) find_share_route .
  then obtain p where "find_route (SetupRoutes d) (rq_method rq) (rq_path rq)
      = Some (route (rq_method rq) p [] H_ShareMaintenance)" ..
  then show ?thesis by (simp add: serve_def)
qed

lemma no_share_handler:
  assumes "\<not> dp_Shares d" "serve d rq now ls = (Inr a, ls')"
  shows "ar_handler a \<notin> share_handlers"
proof -
  from serve_handler [OF assms(2)] obtain r where "r \<in> set (SetupRoutes d)" "ar_handler a = rt_handler r"
    by blast
  with assms(1) show ?thesis
    by (auto simp: SetupRoutes_def file_routes_def multipart_routes_def share_routes_def
        any_route_def share_handlers_def Let_def split: if_splits)
qed

lemma accounts_unavailable:
  assumes "dp_Shares d" "dp_Verifier d = None"
      "rq_method rq = GET \<and> rq_path rq = [''api'', ''v1'', ''shares'']
       \<or> rq_method rq = DELETE \<and> (\<exists>slug. slug \<noteq> [] \<and> rq_path rq = [''api'', ''v1'', ''shares'', slug])"
  shows "\<exists>a. serve d rq now ls = (Inr a, ls) \<and> ar_handler a = H_AuthUnavailable"
proof -
  from assms have "\<exists>p. find_route (SetupRoutes d) (rq_method rq) (rq_path rq)
      = Some (route (rq_method rq) p [] H_AuthUnavailable)"
    by (auto simp: find_share_route) (auto simp: share_routes_def find_route_def api_def)
  then obtain p where "find_route (SetupRoutes d) (rq_method rq) (rq_path rq)
      = Some (route (rq_method rq) p [] H_AuthUnavailable)" ..
  then show ?thesis by (simp add: serve_def)
qed

lemma sharing_goes_on:
  assumes "dp_Shares d" "slug \<noteq> []"
  shows "rq_method rq = GET \<Longrightarrow> rq_path rq = [''api'', ''v1'', ''shares'', slug] \<Longrightarrow>
      \<exists>a. serve d rq now ls = (Inr a, ls) \<and> ar_handler a = H_GetShare"
    and "rq_method rq = POST \<Longrightarrow> rq_path rq = [''api'', ''v1'', ''shares'', slug, ''unlock''] \<Longrightarrow>
      \<exists>a. serve d rq now ls = (Inr a, ls) \<and> ar_handler a = H_UnlockShare"
proof -
  show "\<exists>a. serve d rq now ls = (Inr a, ls) \<and> ar_handler a = H_GetShare"
    if "rq_method rq = GET" "rq_path rq = [''api'', ''v1'', ''shares'', slug]"
  proof -
    from assms that have "find_route (SetupRoutes d) GET [''api'', ''v1'', ''shares'', slug]
        = Some (route GET [Lit ''shares'', Param] [] H_GetShare)"
      by (subst find_share_route) (simp add: share_routes_def find_route_def api_def)
    with that show ?thesis by (simp add: serve_def)
  qed
  show "\<exists>a. serve d rq now ls = (Inr a, ls) \<and> ar_handler a = H_UnlockShare"
    if "rq_method rq = POST" "rq_path rq = [''api'', ''v1'', ''shares'', slug, ''unlock'']"
  proof -
    from assms that have "find_route (SetupRoutes d) POST [''api'', ''v1'', ''shares'', slug, ''unlock'']
        = Some (route POST [Lit ''shares'', Param, Lit ''unlock''] [LimitBody maxJSONBytes] H_UnlockShare)"
      by (subst find_share_route) (simp add: share_routes_def find_route_def api_def)
    with that show ?thesis by (simp add: serve_def)
  qed
qed

lemma creation_goes_on:
  assumes "dp_Shares d" "dp_Verifier d = None" "rq_method rq = POST" "rq_path rq = [''api'', ''v1'', ''shares'']"
    and "fst (Allow (ls CreateLimit) (rq_ClientIP rq) now)"
  shows "\<exists>a ls'. serve d rq now ls = (Inr a, ls') \<and> ar_handler a = H_CreateShare \<and> c_User (ar_ctx a) = None"
proof -
  from assms have "find_route (SetupRoutes d) POST [''api'', ''v1'', ''shares'']
      = Some (route POST [Lit ''shares''] [Limit CreateLimit, LimitBody maxJSONBytes] H_CreateShare)"
    by (subst find_share_route) (simp add: share_routes_def find_route_def api_def optional_auth_def)
  moreover obtain l where "RateLimitByIP (rq_ClientIP rq) now (ls CreateLimit) = (None :: unit response option, l)"
    using assms(5) that by (cases "Allow (ls CreateLimit) (rq_ClientIP rq) now") (auto simp: RateLimitByIP_def)
  ultimately show ?thesis using assms by (simp add: serve_def)
qed

text \<open>
  C30. Degraded operation is answered and not silently unmounted: without a database every
  request for a share, with any method, gets the maintenance answer 503 and none reaches a
  share handler; with a database but no key set, the two account routes answer 503, while a
  look at a share and an unlock reach their handlers as ever, and so does a creation that
  the limiter lets through, as one by nobody.
\<close>

theorem degraded_modes:
  "(\<not> dp_Shares d \<longrightarrow>
     (rq_path rq = [''api'', ''v1'', ''shares'']
      \<or> (\<exists>slug. slug \<noteq> [] \<and> rq_path rq = [''api'', ''v1'', ''shares'', slug])
      \<or> (\<exists>slug. slug \<noteq> [] \<and> rq_path rq = [''api'', ''v1'', ''shares'', slug, ''unlock'']) \<longrightarrow>
        (\<exists>a r. serve d rq now ls = (Inr a, ls) \<and> local_reply (ar_handler a) = Some (r :: unit response)
           \<and> r = shareMaintenance \<and> rsp_Status r = 503))
     \<and> (\<forall>a ls'. serve d rq now ls = (Inr a, ls') \<longrightarrow> ar_handler a \<notin> share_handlers))
   \<and> (dp_Shares d \<and> dp_Verifier d = None \<longrightarrow>
     (rq_method rq = GET \<and> rq_path rq = [''api'', ''v1'', ''shares'']
      \<or> rq_method rq = DELETE \<and> (\<exists>slug. slug \<noteq> [] \<and> rq_path rq = [''api'', ''v1'', ''shares'', slug]) \<longrightarrow>
        (\<exists>a r. serve d rq now ls = (Inr a, ls) \<and> local_reply (ar_handler a) = Some (r :: unit response)
           \<and> r = authUnavailable \<and> rsp_Status r = 503))
     \<and> (\<forall>slug. slug \<noteq> [] \<and> rq_method rq = GET \<and> rq_path rq = [''api'', ''v1'', ''shares'', slug] \<longrightarrow>
        (\<exists>a. serve d rq now ls = (Inr a, ls) \<and> ar_handler a = H_GetShare))
     \<and> (\<forall>slug. slug \<noteq> [] \<and> rq_method rq = POST \<and> rq_path rq = [''api'', ''v1'', ''shares'', slug, ''unlock''] \<longrightarrow>
        (\<exists>a. serve d rq now ls = (Inr a, ls) \<and> ar_handler a = H_UnlockShare))
     \<and> (rq_method rq = POST \<and> rq_path rq = [''api'', ''v1'', ''shares'']
          \<and> fst (Allow (ls CreateLimit) (rq_ClientIP rq) now) \<longrightarrow>
        (\<exists>a ls'. serve d rq now ls = (Inr a, ls') \<and> ar_handler a = H_CreateShare \<and> c_User (ar_ctx a) = None)))"
proof -
  have unavailable: "rsp_Status (shareMaintenance :: unit response) = 503" "rsp_Status (authUnavailable :: unit response) = 503"
    by (simp_all add: shareMaintenance_def authUnavailable_def)
  show ?thesis
  proof (intro conjI impI)
    assume "\<not> dp_Shares d" and "rq_path rq = [''api'', ''v1'', ''shares'']
      \<or> (\<exists>slug. slug \<noteq> [] \<and> rq_path rq = [''api'', ''v1'', ''shares'', slug])
      \<or> (\<exists>slug. slug \<noteq> [] \<and> rq_path rq = [''api'', ''v1'', ''shares'', slug, ''unlock''])"
    from share_maintenance [OF this, of now ls] unavailable(1)
    show "\<exists>a r. serve d rq now ls = (Inr a, ls) \<and> local_reply (ar_handler a) = Some (r :: unit response)
       \<and> r = shareMaintenance \<and> rsp_Status r = 503" by (metis local_reply.simps(2))
  next
    assume d: "dp_Shares d \<and> dp_Verifier d = None" and "rq_method rq = GET \<and> rq_path rq = [''api'', ''v1'', ''shares'']
      \<or> rq_method rq = DELETE \<and> (\<exists>slug. slug \<noteq> [] \<and> rq_path rq = [''api'', ''v1'', ''shares'', slug])"
    from accounts_unavailable [OF conjunct1 [OF d] conjunct2 [OF d] this(2), of now ls] unavailable(2)
    show "\<exists>a r. serve d rq now ls = (Inr a, ls) \<and> local_reply (ar_handler a) = Some (r :: unit response)
       \<and> r = authUnavailable \<and> rsp_Status r = 503" by (metis local_reply.simps(1))
  next
    assume "\<not> dp_Shares d"
    then show "\<forall>a ls'. serve d rq now ls = (Inr a, ls') \<longrightarrow> ar_handler a \<notin> share_handlers"
      using no_share_handler by blast
  next
    assume d: "dp_Shares d \<and> dp_Verifier d = None"
    then have shares: "dp_Shares d" by simp
    show "\<forall>slug. slug \<noteq> [] \<and> rq_method rq = GET \<and> rq_path rq = [''api'', ''v1'', ''shares'', slug] \<longrightarrow>
        (\<exists>a. serve d rq now ls = (Inr a, ls) \<and> ar_handler a = H_GetShare)"
      using sharing_goes_on(1) [OF shares] by blast
    show "\<forall>slug. slug \<noteq> [] \<and> rq_method rq = POST \<and> rq_path rq = [''api'', ''v1'', ''shares'', slug, ''unlock''] \<longrightarrow>
        (\<exists>a. serve d rq now ls = (Inr a, ls) \<and> ar_handler a = H_UnlockShare)"
      using sharing_goes_on(2) [OF shares] by blast
  next
    assume "dp_Shares d \<and> dp_Verifier d = None" and "rq_method rq = POST \<and> rq_path rq = [''api'', ''v1'', ''shares'']
          \<and> fst (Allow (ls CreateLimit) (rq_ClientIP rq) now)"
    then show "\<exists>a ls'. serve d rq now ls = (Inr a, ls') \<and> ar_handler a = H_CreateShare \<and> c_User (ar_ctx a) = None"
      by (intro creation_goes_on) simp_all
  qed
qed

theorem degraded_modes_witness:
  "\<exists>a. serve (sample_deps\<lparr>dp_Shares := False\<rparr>) list_request 0 new_limiters = (Inr a, new_limiters)
     \<and> local_reply (ar_handler a) = Some (shareMaintenance :: unit response)"
  using degraded_modes [of "sample_deps\<lparr>dp_Shares := False\<rparr>" list_request 0 new_limiters]
  by (auto simp: list_request_def)

subsection \<open>How often the expensive handlers run\<close>

fun serve_run :: "deps \<Rightarrow> limiters \<Rightarrow> (request \<times> time) list \<Rightarrow> (request \<times> time \<times> (unit response + arrival)) list" where
  "serve_run d ls [] = []"
| "serve_run d ls ((rq, now) # rqs) =
     (case serve d rq now ls of (x, ls') \<Rightarrow> (rq, now, x) # serve_run d ls' rqs)"

text \<open>Requests of one address that reached a handler behind limiter \<open>i\<close> in the minute up to \<open>t\<close>.\<close>

definition reached :: "limiter_id \<Rightarrow> string \<Rightarrow> time \<Rightarrow> (request \<times> time \<times> (unit response + arrival)) list \<Rightarrow> nat" where
  "reached i ip t log = length (filter (\<lambda>(rq, now, x). rq_ClientIP rq = ip \<and> t - Minute < now \<and> now \<le> t
     \<and> (case x of Inr a \<Rightarrow> behind (ar_handler a) = Some i | Inl r \<Rightarrow> False)) log)"

definition hits :: "deps \<Rightarrow> limiter_id \<Rightarrow> request \<Rightarrow> bool" where
  "hits d i rq = (case find_route (SetupRoutes d) (rq_method rq) (rq_path rq) of
     None \<Rightarrow> False | Some r \<Rightarrow> behind (rt_handler r) = Some i)"

definition limiter_calls :: "deps \<Rightarrow> limiter_id \<Rightarrow> (request \<times> time) list \<Rightarrow> (string \<times> time) list" where
  "limiter_calls d i rqs = map (\<lambda>(rq, now). (rq_ClientIP rq, now)) (filter (\<lambda>(rq, now). hits d i rq) rqs)"

lemma serve_limit:
  assumes "serve d rq now ls = (x, ls')"
  shows "if hits d i rq
    then ls' i = snd (Allow (ls i) (rq_ClientIP rq) now)
       \<and> ((\<exists>a. x = Inr a) \<longrightarrow> fst (Allow (ls i) (rq_ClientIP rq) now))
    else ls' i = ls i \<and> (\<forall>a. x = Inr a \<longrightarrow> behind (ar_handler a) \<noteq> Some i)"
proof (cases "find_route (SetupRoutes d) (rq_method rq) (rq_path rq)")
  case None
  with assms show ?thesis by (auto simp: serve_def hits_def)
next
  case (Some r)
  obtain a0 where run: "run_chain (rt_chain r) rq now a0 ls = (x, ls')" and a0: "ar_handler a0 = rt_handler r"
    using assms Some by (auto simp: serve_def)
  from find_route_Some [OF Some] table_guarded have g: "well_guarded (dp_Verifier d) r" by blast
  have handler: "ar_handler a = rt_handler r" if "x = Inr a" for a
    using run_chain_keeps [of "rt_chain r" rq now a0 ls a ls'] run that a0 by simp
  from g have l: "limits (rt_chain r) = (case behind (rt_handler r) of None \<Rightarrow> [] | Some i \<Rightarrow> [i])"
    by (simp add: well_guarded_def)
  show ?thesis
  proof (cases "\<exists>v. AuthRequired v \<in> set (rt_chain r)")
    case True
    with g obtain v where chain: "rt_chain r = [AuthRequired v]" unfolding well_guarded_def by blast
    with l have "behind (rt_handler r) = None" by (auto split: option.splits)
    moreover from run chain have "ls' = ls"
      by (cases "Required v (rq_Authorization rq) :: unit response + user") simp_all
    ultimately show ?thesis using handler by (simp add: hits_def Some)
  next
    case False
    then have auth: "\<forall>v. AuthRequired v \<notin> set (rt_chain r)" by blast
    show ?thesis
    proof (cases "behind (rt_handler r)")
      case None
      with l run_chain_limits [OF run auth, of i] handler show ?thesis by (simp add: hits_def Some)
    next
      case (Some j)
      from l Some have "limits (rt_chain r) = [j]" by simp
      with run_chain_limits [OF run auth, of j] handler Some
        \<open>find_route (SetupRoutes d) (rq_method rq) (rq_path rq) = Some r\<close>
      show ?thesis by (auto simp: hits_def)
    qed
  qed
qed

lemma reached_le_allowed:
  "reached i ip t (serve_run d ls rqs)
     \<le> length (in_window (fst (run_calls Allow (ls i) (limiter_calls d i rqs))) ip Minute t)"
proof (induction rqs arbitrary: ls)
  case Nil
  then show ?case by (simp add: reached_def)
next
  case (Cons c rqs)
  obtain rq now where c: "c = (rq, now)" by (rule prod.exhaust)
  obtain x ls' where s: "serve d rq now ls = (x, ls')" by (rule prod.exhaust)
  note lim = serve_limit [OF s, of i]
  have run: "reached i ip t (serve_run d ls (c # rqs)) =
      (if rq_ClientIP rq = ip \<and> t - Minute < now \<and> now \<le> t
          \<and> (case x of Inr a \<Rightarrow> behind (ar_handler a) = Some i | Inl r \<Rightarrow> False) then 1 else 0)
      + reached i ip t (serve_run d ls' rqs)"
    by (simp add: c s reached_def)
  show ?case
  proof (cases "hits d i rq")
    case True
    obtain ok l where l: "Allow (ls i) (rq_ClientIP rq) now = (ok, l)" by (rule prod.exhaust)
    from True have calls: "limiter_calls d i (c # rqs) = (rq_ClientIP rq, now) # limiter_calls d i rqs"
      by (simp add: limiter_calls_def c)
    from lim True l have ls': "ls' i = l" "\<And>a. x = Inr a \<Longrightarrow> ok" by auto
    from Cons [of ls'] ls' show ?thesis
      unfolding run calls by (auto simp: l in_window_def split: prod.splits sum.splits)
  next
    case False
    then have "limiter_calls d i (c # rqs) = limiter_calls d i rqs" by (simp add: limiter_calls_def c)
    with lim False Cons [of ls'] show ?thesis unfolding run by (auto split: sum.splits)
  qed
qed

text \<open>
  C26. The public endpoints cannot be hammered: however requests are mixed over all routes, in
  no minute do more than 60 requests of one address reach the upload handlers, single and
  multipart together, more than 20 the download handler, or more than 30 the creation of
  shares.
\<close>

theorem endpoint_rate_bound:
  assumes "sorted (map snd rqs)"
  shows "reached i ip t (serve_run d new_limiters rqs)
    \<le> (case i of UploadLimit \<Rightarrow> 60 | DownloadLimit \<Rightarrow> 20 | CreateLimit \<Rightarrow> 30)"
proof -
  have "map snd (limiter_calls d i rqs) = map snd (filter (\<lambda>(rq, now). hits d i rq) rqs)"
    by (auto simp: limiter_calls_def)
  with sorted_filter [OF assms] have s: "sorted (map snd (limiter_calls d i rqs))" by simp
  obtain lim :: int where lim: "new_limiters i = newRateLimiter lim Minute" "0 \<le> lim"
    "lim = int (case i of UploadLimit \<Rightarrow> 60 | DownloadLimit \<Rightarrow> 20 | CreateLimit \<Rightarrow> 30)"
    by (cases i) (simp_all add: new_limiters_def)
  from limiter_window_bound [OF lim(2) s, of Minute ip t] reached_le_allowed [of i ip t d new_limiters rqs] lim
  show ?thesis by simp
qed

theorem endpoint_rate_bound_witness:
  "reached DownloadLimit ''10.0.0.9'' 5 (serve_run sample_deps new_limiters [(list_request, 3), (list_request, 4)]) \<le> 20"
  using endpoint_rate_bound [of "[(list_request, 3), (list_request, 4)]" DownloadLimit] by simp

end
