(* ===== verification/FileNames.thy ===== *)
theory FileNames
  imports StorageKey
begin

section \<open>File names and client-supplied keys: sanitizeFilename and validKey\<close>

text \<open>
  \<open>sanitizeFilename\<close> of \<open>handlers/file.go\<close> turns a client's file name into the name part
  of a storage key, \<open>validKey\<close> of \<open>handlers/multipart.go\<close> is the check every key that
  comes back from a client has to pass. The theory relates the two: what sanitising
  guarantees, and exactly which keys the service issues it will later refuse.
\<close>

definition maxFilenameLength :: nat where "maxFilenameLength = 180"
definition maxKeyLength :: nat where "maxKeyLength = 40 + maxFilenameLength"

definition drop_control :: "rune \<Rightarrow> rune option" where
  "drop_control r = (if r < 0x20 \<or> r = 0x7F then None else Some r)"

definition limit_name :: "string \<Rightarrow> string" where
  "limit_name cleaned =
     (let rs = runes cleaned
      in if maxFilenameLength < length rs then
           (let ext = path_Ext cleaned;
                ext = (if 20 < length (runes ext) then [] else ext);
                keep = maxFilenameLength - length (runes ext)
            in of_runes (take keep rs) @ ext)
         else cleaned)"

definition sanitizeFilename :: "string \<Rightarrow> string" where
  "sanitizeFilename name =
     (let name = ReplaceAll name (CHR 0x5C) (CHR ''/'');
          name = path_Base name;
          cleaned = TrimSpace (strings_Map drop_control name);
          cleaned = limit_name cleaned
      in if cleaned = [] \<or> cleaned = ''.'' \<or> cleaned = ''..'' then ''file'' else cleaned)"

definition validKey :: "string \<Rightarrow> bool" where
  "validKey key \<longleftrightarrow>
     \<not> (key = [] \<or> maxKeyLength < length key)
     \<and> list_all (\<lambda>r. \<not> (r < 0x20 \<or> r = 0x7F \<or> r = 0x2F \<or> r = 0x5C)) (runes key)"

definition key_rune :: "rune \<Rightarrow> bool" where
  "key_rune r \<longleftrightarrow> \<not> (r < 0x20 \<or> r = 0x7F \<or> r = 0x2F \<or> r = 0x5C)"

subsection \<open>The string functions on well-formed strings\<close>

lemma encode_bytes_lead: "0x80 \<le> r \<Longrightarrow> b \<in> set (encode_bytes r) \<Longrightarrow> 0x80 \<le> b"
  by (auto simp: encode_bytes_def Let_def RuneError_def split: if_splits)

lemma encode_rune_no_ascii: "0x80 \<le> r \<Longrightarrow> c \<in> set (encode_rune r) \<Longrightarrow> 0x80 \<le> ord c"
  using encode_bytes_lead [of r "ord c"] by (metis image_eqI map_ord_encode set_map)

text \<open>Below 128 a rune of a string is one of its bytes.\<close>

lemma decode_rune_ascii: "fst (decode_rune (b # bs)) < 0x80 \<Longrightarrow> fst (decode_rune (b # bs)) = b"
  using decode_rune_lead [of b bs] by (cases "b < 0x80") auto

lemma runes_ascii_mem: "r \<in> set (runes s) \<Longrightarrow> r < 0x80 \<Longrightarrow> r \<in> ord ` set s"
proof (induction s rule: chunks.induct)
  case (1 s)
  obtain q w where qw: "decode_rune (map of_char (take 4 s)) = (q, w)" by fastforce
  show ?case
  proof (cases "s = []")
    case False
    then have runes: "runes s = q # runes (drop w s)"
      using qw unfolding runes_def by (subst chunks.simps) simp
    have rest: "r \<in> ord ` set s" if "r \<in> set (runes (drop w s))"
    proof -
      from "1.IH" False qw that "1.prems"(2) have "r \<in> ord ` set (drop w s)" by auto
      with image_mono [OF set_drop_subset [of w s], of ord] show ?thesis by blast
    qed
    have "map of_char (take 4 s) = ord (hd s) # map of_char (take 3 (tl s))"
      using False by (cases s) (simp_all add: numeral_eq_Suc)
    with qw decode_rune_ascii have "q = ord (hd s)" if "q < 0x80"
      using that by (metis fst_conv)
    with rest runes "1.prems" False show ?thesis by auto
  qed (use "1.prems" in simp)
qed

lemma strings_Map_drop:
  "strings_Map drop_control s = of_runes (filter (\<lambda>r. \<not> (r < 0x20 \<or> r = 0x7F)) (runes s))"
proof -
  have "concat (map (\<lambda>r. case drop_control r of None \<Rightarrow> [] | Some q \<Rightarrow> encode_rune q) rs)
      = of_runes (filter (\<lambda>r. \<not> (r < 0x20 \<or> r = 0x7F)) rs)" for rs
    by (induction rs) (auto simp: drop_control_def)
  then show ?thesis by (simp add: strings_Map_def)
qed

lemma trim_map: "trim p (map f xs) = map f (trim (p \<circ> f) xs)"
  by (simp add: trim_def dropWhile_map rev_map)

lemma set_trim: "set (trim p xs) \<subseteq> set xs"
  by (auto simp: trim_def dest!: set_dropWhileD)

lemma TrimSpace_of_runes:
  "\<forall>r \<in> set rs. valid_rune r \<Longrightarrow> TrimSpace (of_runes rs) = of_runes (trim is_space rs)"
proof -
  assume "\<forall>r \<in> set rs. valid_rune r"
  then have "chunks (of_runes rs) = map (\<lambda>r. (r, encode_rune r)) rs"
    using chunks_of_runes [of rs "[]"] by simp
  then show ?thesis
    by (simp add: TrimSpace_def trim_map of_runes_def o_def)
qed

text \<open>An ASCII byte of an encoded string is a rune of its own.\<close>

lemma of_runes_split:
  assumes "of_runes rs = p @ c # t" "ord c < 0x80"
  shows "\<exists>qs us. rs = qs @ ord c # us \<and> of_runes us = t"
  using assms
proof (induction rs arbitrary: p)
  case (Cons r rs)
  show ?case
  proof (cases "length p < length (encode_rune r)")
    case True
    with Cons.prems(1) have c: "c = encode_rune r ! length p"
      by (metis nth_append nth_append_length of_runes_Cons)
    with True have "c \<in> set (encode_rune r)" by simp
    with Cons.prems(2) encode_rune_no_ascii [of r c] have "r < 0x80" by fastforce
    then have e: "encode_rune r = [char_of r]"
      by (simp add: encode_rune_def encode_bytes_def valid_rune_def)
    with True c have "c = char_of r" "p = []" by auto
    with e \<open>r < 0x80\<close> Cons.prems(1) have "ord c = r" "of_runes rs = t" by auto
    then show ?thesis by (intro exI [of _ "[]"] exI [of _ rs]) simp
  next
    case False
    with Cons.prems(1) have "of_runes rs = drop (length (encode_rune r)) p @ c # t"
      by (metis append_eq_append_conv_if linorder_not_less of_runes_Cons append_eq_append_conv2 append_eq_conv_conj drop_append drop_all append_Nil diff_is_0_eq drop0 nat_le_linear)
    from Cons.IH [OF this Cons.prems(2)] obtain qs us
      where "rs = qs @ ord c # us" "of_runes us = t" by blast
    then show ?thesis by (intro exI [of _ "r # qs"] exI [of _ us]) simp
  qed
qed simp

lemma path_Ext_cases:
  obtains "path_Ext s = []" | p t where "s = p @ CHR ''.'' # t" "path_Ext s = CHR ''.'' # t"
proof (cases "path_Ext s = []")
  case False
  define t where "t = takeWhile (\<lambda>c. c \<noteq> CHR ''/'' \<and> c \<noteq> CHR ''.'') (rev s)"
  from False obtain u where u: "drop (length t) (rev s) = CHR ''.'' # u"
    "path_Ext s = CHR ''.'' # rev t"
    by (auto simp: path_Ext_def t_def Let_def split: list.splits if_splits)
  have "take (length t) (rev s) = t"
    by (simp add: t_def takeWhile_eq_take [symmetric])
  with u(1) have "t @ CHR ''.'' # u = rev s"
    using append_take_drop_id [of "length t" "rev s"] by simp
  from arg_cong [OF this, of rev] have "s = rev u @ CHR ''.'' # rev t" by simp
  then show thesis using u(2) by (rule that(2))
qed (rule that(1))

lemma path_Ext_of_runes: "\<exists>qs us. rs = qs @ us \<and> path_Ext (of_runes rs) = of_runes us"
proof (cases "of_runes rs" rule: path_Ext_cases)
  case 1
  then show ?thesis by (intro exI [of _ rs] exI [of _ "[]"]) simp
next
  case (2 p t)
  have dot: "ord (CHR ''.'') = (46 :: nat)" "encode_rune 46 = ''.''"
    using encode_rune_ascii [of "CHR ''.''"] by simp_all
  from of_runes_split [OF 2(1)] dot(1) obtain qs us where "rs = qs @ 46 # us" and t: "of_runes us = t"
    unfolding dot(1) by auto
  moreover have "path_Ext (of_runes rs) = of_runes (46 # us)"
    by (simp only: 2(2) dot(2) of_runes_Cons t append.simps)
  ultimately show ?thesis by blast
qed

lemma path_Base_cases:
  obtains (slashes) "p \<noteq> []" "set p \<subseteq> {CHR ''/''}" "path_Base p = ''/''"
  | (name) "p = [] \<or> \<not> set p \<subseteq> {CHR ''/''}" "CHR ''/'' \<notin> set (path_Base p)"
      "set (path_Base p) \<subseteq> insert (CHR ''.'') (set p)"
proof -
  define q where "q = dropWhile (\<lambda>c. c = CHR ''/'') (rev p)"
  define r where "r = rev (takeWhile (\<lambda>c. c \<noteq> CHR ''/'') q)"
  have base: "path_Base p = (if p = [] then ''.'' else if r = [] then ''/'' else r)"
    by (simp add: path_Base_def q_def r_def)
  have q: "q = [] \<longleftrightarrow> set p \<subseteq> {CHR ''/''}"
    by (auto simp: q_def dropWhile_eq_Nil_conv)
  have "q \<noteq> [] \<Longrightarrow> hd q \<noteq> CHR ''/''"
    unfolding q_def by (rule hd_dropWhile)
  then have r: "r = [] \<longleftrightarrow> q = []"
    by (cases q) (auto simp: r_def)
  have "CHR ''/'' \<notin> set r" "set r \<subseteq> set p"
    by (auto simp: r_def q_def dest!: set_takeWhileD set_dropWhileD)
  with base q r slashes name show thesis
    by (cases "p = []"; cases "q = []") auto
qed

lemma limit_name_runes:
  assumes "\<forall>r \<in> set rs. valid_rune r"
  shows "\<exists>qs. limit_name (of_runes rs) = of_runes qs \<and> set qs \<subseteq> set rs
    \<and> length qs \<le> maxFilenameLength"
proof (cases "maxFilenameLength < length rs")
  case False
  with assms show ?thesis
    by (intro exI [of _ rs]) (simp add: limit_name_def runes_of_runes)
next
  case True
  obtain ps us where us: "rs = ps @ us" "path_Ext (of_runes rs) = of_runes us"
    using path_Ext_of_runes by blast
  define ext where "ext = (if 20 < length us then [] else us)"
  from assms us(1) have "runes (of_runes us) = us" by (intro runes_of_runes) auto
  with True us(2) runes_of_runes [OF assms] have "limit_name (of_runes rs)
      = of_runes (take (maxFilenameLength - length ext) rs @ ext)"
    by (simp add: limit_name_def Let_def ext_def)
  moreover have "set (take (maxFilenameLength - length ext) rs @ ext) \<subseteq> set rs"
  proof -
    from us(1) have "set us \<subseteq> set rs" by simp
    with set_take_subset [of "maxFilenameLength - length ext" rs] show ?thesis
      by (auto simp: ext_def split: if_splits)
  qed
  moreover have "length ext \<le> 20" by (simp add: ext_def)
  then have "length (take (maxFilenameLength - length ext) rs @ ext) \<le> maxFilenameLength"
    by (simp add: maxFilenameLength_def)
  ultimately show ?thesis by blast
qed

text \<open>What is left after the path is cut off.\<close>

definition base_name :: "string \<Rightarrow> string" where
  "base_name name = path_Base (ReplaceAll name (CHR 0x5C) (CHR ''/''))"

definition only_slashes :: "string \<Rightarrow> bool" where
  "only_slashes name \<longleftrightarrow> name \<noteq> [] \<and> set name \<subseteq> {CHR ''/'', CHR 0x5C}"

lemma base_name_cases:
  "if only_slashes name then base_name name = ''/''
   else CHR ''/'' \<notin> set (base_name name) \<and> CHR 0x5C \<notin> set (base_name name)"
proof -
  let ?p = "ReplaceAll name (CHR 0x5C) (CHR ''/'')"
  have "set ?p \<subseteq> {CHR ''/''} \<longleftrightarrow> set name \<subseteq> {CHR ''/'', CHR 0x5C}"
    and "?p = [] \<longleftrightarrow> name = []" and "CHR 0x5C \<notin> set ?p"
    by (auto simp: ReplaceAll_def)
  then show ?thesis
    by (cases ?p rule: path_Base_cases) (auto simp: base_name_def only_slashes_def)
qed

lemma only_slashes_name: "only_slashes name \<Longrightarrow> sanitizeFilename name = ''/''"
proof -
  assume "only_slashes name"
  with base_name_cases [of name] have b: "base_name name = ''/''" by simp
  have "runes ''/'' = [47]" "of_runes [47] = ''/''"
    using encode_rune_ascii [of "CHR ''/''"] by simp_all
  moreover have "trim is_space [47] = [47]" by (simp add: trim_def is_space_def)
  moreover have "valid_rune 47" by (simp add: valid_rune_def)
  ultimately have "TrimSpace (strings_Map drop_control ''/'') = ''/''" "limit_name ''/'' = ''/''"
    using TrimSpace_of_runes [of "[47]"]
    by (simp_all add: strings_Map_drop limit_name_def maxFilenameLength_def)
  with b show ?thesis by (simp add: sanitizeFilename_def base_name_def [symmetric])
qed

lemma sanitize_runes:
  assumes "\<not> only_slashes name"
  shows "\<exists>rs. sanitizeFilename name = of_runes rs \<and> (\<forall>r \<in> set rs. valid_rune r \<and> key_rune r)
    \<and> length rs \<le> maxFilenameLength"
proof -
  let ?b = "base_name name"
  define rs where "rs = trim is_space (filter (\<lambda>r. \<not> (r < 0x20 \<or> r = 0x7F)) (runes ?b))"
  have "\<forall>r \<in> set (runes ?b). valid_rune r" by (simp add: runes_valid)
  then have valid: "\<forall>r \<in> set rs. valid_rune r"
    and clean: "TrimSpace (strings_Map drop_control ?b) = of_runes rs"
    using set_trim [of is_space "filter (\<lambda>r. \<not> (r < 0x20 \<or> r = 0x7F)) (runes ?b)"]
    by (auto simp: rs_def strings_Map_drop TrimSpace_of_runes)
  have "(char_of (47 :: nat) :: char) = CHR ''/''" "(char_of (92 :: nat) :: char) = CHR 0x5C"
    by code_simp+
  with assms base_name_cases [of name] have "47 \<notin> ord ` set ?b" "92 \<notin> ord ` set ?b"
    by (auto simp: image_iff dest!: arg_cong [where f = "char_of :: nat \<Rightarrow> char"])
  then have "47 \<notin> set (runes ?b)" "92 \<notin> set (runes ?b)"
    using runes_ascii_mem [of _ ?b] by fastforce+
  then have ok: "\<forall>r \<in> set rs. key_rune r"
    using set_trim [of is_space "filter (\<lambda>r. \<not> (r < 0x20 \<or> r = 0x7F)) (runes ?b)"]
    by (auto simp: rs_def key_rune_def)
  obtain qs where qs: "limit_name (of_runes rs) = of_runes qs" "set qs \<subseteq> set rs"
    "length qs \<le> maxFilenameLength"
    using limit_name_runes [OF valid] by blast
  have "of_runes (map ord ''file'') = ''file''"
    using valid_utf8_ascii [of "''file''"] by (simp add: valid_utf8_def)
  moreover have "\<forall>r \<in> set (map ord ''file''). valid_rune r \<and> key_rune r"
    by (simp add: valid_rune_def key_rune_def)
  moreover have "length (map ord ''file'' :: nat list) \<le> maxFilenameLength"
    by (simp add: maxFilenameLength_def)
  moreover have "sanitizeFilename name = ''file'' \<or> sanitizeFilename name = of_runes qs"
    using qs(1) clean by (simp add: sanitizeFilename_def base_name_def [symmetric] Let_def)
  moreover have "\<forall>r \<in> set qs. valid_rune r \<and> key_rune r"
    using qs(2) valid ok by blast
  ultimately show ?thesis
    using qs(3) by metis
qed

lemma sanitizeFilename_runes_ok:
  "\<not> only_slashes name \<Longrightarrow> list_all key_rune (runes (sanitizeFilename name))"
  using sanitize_runes [of name] by (auto simp: runes_of_runes list_all_iff)

text \<open>
  C37. A sanitised name is well-formed UTF-8 of 1 to 180 characters without ASCII control
  characters (below 0x20, and 0x7F), slashes or backslashes, and is neither "." nor "..",
  with one exception: a name made of slashes and backslashes only becomes "/".
\<close>

theorem sanitizeFilename_shape:
  "if only_slashes name then sanitizeFilename name = ''/''
   else valid_utf8 (sanitizeFilename name)
     \<and> list_all key_rune (runes (sanitizeFilename name))
     \<and> 1 \<le> length (runes (sanitizeFilename name)) \<and> length (runes (sanitizeFilename name)) \<le> 180
     \<and> sanitizeFilename name \<notin> {[], ''.'', ''..''}"
proof (cases "only_slashes name")
  case False
  then obtain rs where rs: "sanitizeFilename name = of_runes rs" "\<forall>r \<in> set rs. valid_rune r"
    "\<forall>r \<in> set rs. key_rune r" "length rs \<le> maxFilenameLength"
    using sanitize_runes by blast
  have ne: "sanitizeFilename name \<notin> {[], ''.'', ''..''}"
    by (simp add: sanitizeFilename_def Let_def)
  with rs(1) have "rs \<noteq> []" by auto
  with False rs ne show ?thesis
    by (simp add: runes_of_runes valid_utf8_of_runes list_all_iff maxFilenameLength_def Suc_le_eq)
qed (simp add: only_slashes_name)

subsection \<open>Which issued keys are accepted again\<close>

lemma runes_ascii_append:
  "\<forall>c \<in> set a. ord c < 0x80 \<Longrightarrow> runes (a @ s) = map ord a @ runes s"
  by (induction a) simp_all

definition key_id :: "string \<Rightarrow> bool" where
  "key_id fid \<longleftrightarrow> length fid = 36 \<and> (\<forall>c \<in> set fid. ord c < 0x80 \<and> key_rune (ord c))"

lemma runes_Build:
  assumes "key_id fid"
  shows "runes (Build fid name) = map ord fid @ 95 # runes name"
    and "length (Build fid name) = 37 + length name"
proof -
  from assms have "\<forall>c \<in> set fid. ord c < 0x80" "length fid = 36"
    unfolding key_id_def by blast+
  from runes_ascii_append [OF this(1), of "''_'' @ name"] this(2)
  show "runes (Build fid name) = map ord fid @ 95 # runes name"
    and "length (Build fid name) = 37 + length name"
    unfolding Build_def by simp_all
qed

lemma validKey_iff:
  "validKey key \<longleftrightarrow> key \<noteq> [] \<and> length key \<le> maxKeyLength \<and> list_all key_rune (runes key)"
  unfolding validKey_def key_rune_def [symmetric] by (auto simp: not_less)

lemma validKey_Build:
  assumes "key_id fid"
  shows "validKey (Build fid name) \<longleftrightarrow> length name \<le> 183 \<and> list_all key_rune (runes name)"
proof -
  have "key_rune 95" by (simp add: key_rune_def)
  with assms runes_Build [OF assms] show ?thesis
    by (auto simp: validKey_iff key_id_def list_all_iff maxKeyLength_def maxFilenameLength_def
        Build_def)
qed

text \<open>
  C36. The keys the service issues, a 36-character id and the sanitised name, pass the check on
  the way back exactly when the name is not the "/" of a name of slashes only and takes at
  most 183 bytes: sanitising bounds characters (180), the check bounds bytes (220 in all).
\<close>

theorem issued_key_valid_iff:
  assumes "key_id fid"
  shows "validKey (Build fid (sanitizeFilename name))
    \<longleftrightarrow> \<not> only_slashes name \<and> length (sanitizeFilename name) \<le> 183"
proof (cases "only_slashes name")
  case True
  have "runes ''/'' = [47]" by simp
  with True show ?thesis
    by (simp add: validKey_Build [OF assms] only_slashes_name key_rune_def)
next
  case False
  then show ?thesis
    using sanitizeFilename_runes_ok by (simp add: validKey_Build [OF assms])
qed

definition sample_id :: string where
  "sample_id = ''00000000-0000-4000-8000-000000000000''"

lemma sample_id: "key_id sample_id" "CHR ''_'' \<notin> set sample_id"
  by (simp_all add: key_id_def sample_id_def key_rune_def)

theorem issued_key_valid_iff_witness:
  "validKey (Build sample_id (sanitizeFilename ''a/b'')) \<longleftrightarrow>
     \<not> only_slashes ''a/b'' \<and> length (sanitizeFilename ''a/b'') \<le> 183"
  by (rule issued_key_valid_iff [OF sample_id(1)])

text \<open>A name of \<open>n\<close> Chinese characters (U+4E2D, three bytes each).\<close>

definition han_name :: "nat \<Rightarrow> string" where
  "han_name n = of_runes (replicate n 0x4E2D)"

lemma han_bytes: "encode_rune 0x4E2D = map char_of [0xE4 :: nat, 0xB8, 0xAD]"
  by (simp add: encode_rune_def encode_bytes_def valid_rune_def)

lemma han_rune: "valid_rune 0x4E2D" "key_rune 0x4E2D" "\<not> is_space 0x4E2D"
  by (simp_all add: valid_rune_def key_rune_def is_space_def)

lemma length_han_name: "length (han_name n) = 3 * n"
  by (induction n) (simp_all add: han_name_def han_bytes)

lemma runes_han_name: "runes (han_name n) = replicate n 0x4E2D"
  by (simp add: han_name_def runes_of_runes han_rune)

lemma han_name_no_ascii: "c \<in> set (han_name n) \<Longrightarrow> 0x80 \<le> ord c"
  using encode_rune_no_ascii [of "0x4E2D" c] by (induction n) (auto simp: han_name_def)

lemma base_name_plain:
  assumes "s \<noteq> []" "CHR ''/'' \<notin> set s" "CHR 0x5C \<notin> set s"
  shows "base_name s = s"
proof -
  have r: "ReplaceAll s (CHR 0x5C) (CHR ''/'') = s"
    using assms(3) by (induction s) (auto simp: ReplaceAll_def)
  have d: "dropWhile (\<lambda>c. c = CHR ''/'') (rev s) = rev s"
    using assms(1,2) by (cases "rev s") (auto simp: rev_eq_Cons_iff)
  have t: "takeWhile (\<lambda>c. c \<noteq> CHR ''/'') (rev s) = rev s"
    using assms(2) by (auto simp: takeWhile_eq_all_conv)
  show ?thesis using assms(1) by (simp add: base_name_def path_Base_def Let_def r d t)
qed

text \<open>Names that are already clean are kept.\<close>

definition clean_rune :: "rune \<Rightarrow> bool" where
  "clean_rune r \<longleftrightarrow> valid_rune r \<and> key_rune r \<and> \<not> is_space r"

lemma of_runes_no_ascii: "ord c < 0x80 \<Longrightarrow> ord c \<notin> set rs \<Longrightarrow> c \<notin> set (of_runes rs)"
  using of_runes_split [of rs _ c] by (metis in_set_conv_decomp split_list)

lemma sanitize_clean:
  assumes "rs \<noteq> []" "\<forall>r \<in> set rs. clean_rune r" "length rs \<le> 180"
    and "of_runes rs \<noteq> ''.''" "of_runes rs \<noteq> ''..''"
  shows "sanitizeFilename (of_runes rs) = of_runes rs" "\<not> only_slashes (of_runes rs)"
proof -
  have valid: "\<forall>r \<in> set rs. valid_rune r" and "47 \<notin> set rs" "92 \<notin> set rs"
    using assms(2) by (auto simp: clean_rune_def key_rune_def)
  then have no: "CHR ''/'' \<notin> set (of_runes rs)" "CHR 0x5C \<notin> set (of_runes rs)"
    using of_runes_no_ascii [of "CHR ''/''" rs] of_runes_no_ascii [of "CHR 0x5C" rs] by simp_all
  have ne: "of_runes rs \<noteq> []" using assms(1) by (cases rs) simp_all
  with no show "\<not> only_slashes (of_runes rs)"
    by (cases "of_runes rs") (auto simp: only_slashes_def)
  have f: "filter (\<lambda>r. \<not> (r < 0x20 \<or> r = 0x7F)) rs = rs"
    using assms(2) by (auto simp: filter_id_conv clean_rune_def key_rune_def)
  have d: "dropWhile is_space xs = xs" if "set xs \<subseteq> set rs" for xs
    using that assms(2) by (cases xs) (auto simp: clean_rune_def)
  have t: "trim is_space rs = rs"
    using d [of rs] d [of "rev rs"] by (simp add: trim_def)
  have "TrimSpace (strings_Map drop_control (of_runes rs)) = of_runes rs"
    unfolding strings_Map_drop runes_of_runes [OF valid] f TrimSpace_of_runes [OF valid] t ..
  moreover have "limit_name (of_runes rs) = of_runes rs"
    using assms(3) by (simp add: limit_name_def runes_of_runes [OF valid] maxFilenameLength_def)
  ultimately show "sanitizeFilename (of_runes rs) = of_runes rs"
    using ne assms(4,5) base_name_plain [OF ne no]
    by (simp add: sanitizeFilename_def base_name_def [symmetric] Let_def)
qed

lemma sanitize_clean_ascii:
  assumes "name \<noteq> []" "\<forall>c \<in> set name. ord c < 0x80 \<and> clean_rune (ord c)" "length name \<le> 180"
    and "name \<noteq> ''.''" "name \<noteq> ''..''"
  shows "sanitizeFilename name = name" "\<not> only_slashes name" "list_all key_rune (runes name)"
proof -
  have "\<forall>c \<in> set name. ord c < 0x80" using assms(2) by blast
  then have runes: "runes name = map ord name" and utf8: "of_runes (map ord name) = name"
    using runes_ascii [of name] valid_utf8_ascii [of name] by (simp_all add: valid_utf8_def)
  have "\<forall>r \<in> set (map ord name). clean_rune r" using assms(2) by simp
  from sanitize_clean [of "map ord name", OF _ this] assms utf8
  show "sanitizeFilename name = name" "\<not> only_slashes name" by simp_all
  show "list_all key_rune (runes name)"
    using assms(2) unfolding runes list_all_iff clean_rune_def by simp
qed

lemma sanitize_han_name:
  assumes "0 < n" "n \<le> 180"
  shows "sanitizeFilename (han_name n) = han_name n" "\<not> only_slashes (han_name n)"
proof -
  have "\<forall>r \<in> set (replicate n 0x4E2D). clean_rune r"
    using han_rune by (auto simp: clean_rune_def)
  moreover have "han_name n \<noteq> ''.''" "han_name n \<noteq> ''..''"
    using han_name_no_ascii [of "CHR ''.''" n] by auto
  ultimately show "sanitizeFilename (han_name n) = han_name n" "\<not> only_slashes (han_name n)"
    using sanitize_clean [of "replicate n 0x4E2D"] assms by (simp_all add: han_name_def)
qed

text \<open>
  Two kinds of names the service accepts for upload although it will refuse the key it
  issues for them: 62 characters of three bytes each (well below the limit of 180), and a
  name of slashes only.
\<close>

lemma issued_keys_refused:
  "sanitizeFilename (han_name 62) = han_name 62 \<and> length (runes (han_name 62)) = 62
   \<and> \<not> validKey (Build sample_id (sanitizeFilename (han_name 62)))
   \<and> sanitizeFilename ''//'' = ''/'' \<and> \<not> validKey (Build sample_id (sanitizeFilename ''//''))"
proof -
  note han = sanitize_han_name [of 62, simplified]
  have s: "only_slashes ''//''" by (simp add: only_slashes_def)
  from han have "\<not> validKey (Build sample_id (sanitizeFilename (han_name 62)))"
    by (simp add: validKey_Build [OF sample_id(1)] length_han_name)
  moreover have "\<not> validKey (Build sample_id (sanitizeFilename ''//''))"
    by (simp add: validKey_Build [OF sample_id(1)] only_slashes_name [OF s] key_rune_def)
  ultimately show ?thesis
    using han(1) only_slashes_name [OF s] by (simp add: runes_han_name)
qed

end
