(* ===== verification/Database.thy ===== *)
theory Database
  imports Domain
begin

section \<open>The Postgres tables and how statements on them run\<close>

text \<open>
  The tables of \<open>db/migrations\<close> as lists of rows (in physical order, which no SQL
  statement of the code relies on) and the three ways \<open>pgx\<close> runs a statement:
  \<open>Exec\<close>, \<open>Query\<close> and \<open>QueryRow\<close>. A statement is a function on the tables;
  constraint violations are error results that leave the tables alone.

  The database is a service, so what it does to a call is part of the state: \<open>weather\<close>
  is the schedule of outcomes of the coming calls. A call may be refused before it runs
  (\<open>Refused\<close>), or the statement may take effect while its reply is lost (\<open>Broken k\<close>:
  after \<open>k\<close> rows). An empty schedule means fair weather. The outcome errors are
  connection errors, never one of the repository's sentinels. \<open>uuid_in\<close> is Postgres'
  input function for the type \<open>uuid\<close> (the canonical text, or \<open>None\<close> for a syntax
  error); \<open>timestamptz\<close> columns keep microseconds.
\<close>

subsection \<open>Rows\<close>

record share_row =
  r_slug :: string
  r_owner_id :: "string option"
  r_owner_email :: "string option"
  r_recipient_email :: "string option"
  r_storage_key :: string
  r_file_name :: string
  r_file_size :: int
  r_code_hash :: string
  r_code_salt :: string
  r_share_count :: int
  r_created_at :: time
  r_expires_at :: time

record upload_row =
  u_storage_key :: string
  u_owner_id :: "string option"
  u_file_name :: string
  u_size_bytes :: int
  u_created_at :: time
  u_delete_attempts :: int
  u_last_delete_error :: "goerr option"

text \<open>The audit trail keeps the JSON of a snapshot; the model keeps the snapshot.\<close>

record purged_share =
  ps_Slug :: string
  ps_StorageKey :: string
  ps_FileName :: string
  ps_FileSize :: int
  ps_OwnerEmail :: string
  ps_CreatedAt :: time
  ps_ExpiresAt :: time

record purged_upload =
  pu_StorageKey :: string
  pu_OwnerID :: string
  pu_FileName :: string
  pu_SizeBytes :: int
  pu_CreatedAt :: time
  pu_DeletedShareSlugs :: "string list"

record purge_failure =
  pf_Attempt :: int
  pf_Error :: goerr

datatype detail =
    PurgedShare purged_share
  | PurgedUpload purged_upload
  | PurgeFailure purge_failure

record audit_row =
  a_action :: string
  a_subject :: string
  a_detail :: "detail option"

record job_row =
  j_job :: string
  j_started_at :: time
  j_finished_at :: time
  j_status :: string
  j_error :: "goerr option"

datatype outcome = Fine | Refused string | Broken nat string

record db =
  shares_t :: "share_row list"
  uploads_t :: "upload_row list"
  audit_t :: "audit_row list"
  job_runs_t :: "job_row list"
  uuid_in :: "string \<Rightarrow> string option"
  weather :: "outcome list"

text \<open>The constraints: \<open>slug\<close> and \<open>storage_key\<close> are unique in \<open>shares\<close> (migrations
  0001 and 0004), \<open>storage_key\<close> is the key of \<open>uploads\<close> (0005).\<close>

definition db_ok :: "db \<Rightarrow> bool" where
  "db_ok d \<longleftrightarrow> distinct (map r_slug (shares_t d)) \<and> distinct (map r_storage_key (shares_t d))
     \<and> distinct (map u_storage_key (uploads_t d))"

subsection \<open>Column types\<close>

definition pg_ts :: "time \<Rightarrow> time" where
  "pg_ts t = t div 1000 * 1000"

lemma pg_ts_bounds: "pg_ts t \<le> t" "t < pg_ts t + 1000"
  unfolding pg_ts_def by linarith+

lemma pg_ts_idem [simp]: "pg_ts (pg_ts t) = pg_ts t"
  by (simp add: pg_ts_def)

lemma pg_ts_mono: "s \<le> t \<Longrightarrow> pg_ts s \<le> pg_ts t"
  by (simp add: pg_ts_def zdiv_mono1)

definition nullable :: "string \<Rightarrow> string option" where
  "nullable s = (if s = [] then None else Some s)"

definition from_null :: "string option \<Rightarrow> string" where
  "from_null v = (case v of None \<Rightarrow> [] | Some s \<Rightarrow> s)"

lemma from_null_nullable [simp]: "from_null (nullable s) = s"
  by (simp add: from_null_def nullable_def)

definition uuid_arg :: "db \<Rightarrow> string option \<Rightarrow> goerr + string option" where
  "uuid_arg d v =
     (case v of None \<Rightarrow> Inr None
      | Some s \<Rightarrow> (case uuid_in d s of
                     None \<Rightarrow> Inl (Fault ''invalid input syntax for type uuid'')
                   | Some u \<Rightarrow> Inr (Some u)))"

subsection \<open>Running statements\<close>

type_synonym 'a statement = "db \<Rightarrow> (goerr + 'a) \<times> db"

definition next_outcome :: "db \<Rightarrow> outcome \<times> db" where
  "next_outcome d =
     (case weather d of [] \<Rightarrow> (Fine, d) | w # ws \<Rightarrow> (w, d\<lparr>weather := ws\<rparr>))"

definition db_Exec :: "nat statement \<Rightarrow> db \<Rightarrow> (goerr + nat) \<times> db" where
  "db_Exec stmt d =
     (case next_outcome d of
        (Fine, d1) \<Rightarrow> stmt d1
      | (Refused m, d1) \<Rightarrow> (Inl (Fault m), d1)
      | (Broken k m, d1) \<Rightarrow> (Inl (Fault m), snd (stmt d1)))"

text \<open>The rows a \<open>Query\<close> delivers, with what \<open>rows.Err()\<close> says at the end.\<close>

definition db_Query :: "'r list statement \<Rightarrow> db \<Rightarrow> (goerr + 'r list \<times> goerr option) \<times> db" where
  "db_Query stmt d =
     (case next_outcome d of
        (Refused m, d1) \<Rightarrow> (Inl (Fault m), d1)
      | (Fine, d1) \<Rightarrow>
          (case stmt d1 of (Inl e, d2) \<Rightarrow> (Inl e, d2) | (Inr rows, d2) \<Rightarrow> (Inr (rows, None), d2))
      | (Broken k m, d1) \<Rightarrow>
          (case stmt d1 of (Inl e, d2) \<Rightarrow> (Inl e, d2)
           | (Inr rows, d2) \<Rightarrow> (Inr (take k rows, Some (Fault m)), d2)))"

definition db_QueryRow :: "'r list statement \<Rightarrow> db \<Rightarrow> (goerr + 'r) \<times> db" where
  "db_QueryRow stmt d =
     (case next_outcome d of
        (Refused m, d1) \<Rightarrow> (Inl (Fault m), d1)
      | (Broken k m, d1) \<Rightarrow> (Inl (Fault m), snd (stmt d1))
      | (Fine, d1) \<Rightarrow>
          (case stmt d1 of (Inl e, d2) \<Rightarrow> (Inl e, d2)
           | (Inr [], d2) \<Rightarrow> (Inl ErrNoRows, d2)
           | (Inr (r # rs), d2) \<Rightarrow> (Inr r, d2)))"

text \<open>
  Consuming the schedule changes nothing else. \<open>same_tables\<close> is equality of everything
  but the schedule.
\<close>

definition same_tables :: "db \<Rightarrow> db \<Rightarrow> bool" where
  "same_tables d d' \<longleftrightarrow> (\<exists>ws. d' = d\<lparr>weather := ws\<rparr>)"

lemma same_tables_refl [simp]: "same_tables d d"
  by (auto simp: same_tables_def intro: exI [of _ "weather d"])

lemma same_tablesD:
  assumes "same_tables d d'"
  shows "shares_t d' = shares_t d" "uploads_t d' = uploads_t d" "audit_t d' = audit_t d"
    "job_runs_t d' = job_runs_t d" "uuid_in d' = uuid_in d"
  using assms by (auto simp: same_tables_def)

lemma next_outcome_tables: "next_outcome d = (w, d1) \<Longrightarrow> same_tables d d1"
  by (auto simp: next_outcome_def same_tables_def split: list.splits
      intro: exI [of _ "weather d"])

text \<open>
  The shape of every call: the statement ran on the same tables or did not run at all. These
  rules are the only way the component proofs look at the schedule.
\<close>

lemma db_Exec_cases:
  assumes "db_Exec stmt d = (r, d')"
  obtains (ran) d1 where "same_tables d d1" "stmt d1 = (r, d')"
  | (lost) d1 m x where "same_tables d d1" "stmt d1 = (x, d')" "r = Inl (Fault m)"
  | (refused) m where "same_tables d d'" "r = Inl (Fault m)"
proof (cases "next_outcome d")
  case (Pair w d1)
  note t = next_outcome_tables [OF Pair]
  show thesis
    using assms Pair t ran [OF t] lost [OF t, of "fst (stmt d1)"] refused
    by (cases w) (auto simp: db_Exec_def)
qed

lemma db_Query_cases:
  assumes "db_Query stmt d = (r, d')"
  obtains (ran) d1 rows where "same_tables d d1" "stmt d1 = (Inr rows, d')" "r = Inr (rows, None)"
  | (lost) d1 rows k m where "same_tables d d1" "stmt d1 = (Inr rows, d')"
      "r = Inr (take k rows, Some (Fault m))"
  | (failed) d1 e where "same_tables d d1" "stmt d1 = (Inl e, d')" "r = Inl e"
  | (refused) m where "same_tables d d'" "r = Inl (Fault m)"
proof (cases "next_outcome d")
  case (Pair w d1)
  note t = next_outcome_tables [OF Pair]
  obtain x d2 where s: "stmt d1 = (x, d2)" by fastforce
  show thesis
    using assms Pair t s ran [OF t] lost [OF t] failed [OF t] refused
    by (cases w; cases x) (auto simp: db_Query_def)
qed

lemma db_QueryRow_cases:
  assumes "db_QueryRow stmt d = (r, d')"
  obtains (found) d1 row rows where "same_tables d d1" "stmt d1 = (Inr (row # rows), d')" "r = Inr row"
  | (absent) d1 where "same_tables d d1" "stmt d1 = (Inr [], d')" "r = Inl ErrNoRows"
  | (failed) d1 e where "same_tables d d1" "stmt d1 = (Inl e, d')" "r = Inl e"
  | (lost) d1 x m where "same_tables d d1" "stmt d1 = (x, d')" "r = Inl (Fault m)"
  | (refused) m where "same_tables d d'" "r = Inl (Fault m)"
proof (cases "next_outcome d")
  case (Pair w d1)
  note t = next_outcome_tables [OF Pair]
  obtain x d2 where s: "stmt d1 = (x, d2)" by fastforce
  show thesis
    using assms Pair t s found [OF t] absent [OF t] failed [OF t] lost [OF t] refused
    by (cases w; cases x) (auto simp: db_QueryRow_def split: list.splits)
qed

text \<open>A database with no rows in fair weather, where every text is its own UUID.\<close>

definition empty_db :: db where
  "empty_db = \<lparr>shares_t = [], uploads_t = [], audit_t = [], job_runs_t = [], uuid_in = Some,
     weather = []\<rparr>"

lemma empty_db_simps [simp]:
  "shares_t empty_db = []" "uploads_t empty_db = []" "audit_t empty_db = []"
  "job_runs_t empty_db = []" "uuid_in empty_db = Some" "weather empty_db = []"
  by (simp_all add: empty_db_def)

lemma fair_runs [simp]:
  "weather d = [] \<Longrightarrow> db_Exec stmt d = stmt d"
  "weather d = [] \<Longrightarrow> db_Query q d =
     (case q d of (Inl e, d2) \<Rightarrow> (Inl e, d2) | (Inr rows, d2) \<Rightarrow> (Inr (rows, None), d2))"
  "weather d = [] \<Longrightarrow> db_QueryRow qr d =
     (case qr d of (Inl e, d2) \<Rightarrow> (Inl e, d2) | (Inr [], d2) \<Rightarrow> (Inl ErrNoRows, d2)
      | (Inr (r # rs), d2) \<Rightarrow> (Inr r, d2))"
  by (simp_all add: db_Exec_def db_Query_def db_QueryRow_def next_outcome_def)

text \<open>A run keeps what its statement keeps; here the UUID reader.\<close>

lemma db_Exec_uuid:
  assumes "\<And>x d d'. stmt d = (x, d') \<Longrightarrow> uuid_in d' = uuid_in d" "db_Exec stmt d = (r, d')"
  shows "uuid_in d' = uuid_in d"
  using assms(2) by (cases rule: db_Exec_cases) (use assms(1) in \<open>auto dest: same_tablesD(5)\<close>)

lemma db_Query_uuid:
  assumes "\<And>x d d'. stmt d = (x, d') \<Longrightarrow> uuid_in d' = uuid_in d" "db_Query stmt d = (r, d')"
  shows "uuid_in d' = uuid_in d"
  using assms(2) by (cases rule: db_Query_cases) (use assms(1) in \<open>auto dest: same_tablesD(5)\<close>)

lemma db_QueryRow_uuid:
  assumes "\<And>x d d'. stmt d = (x, d') \<Longrightarrow> uuid_in d' = uuid_in d" "db_QueryRow stmt d = (r, d')"
  shows "uuid_in d' = uuid_in d"
  using assms(2) by (cases rule: db_QueryRow_cases) (use assms(1) in \<open>auto dest: same_tablesD(5)\<close>)

text \<open>
  A statement's effect survives the weather: what holds of the tables untouched and of the
  tables the statement leaves (\<open>Q\<close>) holds after the call, and a call that reports success
  has run the statement (\<open>R\<close>).
\<close>

lemma db_Exec_effect:
  assumes "db_Exec stmt d = (r, d')"
    and "\<And>d1. same_tables d d1 \<Longrightarrow> Q d1"
    and "\<And>d1 x d2. same_tables d d1 \<Longrightarrow> stmt d1 = (x, d2) \<Longrightarrow> Q d2 \<and> ((\<exists>n. x = Inr n) \<longrightarrow> R d2)"
  shows "Q d' \<and> ((\<exists>n. r = Inr n) \<longrightarrow> R d')"
  using assms(1)
proof (cases rule: db_Exec_cases)
  case (ran d1)
  with assms(3) show ?thesis by blast
next
  case (lost d1 m x)
  with assms(3) [OF lost(1,2)] show ?thesis by simp
next
  case (refused m)
  with assms(2) show ?thesis by simp
qed

lemma db_Query_effect:
  assumes "db_Query stmt d = (r, d')"
    and "\<And>d1. same_tables d d1 \<Longrightarrow> Q d1"
    and "\<And>d1 x d2. same_tables d d1 \<Longrightarrow> stmt d1 = (x, d2) \<Longrightarrow> Q d2 \<and> (\<forall>rows. x = Inr rows \<longrightarrow> R rows d2)"
  shows "Q d' \<and> (\<forall>got err. r = Inr (got, err) \<longrightarrow> (\<exists>rows. R rows d' \<and> (\<exists>k. got = take k rows) \<and> (err = None \<longrightarrow> got = rows)))"
  using assms(1)
proof (cases rule: db_Query_cases)
  case (ran d1 rows)
  with assms(3) [OF ran(1,2)] show ?thesis
    by (auto intro!: exI [of _ rows] exI [of _ "length rows"])
next
  case (lost d1 rows k m)
  with assms(3) [OF lost(1,2)] show ?thesis by auto
next
  case (failed d1 e)
  with assms(3) [OF failed(1,2)] show ?thesis by simp
next
  case (refused m)
  with assms(2) show ?thesis by simp
qed

end
