(* ===== verification/Interfaces.thy ===== *)
theory Interfaces
  imports Domain
begin

section \<open>The interfaces between handlers, workers and their backends\<close>

text \<open>
  Go's consumer-side interfaces as records of functions over a state \<open>'w\<close> ("the world
  behind the interface"): \<open>ShareStore\<close> and \<open>UploadLookup\<close> of \<open>handlers/share.go\<close>,
  \<open>UploadRecorder\<close> of \<open>handlers/file.go\<close>, \<open>Storage\<close> of \<open>storage/s3.go\<close>. A method
  that returns \<open>(T, error)\<close> returns a sum, one that returns \<open>error\<close> an option; a list
  with an error keeps both.

  The locales state what the clients rely on. \<open>share_backend\<close> is the contract the share
  handlers are verified against; the Postgres store and the S3 client keep it
  (\<open>ShareStore\<close>, \<open>ObjectStore\<close>). Every law allows for failure: an operation that
  reports an error has either had no effect or its whole effect.
\<close>

record 'w share_store =
  ss_Create :: "share \<Rightarrow> 'w \<Rightarrow> goerr option \<times> 'w"
  ss_GetBySlug :: "string \<Rightarrow> 'w \<Rightarrow> (goerr + share) \<times> 'w"
  ss_GetByStorageKey :: "string \<Rightarrow> 'w \<Rightarrow> (goerr + share) \<times> 'w"
  ss_RotateCode :: "share \<Rightarrow> 'w \<Rightarrow> goerr option \<times> 'w"
  ss_ListByOwner :: "string \<Rightarrow> 'w \<Rightarrow> (share list \<times> goerr option) \<times> 'w"
  ss_Delete :: "string \<Rightarrow> string \<Rightarrow> 'w \<Rightarrow> goerr option \<times> 'w"

type_synonym 'w upload_lookup = "string \<Rightarrow> 'w \<Rightarrow> (goerr + upload) \<times> 'w"

type_synonym 'w upload_recorder = "upload \<Rightarrow> 'w \<Rightarrow> goerr option \<times> 'w"

record 'w obj_storage =
  os_GetPresignedUploadURL :: "string \<Rightarrow> int \<Rightarrow> string \<Rightarrow> 'w \<Rightarrow> (goerr + string) \<times> 'w"
  os_GetPresignedURL :: "string \<Rightarrow> bool \<Rightarrow> 'w \<Rightarrow> (goerr + string) \<times> 'w"
  os_DeleteFile :: "string \<Rightarrow> 'w \<Rightarrow> goerr option \<times> 'w"
  os_GetFileSize :: "string \<Rightarrow> 'w \<Rightarrow> (goerr + int) \<times> 'w"

text \<open>
  \<open>MultipartStorage\<close> of \<open>handlers/multipart.go\<close>; \<open>ListParts\<close> pages through the bucket's
  answer, and \<open>None\<close> is a service that never sends a last page.
\<close>

record part =
  p_PartNumber :: int
  p_ETag :: string
  p_Size :: int

record 'w multipart_storage =
  ms_CreateMultipartUpload :: "string \<Rightarrow> string \<Rightarrow> 'w \<Rightarrow> (goerr + string) \<times> 'w"
  ms_PresignUploadPart :: "string \<Rightarrow> string \<Rightarrow> int \<Rightarrow> 'w \<Rightarrow> (goerr + string) \<times> 'w"
  ms_ListParts :: "string \<Rightarrow> string \<Rightarrow> 'w \<Rightarrow> ((goerr + part list) \<times> 'w) option"
  ms_CompleteMultipartUpload :: "string \<Rightarrow> string \<Rightarrow> part list \<Rightarrow> 'w \<Rightarrow> goerr option \<times> 'w"
  ms_AbortMultipartUpload :: "string \<Rightarrow> string \<Rightarrow> 'w \<Rightarrow> goerr option \<times> 'w"

subsection \<open>The share store contract\<close>

text \<open>
  \<open>view\<close> is the abstract content: the shares by slug. \<open>save\<close> is what storing makes of a
  share (Postgres rounds its times), \<open>owns\<close> what the store takes for "this caller is the
  owner".
\<close>

definition rotated :: "share \<Rightarrow> share \<Rightarrow> time \<Rightarrow> share" where
  "rotated old new expires = old\<lparr>sh_CodeSalt := sh_CodeSalt new, sh_CodeHash := sh_CodeHash new,
     sh_ShareCount := sh_ShareCount new, sh_ExpiresAt := expires,
     sh_RecipientEmail := sh_RecipientEmail new\<rparr>"

locale share_store_contract =
  fixes store :: "'w share_store"
    and ok :: "'w \<Rightarrow> bool"
    and view :: "'w \<Rightarrow> string \<Rightarrow> share option"
    and save :: "share \<Rightarrow> share"
    and owns :: "string \<Rightarrow> share \<Rightarrow> bool"
    and stamp :: "time \<Rightarrow> time"
  assumes view_slug: "ok w \<Longrightarrow> view w slug = Some s \<Longrightarrow> sh_Slug s = slug"
    and view_key: "ok w \<Longrightarrow> view w a = Some s \<Longrightarrow> view w b = Some t \<Longrightarrow>
      sh_StorageKey s = sh_StorageKey t \<Longrightarrow> a = b"
    and save_keeps: "sh_Slug (save s) = sh_Slug s" "sh_StorageKey (save s) = sh_StorageKey s"
      "sh_ShareCount (save s) = sh_ShareCount s"
      "sh_CodeSalt (save s) = sh_CodeSalt s" "sh_CodeHash (save s) = sh_CodeHash s"
      "sh_ExpiresAt (save s) = stamp (sh_ExpiresAt s)"
    and stamp_le: "stamp x \<le> x"
    and create_effect: "ok w \<Longrightarrow> ss_Create store s w = (r, w') \<Longrightarrow>
      ok w' \<and>
      (view w' = view w \<and> r \<noteq> None \<or>
       view w (sh_Slug s) = None \<and>
       (\<forall>slug t. view w slug = Some t \<longrightarrow> sh_StorageKey t \<noteq> sh_StorageKey s) \<and>
       (if sh_OwnerID s = [] then sh_OwnerID (save s) = [] else owns (sh_OwnerID s) (save s)) \<and>
       view w' = (view w)(sh_Slug s \<mapsto> save s))"
    and get_by_slug: "ok w \<Longrightarrow> ss_GetBySlug store slug w = (g, w') \<Longrightarrow>
      ok w' \<and> view w' = view w \<and>
      (case g of Inr s \<Rightarrow> view w slug = Some s
       | Inl e \<Rightarrow> errors_is e ErrNotFound \<longrightarrow> view w slug = None)"
    and get_by_key: "ok w \<Longrightarrow> ss_GetByStorageKey store key w = (g, w') \<Longrightarrow>
      ok w' \<and> view w' = view w \<and>
      (case g of Inr s \<Rightarrow> view w (sh_Slug s) = Some s \<and> sh_StorageKey s = key
       | Inl e \<Rightarrow> errors_is e ErrNotFound \<longrightarrow>
           (\<forall>slug s. view w slug = Some s \<longrightarrow> sh_StorageKey s \<noteq> key))"
    and rotate_effect: "ok w \<Longrightarrow> ss_RotateCode store s w = (r, w') \<Longrightarrow>
      ok w' \<and>
      (view w' = view w \<and> r \<noteq> None \<or>
       (\<exists>old. view w (sh_Slug s) = Some old \<and>
          view w' = (view w)(sh_Slug s \<mapsto> rotated old s (stamp (sh_ExpiresAt s)))))"
    and delete_effect: "ok w \<Longrightarrow> ss_Delete store slug owner w = (r, w') \<Longrightarrow>
      ok w' \<and>
      (view w' = view w \<and> r \<noteq> None \<or>
       (\<exists>s. view w slug = Some s \<and> owns owner s \<and> view w' = (view w)(slug := None)))"
    and list_effect: "ok w \<Longrightarrow> ss_ListByOwner store owner w = ((l, r), w') \<Longrightarrow>
      ok w' \<and> view w' = view w \<and> (\<forall>s \<in> set l. view w (sh_Slug s) = Some s \<and> owns owner s)"

text \<open>With the two other backends of a share handler, which leave the shares alone.\<close>

locale share_backend = share_store_contract +
  fixes files :: "'w obj_storage"
    and lookup :: "'w upload_lookup option"
  assumes size_frame: "ok w \<Longrightarrow> os_GetFileSize files key w = (sz, w') \<Longrightarrow> ok w' \<and> view w' = view w"
    and url_frame: "ok w \<Longrightarrow> os_GetPresignedURL files key force w = (u, w') \<Longrightarrow>
      ok w' \<and> view w' = view w"
    and lookup_frame: "ok w \<Longrightarrow> lookup = Some get \<Longrightarrow> get key w = (up, w') \<Longrightarrow>
      ok w' \<and> view w' = view w"

end
