(* ===== verification/ShareStore.thy ===== *)
theory ShareStore
  imports Database Interfaces
begin

section \<open>internal/store/store.go: the Postgres share store\<close>

text \<open>
  One definition per SQL statement of \<open>store.go\<close> (\<open>sql_...\<close>) and one per method. The
  final part shows that the store keeps the contract of \<open>Interfaces\<close>.
\<close>

subsection \<open>Statements and row conversion\<close>

definition share_values :: "string option \<Rightarrow> share \<Rightarrow> share_row" where
  "share_values owner sh =
     \<lparr>r_slug = sh_Slug sh, r_owner_id = owner, r_owner_email = nullable (sh_OwnerEmail sh),
      r_recipient_email = nullable (sh_RecipientEmail sh), r_storage_key = sh_StorageKey sh,
      r_file_name = sh_FileName sh, r_file_size = sh_FileSize sh, r_code_hash = sh_CodeHash sh,
      r_code_salt = sh_CodeSalt sh, r_share_count = sh_ShareCount sh,
      r_created_at = pg_ts (sh_CreatedAt sh), r_expires_at = pg_ts (sh_ExpiresAt sh)\<rparr>"

definition sql_insert_share :: "share \<Rightarrow> nat statement" where
  "sql_insert_share sh d =
     (case uuid_arg d (nullable (sh_OwnerID sh)) of
        Inl e \<Rightarrow> (Inl e, d)
      | Inr owner \<Rightarrow>
          if sh_Slug sh \<in> set (map r_slug (shares_t d))
             \<or> sh_StorageKey sh \<in> set (map r_storage_key (shares_t d))
          then (Inl (Fault ''duplicate key value violates unique constraint''), d)
          else (Inr 1, d\<lparr>shares_t := shares_t d @ [share_values owner sh]\<rparr>))"

definition sql_update_share :: "share \<Rightarrow> nat statement" where
  "sql_update_share sh d =
     (Inr (length (filter (\<lambda>r. r_slug r = sh_Slug sh) (shares_t d))),
      d\<lparr>shares_t := map (\<lambda>r. if r_slug r = sh_Slug sh
          then r\<lparr>r_code_hash := sh_CodeHash sh, r_code_salt := sh_CodeSalt sh,
                 r_expires_at := pg_ts (sh_ExpiresAt sh), r_share_count := sh_ShareCount sh,
                 r_recipient_email := nullable (sh_RecipientEmail sh)\<rparr>
          else r) (shares_t d)\<rparr>)"

definition sql_select_shares :: "(share_row \<Rightarrow> bool) \<Rightarrow> share_row list statement" where
  "sql_select_shares p d = (Inr (filter p (shares_t d)), d)"

definition sql_select_by_owner :: "string \<Rightarrow> share_row list statement" where
  "sql_select_by_owner ownerID d =
     (case uuid_arg d (Some ownerID) of
        Inl e \<Rightarrow> (Inl e, d)
      | Inr owner \<Rightarrow>
          (Inr (sort_key (\<lambda>r. - r_created_at r) (filter (\<lambda>r. r_owner_id r = owner) (shares_t d))), d))"

definition sql_select_expired :: "time \<Rightarrow> nat \<Rightarrow> share_row list statement" where
  "sql_select_expired dbnow limit d =
     (Inr (take limit (sort_key r_expires_at (filter (\<lambda>r. r_expires_at r < dbnow) (shares_t d)))), d)"

definition sql_delete_shares :: "(share_row \<Rightarrow> bool) \<Rightarrow> share_row list statement" where
  "sql_delete_shares p d =
     (Inr (filter p (shares_t d)), d\<lparr>shares_t := filter (\<lambda>r. \<not> p r) (shares_t d)\<rparr>)"

definition affected :: "'r list statement \<Rightarrow> nat statement" where
  "affected stmt d = (case stmt d of (Inl e, d') \<Rightarrow> (Inl e, d') | (Inr rs, d') \<Rightarrow> (Inr (length rs), d'))"

definition scanShare :: "share_row \<Rightarrow> share" where
  "scanShare r =
     \<lparr>sh_Slug = r_slug r, sh_StorageKey = r_storage_key r, sh_FileName = r_file_name r,
      sh_FileSize = r_file_size r, sh_OwnerID = from_null (r_owner_id r),
      sh_OwnerEmail = from_null (r_owner_email r),
      sh_RecipientEmail = from_null (r_recipient_email r), sh_CodeSalt = r_code_salt r,
      sh_CodeHash = r_code_hash r, sh_ShareCount = r_share_count r,
      sh_CreatedAt = r_created_at r, sh_ExpiresAt = r_expires_at r\<rparr>"

subsection \<open>Methods\<close>

definition ShareStore_Create :: "share \<Rightarrow> db \<Rightarrow> goerr option \<times> db" where
  "ShareStore_Create sh d =
     (case db_Exec (sql_insert_share sh) d of
        (Inl e, d') \<Rightarrow> (Some (Wrapped (Sprintf ''insert share: %w'' []) e), d')
      | (Inr _, d') \<Rightarrow> (None, d'))"

definition ShareStore_RotateCode :: "share \<Rightarrow> db \<Rightarrow> goerr option \<times> db" where
  "ShareStore_RotateCode sh d =
     (case db_Exec (sql_update_share sh) d of
        (Inl e, d') \<Rightarrow> (Some (Wrapped (Sprintf ''rotate share: %w'' []) e), d')
      | (Inr n, d') \<Rightarrow> (if n = 0 then Some ErrNotFound else None, d'))"

definition get_share :: "string \<Rightarrow> (share_row \<Rightarrow> bool) \<Rightarrow> db \<Rightarrow> (goerr + share) \<times> db" where
  "get_share format p d =
     (case db_QueryRow (sql_select_shares p) d of
        (Inr r, d') \<Rightarrow> (Inr (scanShare r), d')
      | (Inl e, d') \<Rightarrow>
          (if errors_is e ErrNoRows then Inl ErrNotFound else Inl (Wrapped (Sprintf format []) e), d'))"

definition ShareStore_GetBySlug :: "string \<Rightarrow> db \<Rightarrow> (goerr + share) \<times> db" where
  "ShareStore_GetBySlug slug = get_share ''get share: %w'' (\<lambda>r. r_slug r = slug)"

definition ShareStore_GetByStorageKey :: "string \<Rightarrow> db \<Rightarrow> (goerr + share) \<times> db" where
  "ShareStore_GetByStorageKey key = get_share ''get share by key: %w'' (\<lambda>r. r_storage_key r = key)"

definition scanShares :: "share_row list \<times> goerr option \<Rightarrow> share list \<times> goerr option" where
  "scanShares rows = (map scanShare (fst rows), snd rows)"

definition ShareStore_ListByOwner :: "string \<Rightarrow> db \<Rightarrow> (share list \<times> goerr option) \<times> db" where
  "ShareStore_ListByOwner ownerID d =
     (case db_Query (sql_select_by_owner ownerID) d of
        (Inl e, d') \<Rightarrow> (([], Some (Wrapped (Sprintf ''list shares: %w'' []) e)), d')
      | (Inr rows, d') \<Rightarrow> (scanShares rows, d'))"

definition ShareStore_ListExpired :: "time \<Rightarrow> nat \<Rightarrow> db \<Rightarrow> (share list \<times> goerr option) \<times> db" where
  "ShareStore_ListExpired dbnow limit d =
     (case db_Query (sql_select_expired dbnow limit) d of
        (Inl e, d') \<Rightarrow> (([], Some (Wrapped (Sprintf ''list expired: %w'' []) e)), d')
      | (Inr rows, d') \<Rightarrow> (scanShares rows, d'))"

definition ShareStore_DeleteBySlug :: "string \<Rightarrow> db \<Rightarrow> goerr option \<times> db" where
  "ShareStore_DeleteBySlug slug d =
     (case db_Exec (affected (sql_delete_shares (\<lambda>r. r_slug r = slug))) d of
        (Inl e, d') \<Rightarrow> (Some (Wrapped (Sprintf ''delete share: %w'' []) e), d')
      | (Inr _, d') \<Rightarrow> (None, d'))"

definition ShareStore_DeleteByStorageKey :: "string \<Rightarrow> db \<Rightarrow> (string list \<times> goerr option) \<times> db" where
  "ShareStore_DeleteByStorageKey key d =
     (case db_Query (sql_delete_shares (\<lambda>r. r_storage_key r = key)) d of
        (Inl e, d') \<Rightarrow> (([], Some (Wrapped (Sprintf ''delete shares by key: %w'' []) e)), d')
      | (Inr (rows, err), d') \<Rightarrow> ((map r_slug rows, err), d'))"

definition sql_delete_owned :: "string \<Rightarrow> string \<Rightarrow> share_row list statement" where
  "sql_delete_owned slug ownerID d =
     (case uuid_arg d (Some ownerID) of
        Inl e \<Rightarrow> (Inl e, d)
      | Inr owner \<Rightarrow> sql_delete_shares (\<lambda>r. r_slug r = slug \<and> r_owner_id r = owner) d)"

definition ShareStore_Delete :: "string \<Rightarrow> string \<Rightarrow> db \<Rightarrow> goerr option \<times> db" where
  "ShareStore_Delete slug ownerID d =
     (case db_Exec (affected (sql_delete_owned slug ownerID)) d of
        (Inl e, d') \<Rightarrow> (Some (Wrapped (Sprintf ''delete share: %w'' []) e), d')
      | (Inr n, d') \<Rightarrow> (if n = 0 then Some ErrNotFound else None, d'))"

subsection \<open>The tables seen as shares by slug\<close>

definition rows_view :: "share_row list \<Rightarrow> string \<Rightarrow> share option" where
  "rows_view rs = map_of (map (\<lambda>r. (r_slug r, scanShare r)) rs)"

definition share_view :: "db \<Rightarrow> string \<Rightarrow> share option" where
  "share_view d = rows_view (shares_t d)"

definition owner_column :: "db \<Rightarrow> share \<Rightarrow> string option" where
  "owner_column d sh = (case uuid_arg d (nullable (sh_OwnerID sh)) of Inl e \<Rightarrow> None | Inr v \<Rightarrow> v)"

definition stored_share :: "db \<Rightarrow> share \<Rightarrow> share" where
  "stored_share d sh = scanShare (share_values (owner_column d sh) sh)"

definition owns_share :: "db \<Rightarrow> string \<Rightarrow> share \<Rightarrow> bool" where
  "owns_share d owner s \<longleftrightarrow> uuid_in d owner = Some (sh_OwnerID s)"

lemma scanShare_simps [simp]:
  "sh_Slug (scanShare r) = r_slug r" "sh_StorageKey (scanShare r) = r_storage_key r"
  "sh_ShareCount (scanShare r) = r_share_count r" "sh_OwnerID (scanShare r) = from_null (r_owner_id r)"
  "sh_CodeHash (scanShare r) = r_code_hash r" "sh_CodeSalt (scanShare r) = r_code_salt r"
  "sh_CreatedAt (scanShare r) = r_created_at r" "sh_ExpiresAt (scanShare r) = r_expires_at r"
  "sh_FileName (scanShare r) = r_file_name r" "sh_FileSize (scanShare r) = r_file_size r"
  by (simp_all add: scanShare_def)

lemma stored_share_simps [simp]:
  "sh_Slug (stored_share d s) = sh_Slug s" "sh_StorageKey (stored_share d s) = sh_StorageKey s"
  "sh_ShareCount (stored_share d s) = sh_ShareCount s"
  "sh_CodeHash (stored_share d s) = sh_CodeHash s" "sh_CodeSalt (stored_share d s) = sh_CodeSalt s"
  "sh_CreatedAt (stored_share d s) = pg_ts (sh_CreatedAt s)"
  "sh_ExpiresAt (stored_share d s) = pg_ts (sh_ExpiresAt s)"
  "sh_FileName (stored_share d s) = sh_FileName s" "sh_FileSize (stored_share d s) = sh_FileSize s"
  by (simp_all add: stored_share_def share_values_def)

lemma same_tables_view:
  assumes "same_tables d d'"
  shows "share_view d' = share_view d" "db_ok d' = db_ok d" "stored_share d' s = stored_share d s"
    "owns_share d' owner s = owns_share d owner s" "owner_column d' s = owner_column d s"
proof -
  have "uuid_arg d' = uuid_arg d"
    unfolding uuid_arg_def same_tablesD(5) [OF assms] ..
  with same_tablesD [OF assms] show "share_view d' = share_view d" "db_ok d' = db_ok d"
    "stored_share d' s = stored_share d s" "owns_share d' owner s = owns_share d owner s"
    "owner_column d' s = owner_column d s"
    by (simp_all add: share_view_def db_ok_def stored_share_def owner_column_def owns_share_def)
qed

lemma rows_view_simps [simp]:
  "rows_view [] = Map.empty"
  "rows_view (r # rs) = (rows_view rs)(r_slug r \<mapsto> scanShare r)"
  by (simp_all add: rows_view_def)

lemma rows_view_None: "rows_view rs slug = None \<longleftrightarrow> slug \<notin> set (map r_slug rs)"
  by (induction rs) auto

lemma rows_view_SomeD: "rows_view rs slug = Some s \<Longrightarrow> \<exists>r \<in> set rs. r_slug r = slug \<and> s = scanShare r"
  by (induction rs) (auto split: if_splits)

lemma rows_view_SomeI:
  "distinct (map r_slug rs) \<Longrightarrow> r \<in> set rs \<Longrightarrow> rows_view rs (r_slug r) = Some (scanShare r)"
  by (induction rs) (auto simp: image_iff)

lemma rows_view_snoc:
  "r_slug r \<notin> set (map r_slug rs) \<Longrightarrow> rows_view (rs @ [r]) = (rows_view rs)(r_slug r \<mapsto> scanShare r)"
  by (induction rs) (auto simp: fun_upd_twist)

lemma rows_view_filter:
  "distinct (map r_slug rs) \<Longrightarrow>
   rows_view (filter p rs) slug =
     (case rows_view rs slug of None \<Rightarrow> None
      | Some s \<Rightarrow> if \<exists>r \<in> set rs. r_slug r = slug \<and> p r then Some s else None)"
proof (induction rs)
  case (Cons r rs)
  then have "r_slug r = slug \<Longrightarrow> rows_view rs slug = None" by (auto simp: rows_view_None)
  with Cons show ?case by (auto split: option.splits dest: rows_view_SomeD simp: image_iff)
qed simp

definition update_row :: "share \<Rightarrow> share_row \<Rightarrow> share_row" where
  "update_row sh r = (if r_slug r = sh_Slug sh
     then r\<lparr>r_code_hash := sh_CodeHash sh, r_code_salt := sh_CodeSalt sh,
            r_expires_at := pg_ts (sh_ExpiresAt sh), r_share_count := sh_ShareCount sh,
            r_recipient_email := nullable (sh_RecipientEmail sh)\<rparr>
     else r)"

lemma update_row_simps [simp]:
  "r_slug (update_row sh r) = r_slug r" "r_storage_key (update_row sh r) = r_storage_key r"
  "r_owner_id (update_row sh r) = r_owner_id r" "r_created_at (update_row sh r) = r_created_at r"
  by (simp_all add: update_row_def)

lemma scan_update_row:
  "scanShare (update_row sh r) =
     (if r_slug r = sh_Slug sh then rotated (scanShare r) sh (pg_ts (sh_ExpiresAt sh)) else scanShare r)"
  by (simp add: update_row_def scanShare_def rotated_def)

lemma sql_update_share_eq:
  "sql_update_share sh d =
     (Inr (length (filter (\<lambda>r. r_slug r = sh_Slug sh) (shares_t d))),
      d\<lparr>shares_t := map (update_row sh) (shares_t d)\<rparr>)"
  by (simp add: sql_update_share_def update_row_def)

lemma rows_view_update:
  "rows_view (map (update_row sh) rs) slug =
     (if slug = sh_Slug sh
      then map_option (\<lambda>old. rotated old sh (pg_ts (sh_ExpiresAt sh))) (rows_view rs slug)
      else rows_view rs slug)"
  by (induction rs) (auto simp: scan_update_row)

lemma db_ok_shares:
  "db_ok d \<Longrightarrow> distinct (map r_slug rs) \<Longrightarrow> distinct (map r_storage_key rs) \<Longrightarrow>
   db_ok (d\<lparr>shares_t := rs\<rparr>)"
  by (simp add: db_ok_def)

subsection \<open>Effects of the statements\<close>

lemma sql_insert_share_effect:
  assumes "db_ok d" "sql_insert_share sh d = (r, d')"
  shows "db_ok d' \<and>
    (case r of
       Inl e \<Rightarrow> d' = d
     | Inr n \<Rightarrow> share_view d (sh_Slug sh) = None
         \<and> (\<forall>slug s. share_view d slug = Some s \<longrightarrow> sh_StorageKey s \<noteq> sh_StorageKey sh)
         \<and> (if sh_OwnerID sh = [] then sh_OwnerID (stored_share d sh) = []
            else owns_share d (sh_OwnerID sh) (stored_share d sh))
         \<and> share_view d' = (share_view d)(sh_Slug sh \<mapsto> stored_share d sh))"
proof (cases r)
  case (Inl e)
  with assms show ?thesis
    by (auto simp: sql_insert_share_def split: sum.splits if_splits)
next
  case (Inr n)
  with assms(2) have new: "sh_Slug sh \<notin> set (map r_slug (shares_t d))"
      "sh_StorageKey sh \<notin> set (map r_storage_key (shares_t d))"
    and d': "d' = d\<lparr>shares_t := shares_t d @ [share_values (owner_column d sh) sh]\<rparr>"
    by (auto simp: sql_insert_share_def owner_column_def split: sum.splits if_splits)
  from assms(1) new d' have "db_ok d'"
    by (auto simp: db_ok_def share_values_def)
  moreover from new(1) d' have "share_view d' = (share_view d)(sh_Slug sh \<mapsto> stored_share d sh)"
    using rows_view_snoc [of "share_values (owner_column d sh) sh" "shares_t d"]
    by (simp add: share_view_def stored_share_def share_values_def)
  moreover from new have "share_view d (sh_Slug sh) = None"
    by (simp add: share_view_def rows_view_None)
  moreover from new(2) have "sh_StorageKey s \<noteq> sh_StorageKey sh" if "share_view d slug = Some s" for slug s
    using that by (auto simp: share_view_def image_iff dest!: rows_view_SomeD)
  moreover from assms(2) Inr have "uuid_arg d (nullable (sh_OwnerID sh)) = Inr (owner_column d sh)"
    by (auto simp: sql_insert_share_def owner_column_def split: sum.splits)
  then have "if sh_OwnerID sh = [] then sh_OwnerID (stored_share d sh) = []
            else owns_share d (sh_OwnerID sh) (stored_share d sh)"
    by (auto simp: uuid_arg_def nullable_def owns_share_def stored_share_def share_values_def
        from_null_def split: option.splits)
  ultimately show ?thesis using Inr by simp
qed

lemma sql_update_share_effect:
  assumes "db_ok d" "sql_update_share sh d = (r, d')"
  shows "db_ok d' \<and> (\<exists>n. r = Inr n \<and> (n = 0 \<longleftrightarrow> share_view d (sh_Slug sh) = None)) \<and>
    share_view d' = (share_view d)(sh_Slug sh :=
      map_option (\<lambda>old. rotated old sh (pg_ts (sh_ExpiresAt sh))) (share_view d (sh_Slug sh)))"
proof -
  from assms(2) have d': "d' = d\<lparr>shares_t := map (update_row sh) (shares_t d)\<rparr>"
    and r: "r = Inr (length (filter (\<lambda>r. r_slug r = sh_Slug sh) (shares_t d)))"
    by (auto simp: sql_update_share_eq)
  from assms(1) d' have "db_ok d'" by (simp add: db_ok_def o_def)
  moreover have "length (filter (\<lambda>r. r_slug r = sh_Slug sh) (shares_t d)) = 0
      \<longleftrightarrow> share_view d (sh_Slug sh) = None"
    by (auto simp: share_view_def rows_view_None filter_empty_conv image_iff)
  ultimately show ?thesis
    using d' r by (auto simp: share_view_def rows_view_update)
qed

lemma sql_delete_shares_effect:
  assumes "db_ok d" "sql_delete_shares p d = (r, d')"
  shows "db_ok d' \<and> r = Inr (filter p (shares_t d)) \<and> uploads_t d' = uploads_t d \<and>
    (\<forall>slug. share_view d' slug =
      (case share_view d slug of None \<Rightarrow> None
       | Some s \<Rightarrow> if \<exists>r \<in> set (shares_t d). r_slug r = slug \<and> p r then None else Some s))"
proof -
  from assms have d': "d' = d\<lparr>shares_t := filter (\<lambda>r. \<not> p r) (shares_t d)\<rparr>"
    and r: "r = Inr (filter p (shares_t d))" and dist: "distinct (map r_slug (shares_t d))"
    by (auto simp: sql_delete_shares_def db_ok_def)
  have one: "(\<exists>r \<in> set (shares_t d). r_slug r = slug \<and> \<not> p r)
      \<longleftrightarrow> \<not> (\<exists>r \<in> set (shares_t d). r_slug r = slug \<and> p r)"
    if "share_view d slug = Some s" for slug s
    using that dist rows_view_SomeD [of "shares_t d" slug s]
    by (auto simp: share_view_def distinct_map inj_on_def)
  from assms(1) d' have "db_ok d'"
    by (auto simp: db_ok_def distinct_map_filter)
  with d' r dist one show ?thesis
    by (auto simp: share_view_def rows_view_filter split: option.splits)
qed

lemma sql_delete_one:
  assumes "db_ok d" "sql_delete_shares (\<lambda>r. r_slug r = slug \<and> q r) d = (Inr rows, d')"
  shows "if rows = [] then share_view d' = share_view d
    else \<exists>r \<in> set (shares_t d). r_slug r = slug \<and> q r
      \<and> share_view d slug = Some (scanShare r) \<and> share_view d' = (share_view d)(slug := None)"
proof -
  from sql_delete_shares_effect [OF assms]
  have rows: "rows = filter (\<lambda>r. r_slug r = slug \<and> q r) (shares_t d)"
    and v: "\<And>a. share_view d' a = (case share_view d a of None \<Rightarrow> None
       | Some s \<Rightarrow> if \<exists>r \<in> set (shares_t d). r_slug r = a \<and> r_slug r = slug \<and> q r then None else Some s)"
    by simp_all
  show ?thesis
  proof (cases "rows = []")
    case True
    then have "\<forall>r \<in> set (shares_t d). \<not> (r_slug r = slug \<and> q r)"
      unfolding rows filter_empty_conv .
    then have none: "(\<exists>r \<in> set (shares_t d). r_slug r = a \<and> r_slug r = slug \<and> q r) = False" for a
      by blast
    have "share_view d' a = share_view d a" for a
      unfolding v [of a] none by (simp split: option.split)
    with True show ?thesis by (simp add: fun_eq_iff)
  next
    case False
    with rows obtain r where r: "r \<in> set (shares_t d)" "r_slug r = slug" "q r"
      by (metis (mono_tags, lifting) filter_empty_conv)
    with assms(1) have "share_view d slug = Some (scanShare r)"
      using rows_view_SomeI [of "shares_t d" r] by (simp add: share_view_def db_ok_def)
    moreover have "share_view d' a = ((share_view d)(slug := None)) a" for a
    proof (cases "a = slug")
      case True
      with r have "\<exists>r \<in> set (shares_t d). r_slug r = a \<and> r_slug r = slug \<and> q r" by blast
      with True v [of a] show ?thesis by (simp split: option.splits)
    next
      case False
      then have none: "(\<exists>r \<in> set (shares_t d). r_slug r = a \<and> r_slug r = slug \<and> q r) = False"
        by blast
      show ?thesis unfolding v [of a] none using False by (simp split: option.split)
    qed
    ultimately show ?thesis using False r by (auto simp: fun_eq_iff)
  qed
qed

subsection \<open>The methods keep the contract\<close>

lemma get_share_effect:
  assumes "db_ok d" "get_share fmt p d = (r, d')"
  shows "db_ok d' \<and> share_view d' = share_view d \<and>
    (case r of
       Inr s \<Rightarrow> \<exists>row \<in> set (shares_t d). p row \<and> s = scanShare row \<and> share_view d (sh_Slug s) = Some s
     | Inl e \<Rightarrow> errors_is e ErrNotFound \<longrightarrow> (\<forall>row \<in> set (shares_t d). \<not> p row))"
proof -
  obtain x d2 where q: "db_QueryRow (sql_select_shares p) d = (x, d2)" by fastforce
  with assms(2) have d2: "d2 = d'" by (auto simp: get_share_def split: sum.splits)
  show ?thesis
    using q
  proof (cases rule: db_QueryRow_cases)
    case (found d1 row rows)
    then have f: "filter p (shares_t d1) = row # rows" and [simp]: "d' = d1"
      using d2 by (auto simp: sql_select_shares_def)
    have "row \<in> set (filter p (shares_t d1))" unfolding f by simp
    with same_tablesD(1) [OF found(1)] have row: "row \<in> set (shares_t d)" "p row" by auto
    with assms(1) have "share_view d (r_slug row) = Some (scanShare row)"
      by (simp add: db_ok_def share_view_def rows_view_SomeI)
    with row found q assms d2 same_tables_view [OF found(1)] show ?thesis
      by (auto simp: get_share_def)
  next
    case (absent d1)
    then have "filter p (shares_t d1) = []" and [simp]: "d' = d1"
      using d2 by (auto simp: sql_select_shares_def)
    with same_tablesD(1) [OF absent(1)] have "\<forall>row \<in> set (shares_t d). \<not> p row"
      by (simp add: filter_empty_conv)
    with absent q assms d2 same_tables_view [OF absent(1)] show ?thesis
      by (auto simp: get_share_def)
  next
    case (failed d1 e)
    then show ?thesis by (simp add: sql_select_shares_def)
  next
    case (lost d1 x m)
    then have "d' = d1" using d2 by (simp add: sql_select_shares_def)
    with lost q assms same_tables_view [OF lost(1)] show ?thesis
      by (auto simp: get_share_def)
  next
    case (refused m)
    with q assms d2 same_tables_view [of d d'] show ?thesis
      by (auto simp: get_share_def)
  qed
qed

lemma ShareStore_GetBySlug_effect:
  assumes "db_ok d" "ShareStore_GetBySlug slug d = (r, d')"
  shows "db_ok d' \<and> share_view d' = share_view d \<and>
    (case r of Inr s \<Rightarrow> share_view d slug = Some s
     | Inl e \<Rightarrow> errors_is e ErrNotFound \<longrightarrow> share_view d slug = None)"
  using get_share_effect [OF assms(1) assms(2) [unfolded ShareStore_GetBySlug_def]]
  by (auto simp: share_view_def rows_view_None split: sum.splits)

lemma ShareStore_GetByStorageKey_effect:
  assumes "db_ok d" "ShareStore_GetByStorageKey key d = (r, d')"
  shows "db_ok d' \<and> share_view d' = share_view d \<and>
    (case r of Inr s \<Rightarrow> share_view d (sh_Slug s) = Some s \<and> sh_StorageKey s = key
     | Inl e \<Rightarrow> errors_is e ErrNotFound \<longrightarrow>
         (\<forall>slug s. share_view d slug = Some s \<longrightarrow> sh_StorageKey s \<noteq> key))"
  using get_share_effect [OF assms(1) assms(2) [unfolded ShareStore_GetByStorageKey_def]]
    rows_view_SomeD [of "shares_t d"]
  by (cases r) (fastforce simp: share_view_def)+

lemma ShareStore_Create_effect:
  assumes "db_ok d" "ShareStore_Create sh d = (r, d')"
  shows "db_ok d' \<and>
    (share_view d' = share_view d \<and> r \<noteq> None \<or>
     share_view d (sh_Slug sh) = None \<and>
     (\<forall>slug t. share_view d slug = Some t \<longrightarrow> sh_StorageKey t \<noteq> sh_StorageKey sh) \<and>
     (if sh_OwnerID sh = [] then sh_OwnerID (stored_share d sh) = []
      else owns_share d (sh_OwnerID sh) (stored_share d sh)) \<and>
     share_view d' = (share_view d)(sh_Slug sh \<mapsto> stored_share d sh))"
proof -
  obtain x where q: "db_Exec (sql_insert_share sh) d = (x, d')"
    and r: "r = None \<longleftrightarrow> (\<exists>n. x = Inr n)"
    using assms(2) by (auto simp: ShareStore_Create_def split: prod.splits sum.splits)
  show ?thesis
    using q
  proof (cases rule: db_Exec_cases)
    case (ran d1)
    from sql_insert_share_effect [of d1 sh x d'] ran assms(1) r same_tables_view [OF ran(1)]
    show ?thesis by (cases x) auto
  next
    case (lost d1 m y)
    from sql_insert_share_effect [of d1 sh y d'] lost assms(1) r same_tables_view [OF lost(1)]
    show ?thesis by (cases y) auto
  next
    case (refused m)
    with r assms(1) same_tables_view [OF refused(1)] show ?thesis by auto
  qed
qed

lemma ShareStore_RotateCode_effect:
  assumes "db_ok d" "ShareStore_RotateCode sh d = (r, d')"
  shows "db_ok d' \<and>
    (share_view d' = share_view d \<and> r \<noteq> None \<or>
     (\<exists>old. share_view d (sh_Slug sh) = Some old \<and>
        share_view d' = (share_view d)(sh_Slug sh \<mapsto> rotated old sh (pg_ts (sh_ExpiresAt sh)))))"
proof -
  obtain x where q: "db_Exec (sql_update_share sh) d = (x, d')"
    and r: "r = None \<longleftrightarrow> (\<exists>n. x = Inr n \<and> n \<noteq> 0)"
    using assms(2) by (auto simp: ShareStore_RotateCode_def split: prod.splits sum.splits if_splits)
  have noop: "(share_view d)(sh_Slug sh := None) = share_view d" if "share_view d (sh_Slug sh) = None"
    using that by (simp add: fun_upd_idem)
  show ?thesis
    using q
  proof (cases rule: db_Exec_cases)
    case (ran d1)
    from sql_update_share_effect [of d1 sh x d'] ran assms(1) r noop same_tables_view [OF ran(1)]
    show ?thesis by (cases "share_view d (sh_Slug sh)") auto
  next
    case (lost d1 m y)
    from sql_update_share_effect [of d1 sh y d'] lost assms(1) r noop same_tables_view [OF lost(1)]
    show ?thesis by (cases "share_view d (sh_Slug sh)") auto
  next
    case (refused m)
    with r assms(1) same_tables_view [OF refused(1)] show ?thesis by auto
  qed
qed

lemma owned_row:
  assumes "uuid_arg d (Some owner) = Inr v" "r_owner_id r = v"
  shows "owns_share d owner (scanShare r)"
proof (cases "uuid_in d owner")
  case (Some u)
  with assms have "r_owner_id r = Some u" by (simp add: uuid_arg_def)
  with Some show ?thesis by (simp add: owns_share_def from_null_def)
qed (use assms in \<open>simp add: uuid_arg_def\<close>)

lemma sql_delete_owned_effect:
  assumes "db_ok d" "sql_delete_owned slug owner d = (r, d')"
  shows "db_ok d' \<and>
    (share_view d' = share_view d \<and> (\<forall>rows. r = Inr rows \<longrightarrow> rows = []) \<or>
     (\<exists>s. share_view d slug = Some s \<and> owns_share d owner s
        \<and> share_view d' = (share_view d)(slug := None)))"
proof (cases "uuid_arg d (Some owner)")
  case (Inl e)
  with assms show ?thesis by (auto simp: sql_delete_owned_def)
next
  case (Inr v)
  with assms(2) have del: "sql_delete_shares (\<lambda>r. r_slug r = slug \<and> r_owner_id r = v) d = (r, d')"
    by (simp add: sql_delete_owned_def)
  from sql_delete_shares_effect [OF assms(1) del] obtain rows where "db_ok d'" "r = Inr rows" by auto
  with sql_delete_one [OF assms(1)] del owned_row [OF Inr] show ?thesis
    by (cases "rows = []") fastforce+
qed

lemma ShareStore_Delete_effect:
  assumes "db_ok d" "ShareStore_Delete slug owner d = (r, d')"
  shows "db_ok d' \<and>
    (share_view d' = share_view d \<and> r \<noteq> None \<or>
     (\<exists>s. share_view d slug = Some s \<and> owns_share d owner s
        \<and> share_view d' = (share_view d)(slug := None)))"
proof -
  obtain x where q: "db_Exec (affected (sql_delete_owned slug owner)) d = (x, d')"
    and r: "r = None \<longleftrightarrow> (\<exists>n. x = Inr n \<and> n \<noteq> 0)"
    using assms(2) by (auto simp: ShareStore_Delete_def split: prod.splits sum.splits if_splits)
  have step: "db_ok d' \<and>
    (share_view d' = share_view d \<and> (\<forall>n. y = Inr n \<longrightarrow> n = 0) \<or>
     (\<exists>s. share_view d slug = Some s \<and> owns_share d owner s
        \<and> share_view d' = (share_view d)(slug := None)))"
    if st: "same_tables d d1" and af: "affected (sql_delete_owned slug owner) d1 = (y, d')" for d1 y
  proof -
    obtain z where "sql_delete_owned slug owner d1 = (z, d')"
      and "\<forall>n. y = Inr n \<longrightarrow> (\<exists>rows. z = Inr rows \<and> n = length rows)"
      using af by (auto simp: affected_def split: prod.splits sum.splits)
    with sql_delete_owned_effect [of d1 slug owner z d'] assms(1) same_tables_view [OF st]
    show ?thesis by fastforce
  qed
  show ?thesis
    using q
  proof (cases rule: db_Exec_cases)
    case (ran d1)
    from step [OF ran] r show ?thesis by auto
  next
    case (lost d1 m y)
    from step [OF lost(1,2)] r lost(3) show ?thesis by auto
  next
    case (refused m)
    with r assms(1) same_tables_view [OF refused(1)] show ?thesis by auto
  qed
qed

lemma ShareStore_ListByOwner_effect:
  assumes "db_ok d" "ShareStore_ListByOwner owner d = ((l, e), d')"
  shows "db_ok d' \<and> share_view d' = share_view d
    \<and> (\<forall>s \<in> set l. share_view d (sh_Slug s) = Some s \<and> owns_share d owner s)"
proof -
  obtain x where q: "db_Query (sql_select_by_owner owner) d = (x, d')"
    and l: "\<forall>rows err. x = Inr (rows, err) \<longrightarrow> l = map scanShare rows" "\<forall>e. x = Inl e \<longrightarrow> l = []"
    using assms(2) by (auto simp: ShareStore_ListByOwner_def scanShares_def split: prod.splits sum.splits)
  have step: "d' = d1 \<and> (\<forall>row \<in> set rows. row \<in> set (shares_t d) \<and> owns_share d owner (scanShare row))"
    if "same_tables d d1" "sql_select_by_owner owner d1 = (Inr rows, d')" for d1 rows
    using that owned_row [of d1 owner] same_tablesD(1) [OF that(1)] same_tables_view(4) [OF that(1)]
    by (auto simp: sql_select_by_owner_def split: sum.splits)
  have view: "share_view d (sh_Slug (scanShare row)) = Some (scanShare row)"
    if "row \<in> set (shares_t d)" for row
    using that assms(1) by (simp add: db_ok_def share_view_def rows_view_SomeI)
  show ?thesis
    using q
  proof (cases rule: db_Query_cases)
    case (ran d1 rows)
    with step [OF ran(1,2)] l view assms(1) same_tables_view [OF ran(1)] show ?thesis by auto
  next
    case (lost d1 rows k m)
    with step [OF lost(1,2)] l(1) have "d' = d1" "l = map scanShare (take k rows)"
      "\<forall>row \<in> set (take k rows). row \<in> set (shares_t d) \<and> owns_share d owner (scanShare row)"
      by (auto dest: in_set_takeD)
    with view assms(1) same_tables_view [OF lost(1)] show ?thesis by auto
  next
    case (failed d1 e)
    then have "d' = d1" by (auto simp: sql_select_by_owner_def split: sum.splits)
    with failed l(2) assms(1) same_tables_view [OF failed(1)] show ?thesis by auto
  next
    case (refused m)
    with l(2) assms(1) same_tables_view [OF refused(1)] show ?thesis by auto
  qed
qed

lemma share_view_key:
  assumes "db_ok d" "share_view d a = Some s" "share_view d b = Some t"
    "sh_StorageKey s = sh_StorageKey t"
  shows "a = b"
proof -
  from rows_view_SomeD assms(2,3) obtain p q
    where "p \<in> set (shares_t d)" "r_slug p = a" "s = scanShare p"
      "q \<in> set (shares_t d)" "r_slug q = b" "t = scanShare q"
    unfolding share_view_def by metis
  moreover from this assms(1,4) have "p = q"
    by (auto simp: db_ok_def distinct_map dest: inj_onD)
  ultimately show ?thesis by simp
qed

text \<open>
  The handlers see the database next to the object store's state \<open>'s\<close>; a store method
  touches its own half.
\<close>

definition on_db :: "(db \<Rightarrow> 'a \<times> db) \<Rightarrow> db \<times> 's \<Rightarrow> 'a \<times> (db \<times> 's)" where
  "on_db f w = (case f (fst w) of (x, d) \<Rightarrow> (x, (d, snd w)))"

lemma on_db_eq: "on_db f w = (x, w') \<longleftrightarrow> f (fst w) = (x, fst w') \<and> snd w' = snd w"
  by (cases w') (auto simp: on_db_def split: prod.splits)

definition db_share_store :: "(db \<times> 's) share_store" where
  "db_share_store =
     \<lparr>ss_Create = \<lambda>sh. on_db (ShareStore_Create sh),
      ss_GetBySlug = \<lambda>slug. on_db (ShareStore_GetBySlug slug),
      ss_GetByStorageKey = \<lambda>key. on_db (ShareStore_GetByStorageKey key),
      ss_RotateCode = \<lambda>sh. on_db (ShareStore_RotateCode sh),
      ss_ListByOwner = \<lambda>owner. on_db (ShareStore_ListByOwner owner),
      ss_Delete = \<lambda>slug owner. on_db (ShareStore_Delete slug owner)\<rparr>"

lemma db_share_storeD:
  "ss_Create db_share_store sh w = (e, w') \<Longrightarrow> ShareStore_Create sh (fst w) = (e, fst w')"
  "ss_GetBySlug db_share_store slug w = (g, w') \<Longrightarrow> ShareStore_GetBySlug slug (fst w) = (g, fst w')"
  "ss_GetByStorageKey db_share_store key w = (g, w') \<Longrightarrow>
     ShareStore_GetByStorageKey key (fst w) = (g, fst w')"
  "ss_RotateCode db_share_store sh w = (e, w') \<Longrightarrow> ShareStore_RotateCode sh (fst w) = (e, fst w')"
  "ss_Delete db_share_store slug owner w = (e, w') \<Longrightarrow>
     ShareStore_Delete slug owner (fst w) = (e, fst w')"
  "ss_ListByOwner db_share_store owner w = (l, w') \<Longrightarrow>
     ShareStore_ListByOwner owner (fst w) = (l, fst w')"
  by (simp_all add: db_share_store_def on_db_eq)

text \<open>
  No store operation changes how Postgres reads a UUID, so ownership and stored form are
  those of the initial state \<open>d0\<close>.
\<close>

lemma uuid_frame [frame]:
  "ShareStore_Create sh d = (e, d') \<Longrightarrow> uuid_in d' = uuid_in d"
  "ShareStore_GetBySlug slug d = (g, d') \<Longrightarrow> uuid_in d' = uuid_in d"
  "ShareStore_GetByStorageKey key d = (g, d') \<Longrightarrow> uuid_in d' = uuid_in d"
  "ShareStore_RotateCode sh d = (e, d') \<Longrightarrow> uuid_in d' = uuid_in d"
  "ShareStore_Delete slug owner d = (e, d') \<Longrightarrow> uuid_in d' = uuid_in d"
  "ShareStore_ListByOwner owner d = (l, d') \<Longrightarrow> uuid_in d' = uuid_in d"
proof -
  have stmts:
    "sql_insert_share sh d = (x, d') \<Longrightarrow> uuid_in d' = uuid_in d"
    "sql_select_shares p d = (y, d') \<Longrightarrow> uuid_in d' = uuid_in d"
    "sql_update_share sh d = (x, d') \<Longrightarrow> uuid_in d' = uuid_in d"
    "affected (sql_delete_owned slug owner) d = (x, d') \<Longrightarrow> uuid_in d' = uuid_in d"
    "sql_select_by_owner owner d = (y, d') \<Longrightarrow> uuid_in d' = uuid_in d" for x y p d d'
    by (auto simp: sql_insert_share_def sql_select_shares_def sql_update_share_def affected_def
        sql_delete_owned_def sql_delete_shares_def sql_select_by_owner_def
        split: sum.splits if_splits)
  show "ShareStore_Create sh d = (e, d') \<Longrightarrow> uuid_in d' = uuid_in d"
    using db_Exec_uuid [OF stmts(1)] by (fastforce simp: ShareStore_Create_def split: prod.splits sum.splits)
  show "ShareStore_RotateCode sh d = (e, d') \<Longrightarrow> uuid_in d' = uuid_in d"
    using db_Exec_uuid [OF stmts(3)] by (fastforce simp: ShareStore_RotateCode_def split: prod.splits sum.splits)
  show "ShareStore_Delete slug owner d = (e, d') \<Longrightarrow> uuid_in d' = uuid_in d"
    using db_Exec_uuid [OF stmts(4)] by (fastforce simp: ShareStore_Delete_def split: prod.splits sum.splits)
  show "ShareStore_ListByOwner owner d = (l, d') \<Longrightarrow> uuid_in d' = uuid_in d"
    using db_Query_uuid [OF stmts(5)] by (fastforce simp: ShareStore_ListByOwner_def split: prod.splits sum.splits)
  show "ShareStore_GetBySlug slug d = (g, d') \<Longrightarrow> uuid_in d' = uuid_in d"
    "ShareStore_GetByStorageKey key d = (g, d') \<Longrightarrow> uuid_in d' = uuid_in d"
    using db_QueryRow_uuid [OF stmts(2)]
    by (fastforce simp: ShareStore_GetBySlug_def ShareStore_GetByStorageKey_def get_share_def
        split: prod.splits sum.splits)+
qed

lemma stored_share_cong:
  "uuid_in d = uuid_in d' \<Longrightarrow> stored_share d = stored_share d'"
  "uuid_in d = uuid_in d' \<Longrightarrow> owns_share d = owns_share d'"
proof -
  assume "uuid_in d = uuid_in d'"
  then have "uuid_arg d = uuid_arg d'" unfolding uuid_arg_def [abs_def] by simp
  then show "stored_share d = stored_share d'"
    unfolding stored_share_def [abs_def] owner_column_def by simp
  show "owns_share d = owns_share d'"
    unfolding owns_share_def [abs_def] using \<open>uuid_in d = uuid_in d'\<close> by simp
qed

definition db_state_ok :: "db \<Rightarrow> db \<Rightarrow> bool" where
  "db_state_ok d0 d \<longleftrightarrow> db_ok d \<and> uuid_in d = uuid_in d0"

interpretation pg: share_store_contract
  db_share_store "\<lambda>w. db_state_ok d0 (fst w)" "\<lambda>w. share_view (fst w)" "stored_share d0"
  "owns_share d0" pg_ts
  for d0
proof unfold_locales
  fix w :: "db \<times> 's" and w' slug s a b t sh r g l owner key x
  assume "db_state_ok d0 (fst w)"
  then have ok: "db_ok (fst w)" and u: "uuid_in (fst w) = uuid_in d0"
    by (simp_all add: db_state_ok_def)
  note same = stored_share_cong [OF u, symmetric] db_state_ok_def u
  show "sh_Slug s = slug" if "share_view (fst w) slug = Some s"
    using that rows_view_SomeD by (fastforce simp: share_view_def)
  show "a = b" if "share_view (fst w) a = Some s" "share_view (fst w) b = Some t"
      "sh_StorageKey s = sh_StorageKey t"
    using share_view_key [OF ok that] .
  show "db_state_ok d0 (fst w') \<and> (share_view (fst w') = share_view (fst w) \<and> r \<noteq> None \<or>
       share_view (fst w) (sh_Slug s) = None \<and>
       (\<forall>slug t. share_view (fst w) slug = Some t \<longrightarrow> sh_StorageKey t \<noteq> sh_StorageKey s) \<and>
       (if sh_OwnerID s = [] then sh_OwnerID (stored_share d0 s) = []
        else owns_share d0 (sh_OwnerID s) (stored_share d0 s)) \<and>
       share_view (fst w') = (share_view (fst w))(sh_Slug s \<mapsto> stored_share d0 s))"
    if "ss_Create db_share_store s w = (r, w')"
    using ShareStore_Create_effect [OF ok db_share_storeD(1) [OF that]]
      uuid_frame(1) [OF db_share_storeD(1) [OF that]] unfolding same by simp
  show "db_state_ok d0 (fst w') \<and> share_view (fst w') = share_view (fst w) \<and>
      (case g of Inr s \<Rightarrow> share_view (fst w) slug = Some s
       | Inl e \<Rightarrow> errors_is e ErrNotFound \<longrightarrow> share_view (fst w) slug = None)"
    if "ss_GetBySlug db_share_store slug w = (g, w')"
    using ShareStore_GetBySlug_effect [OF ok db_share_storeD(2) [OF that]]
      uuid_frame(2) [OF db_share_storeD(2) [OF that]] unfolding same by simp
  show "db_state_ok d0 (fst w') \<and> share_view (fst w') = share_view (fst w) \<and>
      (case g of Inr s \<Rightarrow> share_view (fst w) (sh_Slug s) = Some s \<and> sh_StorageKey s = key
       | Inl e \<Rightarrow> errors_is e ErrNotFound \<longrightarrow>
           (\<forall>slug s. share_view (fst w) slug = Some s \<longrightarrow> sh_StorageKey s \<noteq> key))"
    if "ss_GetByStorageKey db_share_store key w = (g, w')"
    using ShareStore_GetByStorageKey_effect [OF ok db_share_storeD(3) [OF that]]
      uuid_frame(3) [OF db_share_storeD(3) [OF that]] unfolding same by simp
  show "db_state_ok d0 (fst w') \<and> (share_view (fst w') = share_view (fst w) \<and> r \<noteq> None \<or>
       (\<exists>old. share_view (fst w) (sh_Slug s) = Some old \<and>
          share_view (fst w') = (share_view (fst w))(sh_Slug s \<mapsto> rotated old s (pg_ts (sh_ExpiresAt s)))))"
    if "ss_RotateCode db_share_store s w = (r, w')"
    using ShareStore_RotateCode_effect [OF ok db_share_storeD(4) [OF that]]
      uuid_frame(4) [OF db_share_storeD(4) [OF that]] unfolding same by simp
  show "db_state_ok d0 (fst w') \<and> (share_view (fst w') = share_view (fst w) \<and> r \<noteq> None \<or>
       (\<exists>s. share_view (fst w) slug = Some s \<and> owns_share d0 owner s \<and>
          share_view (fst w') = (share_view (fst w))(slug := None)))"
    if "ss_Delete db_share_store slug owner w = (r, w')"
    using ShareStore_Delete_effect [OF ok db_share_storeD(5) [OF that]]
      uuid_frame(5) [OF db_share_storeD(5) [OF that]] unfolding same by simp
  show "db_state_ok d0 (fst w') \<and> share_view (fst w') = share_view (fst w) \<and>
      (\<forall>s \<in> set l. share_view (fst w) (sh_Slug s) = Some s \<and> owns_share d0 owner s)"
    if "ss_ListByOwner db_share_store owner w = ((l, r), w')"
    using ShareStore_ListByOwner_effect [OF ok db_share_storeD(6) [OF that]]
      uuid_frame(6) [OF db_share_storeD(6) [OF that]] unfolding same by simp
qed (simp_all add: pg_ts_bounds)

end
