(* ===== verification/UploadStore.thy ===== *)
theory UploadStore
  imports ShareStore
begin

section \<open>internal/store/uploads.go and internal/audit: uploads, audit trail, job history\<close>

text \<open>
  The upload rows the retention worker works on (\<open>store/uploads.go\<close>), the audit trail and
  the job history (\<open>audit/audit.go\<close>), on the same database state. JSON marshalling of an
  audit detail cannot fail for the snapshot types the code passes.
\<close>

subsection \<open>Uploads\<close>

definition upload_values :: "string option \<Rightarrow> upload \<Rightarrow> upload_row" where
  "upload_values owner up =
     \<lparr>u_storage_key = up_StorageKey up, u_owner_id = owner, u_file_name = up_FileName up,
      u_size_bytes = up_SizeBytes up, u_created_at = pg_ts (up_CreatedAt up),
      u_delete_attempts = 0, u_last_delete_error = None\<rparr>"

definition sql_insert_upload :: "upload \<Rightarrow> nat statement" where
  "sql_insert_upload up d =
     (case uuid_arg d (nullable (up_OwnerID up)) of
        Inl e \<Rightarrow> (Inl e, d)
      | Inr owner \<Rightarrow>
          if up_StorageKey up \<in> set (map u_storage_key (uploads_t d)) then (Inr 0, d)
          else (Inr 1, d\<lparr>uploads_t := uploads_t d @ [upload_values owner up]\<rparr>))"

definition past_window :: "time \<Rightarrow> time \<Rightarrow> upload_row \<Rightarrow> bool" where
  "past_window anonBefore ownedBefore r \<longleftrightarrow>
     (u_owner_id r = None \<and> u_created_at r < pg_ts anonBefore)
     \<or> (u_owner_id r \<noteq> None \<and> u_created_at r < pg_ts ownedBefore)"

definition sql_select_expired_uploads :: "time \<Rightarrow> time \<Rightarrow> nat \<Rightarrow> upload_row list statement" where
  "sql_select_expired_uploads anonBefore ownedBefore limit d =
     (Inr (take limit (sort_key u_created_at
        (filter (past_window anonBefore ownedBefore) (uploads_t d)))), d)"

definition sql_delete_upload :: "string \<Rightarrow> nat statement" where
  "sql_delete_upload key d =
     (Inr (length (filter (\<lambda>r. u_storage_key r = key) (uploads_t d))),
      d\<lparr>uploads_t := filter (\<lambda>r. u_storage_key r \<noteq> key) (uploads_t d)\<rparr>)"

definition sql_mark_failed :: "string \<Rightarrow> goerr \<Rightarrow> nat statement" where
  "sql_mark_failed key msg d =
     (Inr (length (filter (\<lambda>r. u_storage_key r = key) (uploads_t d))),
      d\<lparr>uploads_t := map (\<lambda>r. if u_storage_key r = key
          then r\<lparr>u_delete_attempts := u_delete_attempts r + 1, u_last_delete_error := Some msg\<rparr>
          else r) (uploads_t d)\<rparr>)"

definition scanUpload :: "upload_row \<Rightarrow> upload" where
  "scanUpload r =
     \<lparr>up_StorageKey = u_storage_key r, up_OwnerID = from_null (u_owner_id r),
      up_FileName = u_file_name r, up_SizeBytes = u_size_bytes r,
      up_CreatedAt = u_created_at r, up_DeleteAttempts = u_delete_attempts r\<rparr>"

definition UploadStore_Create :: "upload \<Rightarrow> db \<Rightarrow> goerr option \<times> db" where
  "UploadStore_Create up d =
     (case db_Exec (sql_insert_upload up) d of
        (Inl e, d') \<Rightarrow> (Some (Wrapped (Sprintf ''insert upload: %w'' []) e), d')
      | (Inr _, d') \<Rightarrow> (None, d'))"

definition UploadStore_ListExpired ::
  "time \<Rightarrow> time \<Rightarrow> nat \<Rightarrow> db \<Rightarrow> (upload list \<times> goerr option) \<times> db" where
  "UploadStore_ListExpired anonBefore ownedBefore limit d =
     (case db_Query (sql_select_expired_uploads anonBefore ownedBefore limit) d of
        (Inl e, d') \<Rightarrow> (([], Some (Wrapped (Sprintf ''list expired uploads: %w'' []) e)), d')
      | (Inr (rows, err), d') \<Rightarrow> ((map scanUpload rows, err), d'))"

definition UploadStore_GetByStorageKey :: "string \<Rightarrow> db \<Rightarrow> (goerr + upload) \<times> db" where
  "UploadStore_GetByStorageKey key d =
     (case db_QueryRow (\<lambda>d. (Inr (filter (\<lambda>r. u_storage_key r = key) (uploads_t d)), d)) d of
        (Inr r, d') \<Rightarrow> (Inr (scanUpload r), d')
      | (Inl e, d') \<Rightarrow>
          (if errors_is e ErrNoRows then Inl ErrNotFound
           else Inl (Wrapped (Sprintf ''get upload: %w'' []) e), d'))"

definition UploadStore_Delete :: "string \<Rightarrow> db \<Rightarrow> goerr option \<times> db" where
  "UploadStore_Delete key d =
     (case db_Exec (sql_delete_upload key) d of
        (Inl e, d') \<Rightarrow> (Some (Wrapped (Sprintf ''delete upload: %w'' []) e), d')
      | (Inr _, d') \<Rightarrow> (None, d'))"

definition UploadStore_MarkDeleteFailed :: "string \<Rightarrow> goerr \<Rightarrow> db \<Rightarrow> goerr option \<times> db" where
  "UploadStore_MarkDeleteFailed key msg d =
     (case db_Exec (sql_mark_failed key msg) d of
        (Inl e, d') \<Rightarrow> (Some (Wrapped (Sprintf ''mark delete failed: %w'' []) e), d')
      | (Inr _, d') \<Rightarrow> (None, d'))"

subsection \<open>Audit trail and job history\<close>

definition sql_insert_audit :: "string \<Rightarrow> string \<Rightarrow> detail option \<Rightarrow> nat statement" where
  "sql_insert_audit action subject detail d =
     (Inr 1, d\<lparr>audit_t := audit_t d @ [\<lparr>a_action = action, a_subject = subject, a_detail = detail\<rparr>]\<rparr>)"

definition DBAuditor_Record :: "string \<Rightarrow> string \<Rightarrow> detail option \<Rightarrow> db \<Rightarrow> goerr option \<times> db" where
  "DBAuditor_Record action subject detail d =
     (case db_Exec (sql_insert_audit action subject detail) d of
        (Inl e, d') \<Rightarrow> (Some (Wrapped (Sprintf ''write audit log: %w'' []) e), d')
      | (Inr _, d') \<Rightarrow> (None, d'))"

definition sql_insert_job_run :: "job_row \<Rightarrow> nat statement" where
  "sql_insert_job_run j d = (Inr 1, d\<lparr>job_runs_t := job_runs_t d @ [j]\<rparr>)"

text \<open>A failure to record is logged and dropped: there is no error result.\<close>

definition DBRunRecorder_Record :: "string \<Rightarrow> time \<Rightarrow> time \<Rightarrow> goerr option \<Rightarrow> db \<Rightarrow> db" where
  "DBRunRecorder_Record job start end runErr d =
     snd (db_Exec (sql_insert_job_run
       \<lparr>j_job = job, j_started_at = pg_ts start, j_finished_at = pg_ts end,
        j_status = (if runErr \<noteq> None then ''error'' else ''ok''), j_error = runErr\<rparr>) d)"

subsection \<open>Effects\<close>

lemma uploads_frame [frame]:
  "sql_insert_upload up d = (r, d') \<Longrightarrow> shares_t d' = shares_t d \<and> audit_t d' = audit_t d"
  "sql_delete_upload key d = (n, d') \<Longrightarrow> shares_t d' = shares_t d \<and> audit_t d' = audit_t d"
  "sql_mark_failed key msg d = (n, d') \<Longrightarrow> shares_t d' = shares_t d \<and> audit_t d' = audit_t d"
  by (auto simp: sql_insert_upload_def sql_delete_upload_def sql_mark_failed_def
      split: sum.splits if_splits)

lemma UploadStore_GetByStorageKey_effect:
  assumes "UploadStore_GetByStorageKey key d = (r, d')"
  shows "same_tables d d' \<and>
    (case r of
       Inr up \<Rightarrow> \<exists>row \<in> set (uploads_t d). u_storage_key row = key \<and> up = scanUpload row
     | Inl e \<Rightarrow> errors_is e ErrNotFound \<longrightarrow> (\<forall>row \<in> set (uploads_t d). u_storage_key row \<noteq> key))"
proof -
  let ?stmt = "\<lambda>d. (Inr (filter (\<lambda>r. u_storage_key r = key) (uploads_t d)) :: goerr + upload_row list, d)"
  obtain x where q: "db_QueryRow ?stmt d = (x, d')"
    using assms by (auto simp: UploadStore_GetByStorageKey_def split: prod.splits sum.splits)
  show ?thesis
    using q
  proof (cases rule: db_QueryRow_cases)
    case (found d1 row rows)
    then have f: "filter (\<lambda>r. u_storage_key r = key) (uploads_t d1) = row # rows" and [simp]: "d' = d1"
      by auto
    have "row \<in> set (filter (\<lambda>r. u_storage_key r = key) (uploads_t d1))" unfolding f by simp
    then have "row \<in> set (uploads_t d1)" "u_storage_key row = key" by simp_all
    with found q assms same_tablesD(2) [OF found(1)] show ?thesis
      by (auto simp: UploadStore_GetByStorageKey_def)
  next
    case (absent d1)
    with q assms same_tablesD(2) [OF absent(1)] show ?thesis
      by (auto simp: UploadStore_GetByStorageKey_def filter_empty_conv)
  qed (use assms q in \<open>auto simp: UploadStore_GetByStorageKey_def\<close>)
qed

lemma sql_insert_upload_cases:
  assumes "sql_insert_upload up d = (r, d')"
  obtains (bad) e where "r = Inl e" "d' = d"
  | (present) "r = Inr 0" "d' = d" "up_StorageKey up \<in> u_storage_key ` set (uploads_t d)"
  | (new) owner where "r = Inr 1" "uuid_arg d (nullable (up_OwnerID up)) = Inr owner"
      "up_StorageKey up \<notin> u_storage_key ` set (uploads_t d)"
      "d' = d\<lparr>uploads_t := uploads_t d @ [upload_values owner up]\<rparr>"
  using assms by (auto simp: sql_insert_upload_def split: sum.splits if_splits)

lemma UploadStore_Create_ok:
  assumes "UploadStore_Create up d = (None, d')"
  shows "\<exists>row \<in> set (uploads_t d'). u_storage_key row = up_StorageKey up
    \<and> (row \<in> set (uploads_t d) \<or>
       (\<exists>owner. uuid_arg d (nullable (up_OwnerID up)) = Inr owner \<and> row = upload_values owner up))"
proof -
  from assms obtain n where q: "db_Exec (sql_insert_upload up) d = (Inr n, d')"
    by (auto simp: UploadStore_Create_def split: prod.splits sum.splits)
  then show ?thesis
  proof (cases rule: db_Exec_cases)
    case (ran d1)
    note t = same_tablesD [OF ran(1)]
    have u: "uuid_arg d1 v = uuid_arg d v" for v unfolding uuid_arg_def t(5) ..
    from ran(2) show ?thesis
    proof (cases rule: sql_insert_upload_cases)
      case present
      with t show ?thesis by auto
    next
      case (new owner)
      then show ?thesis by (auto simp: u upload_values_def)
    qed simp
  qed simp_all
qed

subsection \<open>Effects of the uploads and audit methods, whatever the weather\<close>

lemma UploadStore_Delete_effect:
  assumes "UploadStore_Delete key d = (r, d')"
  shows "shares_t d' = shares_t d \<and> audit_t d' = audit_t d
    \<and> (uploads_t d' = uploads_t d \<and> r \<noteq> None
       \<or> uploads_t d' = filter (\<lambda>u. u_storage_key u \<noteq> key) (uploads_t d))"
proof -
  obtain x where x: "db_Exec (sql_delete_upload key) d = (x, d')" "r = None \<longleftrightarrow> (\<exists>n. x = Inr n)"
    using assms by (auto simp: UploadStore_Delete_def split: prod.splits sum.splits)
  let ?del = "filter (\<lambda>u. u_storage_key u \<noteq> key) (uploads_t d)"
  have "(shares_t d' = shares_t d \<and> audit_t d' = audit_t d
      \<and> (uploads_t d' = uploads_t d \<or> uploads_t d' = ?del))
    \<and> ((\<exists>n. x = Inr n) \<longrightarrow> uploads_t d' = ?del)"
    by (rule db_Exec_effect [OF x(1)]) (auto simp: sql_delete_upload_def dest: same_tablesD)
  with x(2) show ?thesis by auto
qed

definition bump :: "string \<Rightarrow> goerr \<Rightarrow> upload_row \<Rightarrow> upload_row" where
  "bump key msg u = (if u_storage_key u = key
     then u\<lparr>u_delete_attempts := u_delete_attempts u + 1, u_last_delete_error := Some msg\<rparr> else u)"

lemma bump_simps [simp]:
  "u_storage_key (bump key msg u) = u_storage_key u" "u_owner_id (bump key msg u) = u_owner_id u"
  "u_created_at (bump key msg u) = u_created_at u"
  by (simp_all add: bump_def)

lemma UploadStore_MarkDeleteFailed_effect:
  assumes "UploadStore_MarkDeleteFailed key msg d = (r, d')"
  shows "shares_t d' = shares_t d \<and> audit_t d' = audit_t d
    \<and> (uploads_t d' = uploads_t d \<and> r \<noteq> None \<or> uploads_t d' = map (bump key msg) (uploads_t d))"
proof -
  obtain x where x: "db_Exec (sql_mark_failed key msg) d = (x, d')" "r = None \<longleftrightarrow> (\<exists>n. x = Inr n)"
    using assms by (auto simp: UploadStore_MarkDeleteFailed_def split: prod.splits sum.splits)
  let ?up = "map (bump key msg) (uploads_t d)"
  have "(shares_t d' = shares_t d \<and> audit_t d' = audit_t d
      \<and> (uploads_t d' = uploads_t d \<or> uploads_t d' = ?up)) \<and> ((\<exists>n. x = Inr n) \<longrightarrow> uploads_t d' = ?up)"
    by (rule db_Exec_effect [OF x(1)]) (auto simp: sql_mark_failed_def bump_def dest: same_tablesD)
  with x(2) show ?thesis by auto
qed

lemma DBAuditor_Record_effect:
  assumes "DBAuditor_Record action subject detail d = (r, d')"
  shows "shares_t d' = shares_t d \<and> uploads_t d' = uploads_t d
    \<and> (audit_t d' = audit_t d \<and> r \<noteq> None
       \<or> audit_t d' = audit_t d @ [\<lparr>a_action = action, a_subject = subject, a_detail = detail\<rparr>])"
proof -
  obtain x where x: "db_Exec (sql_insert_audit action subject detail) d = (x, d')" "r = None \<longleftrightarrow> (\<exists>n. x = Inr n)"
    using assms by (auto simp: DBAuditor_Record_def split: prod.splits sum.splits)
  let ?up = "audit_t d @ [\<lparr>a_action = action, a_subject = subject, a_detail = detail\<rparr>]"
  have "(shares_t d' = shares_t d \<and> uploads_t d' = uploads_t d
      \<and> (audit_t d' = audit_t d \<or> audit_t d' = ?up)) \<and> ((\<exists>n. x = Inr n) \<longrightarrow> audit_t d' = ?up)"
    by (rule db_Exec_effect [OF x(1)]) (auto simp: sql_insert_audit_def dest: same_tablesD)
  with x(2) show ?thesis by auto
qed

lemma ShareStore_DeleteByStorageKey_effect:
  assumes "ShareStore_DeleteByStorageKey key d = (r, d')"
  shows "uploads_t d' = uploads_t d \<and> audit_t d' = audit_t d
    \<and> (shares_t d' = shares_t d \<and> snd r \<noteq> None
       \<or> shares_t d' = filter (\<lambda>s. r_storage_key s \<noteq> key) (shares_t d))"
proof -
  let ?del = "filter (\<lambda>s. r_storage_key s \<noteq> key) (shares_t d)"
  obtain x where x: "db_Query (sql_delete_shares (\<lambda>s. r_storage_key s = key)) d = (x, d')"
      "snd r = None \<longrightarrow> (\<exists>got. x = Inr (got, None))"
    using assms by (fastforce simp: ShareStore_DeleteByStorageKey_def split: prod.splits sum.splits)
  have "(uploads_t d' = uploads_t d \<and> audit_t d' = audit_t d
      \<and> (shares_t d' = shares_t d \<or> shares_t d' = ?del))
    \<and> (\<forall>got err. x = Inr (got, err) \<longrightarrow> (\<exists>rows. shares_t d' = ?del \<and> (\<exists>k. got = take k rows) \<and> (err = None \<longrightarrow> got = rows)))"
    by (rule db_Query_effect [OF x(1), where R = "\<lambda>rows d2. shares_t d2 = ?del"])
      (auto simp: sql_delete_shares_def dest: same_tablesD)
  with x(2) show ?thesis by auto
qed

lemma UploadStore_ListExpired_effect:
  assumes "UploadStore_ListExpired anonBefore ownedBefore n d = ((l, r), d')"
  shows "same_tables d d' \<and> (\<forall>up \<in> set l. \<exists>u \<in> set (uploads_t d). up = scanUpload u \<and> past_window anonBefore ownedBefore u)"
proof -
  let ?stmt = "sql_select_expired_uploads anonBefore ownedBefore n"
  let ?P = "\<lambda>rows. \<forall>u \<in> set rows. u \<in> set (uploads_t d) \<and> past_window anonBefore ownedBefore u"
  obtain x where x: "db_Query ?stmt d = (x, d')"
      "l = [] \<or> (\<exists>got. x = Inr (got, r) \<and> l = map scanUpload got)"
    using assms by (auto simp: UploadStore_ListExpired_def split: prod.splits sum.splits)
  have "same_tables d d' \<and> (\<forall>got err. x = Inr (got, err) \<longrightarrow>
      (\<exists>rows. ?P rows \<and> (\<exists>k. got = take k rows) \<and> (err = None \<longrightarrow> got = rows)))"
    by (rule db_Query_effect [OF x(1), where R = "\<lambda>rows d2. ?P rows"])
      (auto simp: sql_select_expired_uploads_def dest!: in_set_takeD dest: same_tablesD)
  with x(2) show ?thesis by (fastforce dest: in_set_takeD)
qed

end
