(* ===== verification/ObjectStore.thy ===== *)
theory ObjectStore
  imports UploadStore StorageKey
begin

section \<open>internal/storage/s3.go: the object store client\<close>

text \<open>
  \<open>S3Storage\<close> on top of the AWS SDK. The SDK is not part of the repository: its calls are
  the fields of \<open>s3_client\<close>, arguments of every definition, over an arbitrary state \<open>'s\<close>
  (the bucket and the network). Modelled are the inputs the code builds for each call, the
  translation of errors (\<open>wrapNotFound\<close>, \<open>wrapNoSuchUpload\<close>), the paging loop of
  \<open>ListParts\<close>, the sorting in \<open>CompleteMultipartUpload\<close> and the download-safety rule of
  \<open>GetPresignedURL\<close>. Pointers of the SDK are options.
\<close>

subsection \<open>The SDK as a parameter\<close>

record put_input =
  pi_Bucket :: string
  pi_Key :: string
  pi_ContentLength :: int
  pi_ContentType :: string

record get_input =
  gi_Bucket :: string
  gi_Key :: string
  gi_ResponseContentType :: "string option"
  gi_ResponseContentDisposition :: "fmt option"

record sdk_part =
  sp_PartNumber :: "int option"
  sp_ETag :: "string option"
  sp_Size :: "int option"

record part_page =
  pg_Parts :: "sdk_part list"
  pg_IsTruncated :: "bool option"
  pg_NextPartNumberMarker :: "string option"

record 's s3_client =
  c_DeleteObject :: "string \<Rightarrow> string \<Rightarrow> 's \<Rightarrow> goerr option \<times> 's"
  c_HeadObject :: "string \<Rightarrow> string \<Rightarrow> 's \<Rightarrow> (goerr + int option) \<times> 's"
  c_PresignPutObject :: "put_input \<Rightarrow> duration \<Rightarrow> 's \<Rightarrow> (goerr + string) \<times> 's"
  c_PresignGetObject :: "get_input \<Rightarrow> duration \<Rightarrow> 's \<Rightarrow> (goerr + string) \<times> 's"
  c_PresignUploadPart :: "string \<Rightarrow> string \<Rightarrow> string \<Rightarrow> int \<Rightarrow> duration \<Rightarrow> 's \<Rightarrow> (goerr + string) \<times> 's"
  c_CreateMultipartUpload :: "string \<Rightarrow> string \<Rightarrow> string \<Rightarrow> 's \<Rightarrow> (goerr + string option) \<times> 's"
  c_ListParts :: "string \<Rightarrow> string \<Rightarrow> string \<Rightarrow> string option \<Rightarrow> 's \<Rightarrow> (goerr + part_page) \<times> 's"
  c_CompleteMultipartUpload :: "string \<Rightarrow> string \<Rightarrow> string \<Rightarrow> (int \<times> string) list \<Rightarrow> 's \<Rightarrow> goerr option \<times> 's"
  c_AbortMultipartUpload :: "string \<Rightarrow> string \<Rightarrow> string \<Rightarrow> 's \<Rightarrow> goerr option \<times> 's"

definition PresignTTL :: duration where "PresignTTL = Hour"
definition UploadPresignTTL :: duration where "UploadPresignTTL = 15 * Minute"

subsection \<open>Errors\<close>

definition wrapNotFound :: "string \<Rightarrow> string \<Rightarrow> goerr \<Rightarrow> goerr" where
  "wrapNotFound format key err =
     (case errors_as_api err of
        Some code \<Rightarrow>
          if code = ''NotFound'' \<or> code = ''NoSuchKey'' then ErrObjectNotFound
          else Wrapped (Sprintf (format @ '': %w'') [key]) err
      | None \<Rightarrow> Wrapped (Sprintf (format @ '': %w'') [key]) err)"

definition wrapNoSuchUpload :: "string \<Rightarrow> string \<Rightarrow> goerr \<Rightarrow> goerr" where
  "wrapNoSuchUpload format key err =
     (if errors_as_api err = Some ''NoSuchUpload'' then ErrNoSuchUpload
      else Wrapped (Sprintf (format @ '': %w'') [key]) err)"

subsection \<open>Objects\<close>

definition S3_DeleteFile :: "'s s3_client \<Rightarrow> string \<Rightarrow> string \<Rightarrow> 's \<Rightarrow> goerr option \<times> 's" where
  "S3_DeleteFile c bucket key s =
     (case c_DeleteObject c bucket key s of
        (Some e, s') \<Rightarrow> (Some (Wrapped (Sprintf ''deleting %q: %w'' [key]) e), s')
      | (None, s') \<Rightarrow> (None, s'))"

definition S3_GetFileSize :: "'s s3_client \<Rightarrow> string \<Rightarrow> string \<Rightarrow> 's \<Rightarrow> (goerr + int) \<times> 's" where
  "S3_GetFileSize c bucket key s =
     (case c_HeadObject c bucket key s of
        (Inl e, s') \<Rightarrow> (Inl (wrapNotFound ''sizing %q'' key e), s')
      | (Inr len, s') \<Rightarrow> (Inr (case len of None \<Rightarrow> 0 | Some n \<Rightarrow> n), s'))"

definition S3_GetPresignedUploadURL ::
  "'s s3_client \<Rightarrow> string \<Rightarrow> string \<Rightarrow> int \<Rightarrow> string \<Rightarrow> 's \<Rightarrow> (goerr + string) \<times> 's" where
  "S3_GetPresignedUploadURL c bucket key n contentType s =
     (case c_PresignPutObject c
             \<lparr>pi_Bucket = bucket, pi_Key = key, pi_ContentLength = n, pi_ContentType = contentType\<rparr>
             UploadPresignTTL s of
        (Inl e, s') \<Rightarrow> (Inl (Wrapped (Sprintf ''presigning upload %q: %w'' [key]) e), s')
      | (Inr url, s') \<Rightarrow> (Inr url, s'))"

definition inlineRiskyExt :: "string set" where
  "inlineRiskyExt = {''.html'', ''.htm'', ''.xhtml'', ''.xht'', ''.shtml'', ''.svg'', ''.svgz'', ''.xml''}"

text \<open>
  The Kelvin sign and the dotted capital I are the only characters outside ASCII that
  \<open>strings.ToLower\<close> maps into it; neither letter occurs in the table.
\<close>

definition inlineRisky :: "string \<Rightarrow> bool" where
  "inlineRisky key = (ToLower (path_Ext (snd (Split key))) \<in> inlineRiskyExt)"

definition get_object_input :: "string \<Rightarrow> string \<Rightarrow> bool \<Rightarrow> get_input" where
  "get_object_input bucket key forceDownload =
     (let original = snd (Split key);
          attachment = Some (Sprintf ''attachment; filename=%q'' [original])
      in if forceDownload then
           \<lparr>gi_Bucket = bucket, gi_Key = key, gi_ResponseContentType = None,
            gi_ResponseContentDisposition = attachment\<rparr>
         else if inlineRisky key then
           \<lparr>gi_Bucket = bucket, gi_Key = key,
            gi_ResponseContentType = Some ''application/octet-stream'',
            gi_ResponseContentDisposition = attachment\<rparr>
         else
           \<lparr>gi_Bucket = bucket, gi_Key = key, gi_ResponseContentType = None,
            gi_ResponseContentDisposition = None\<rparr>)"

definition S3_GetPresignedURL ::
  "'s s3_client \<Rightarrow> string \<Rightarrow> string \<Rightarrow> bool \<Rightarrow> 's \<Rightarrow> (goerr + string) \<times> 's" where
  "S3_GetPresignedURL c bucket key forceDownload s =
     (case c_PresignGetObject c (get_object_input bucket key forceDownload) PresignTTL s of
        (Inl e, s') \<Rightarrow> (Inl (Wrapped (Sprintf ''presigning %q: %w'' [key]) e), s')
      | (Inr url, s') \<Rightarrow> (Inr url, s'))"

subsection \<open>Multipart uploads\<close>

definition S3_CreateMultipartUpload ::
  "'s s3_client \<Rightarrow> string \<Rightarrow> string \<Rightarrow> string \<Rightarrow> 's \<Rightarrow> (goerr + string) \<times> 's" where
  "S3_CreateMultipartUpload c bucket key contentType s =
     (case c_CreateMultipartUpload c bucket key contentType s of
        (Inl e, s') \<Rightarrow> (Inl (Wrapped (Sprintf ''creating multipart upload %q: %w'' [key]) e), s')
      | (Inr uid, s') \<Rightarrow> (Inr (case uid of None \<Rightarrow> [] | Some u \<Rightarrow> u), s'))"

definition S3_PresignUploadPart ::
  "'s s3_client \<Rightarrow> string \<Rightarrow> string \<Rightarrow> string \<Rightarrow> int \<Rightarrow> 's \<Rightarrow> (goerr + string) \<times> 's" where
  "S3_PresignUploadPart c bucket key uploadID partNumber s =
     (case c_PresignUploadPart c bucket key uploadID partNumber UploadPresignTTL s of
        (Inl e, s') \<Rightarrow>
          (Inl (Wrapped (Sprintf ''presigning part %d of %q: %w'' [itoa partNumber, key]) e), s')
      | (Inr url, s') \<Rightarrow> (Inr url, s'))"

definition to_part :: "sdk_part \<Rightarrow> part" where
  "to_part p =
     \<lparr>p_PartNumber = (case sp_PartNumber p of None \<Rightarrow> 0 | Some n \<Rightarrow> n),
      p_ETag = (case sp_ETag p of None \<Rightarrow> [] | Some t \<Rightarrow> t),
      p_Size = (case sp_Size p of None \<Rightarrow> 0 | Some n \<Rightarrow> n)\<rparr>"

partial_function (option) list_parts_loop ::
  "'s s3_client \<Rightarrow> string \<Rightarrow> string \<Rightarrow> string \<Rightarrow> part list \<Rightarrow> string option \<Rightarrow> 's
   \<Rightarrow> ((goerr + part list) \<times> 's) option" where
  "list_parts_loop c bucket key uploadID parts marker s =
     (case c_ListParts c bucket key uploadID marker s of
        (Inl e, s') \<Rightarrow> Some (Inl (wrapNoSuchUpload ''listing parts of %q'' key e), s')
      | (Inr out, s') \<Rightarrow>
          (let parts' = parts @ map to_part (pg_Parts out)
           in if pg_IsTruncated out \<noteq> Some True then Some (Inr parts', s')
              else list_parts_loop c bucket key uploadID parts' (pg_NextPartNumberMarker out) s'))"

definition S3_ListParts ::
  "'s s3_client \<Rightarrow> string \<Rightarrow> string \<Rightarrow> string \<Rightarrow> 's \<Rightarrow> ((goerr + part list) \<times> 's) option" where
  "S3_ListParts c bucket key uploadID s = list_parts_loop c bucket key uploadID [] None s"

text \<open>
  \<open>sort.Slice\<close> does not fix the order of entries with the same part number; the model
  keeps theirs.
\<close>

definition S3_CompleteMultipartUpload ::
  "'s s3_client \<Rightarrow> string \<Rightarrow> string \<Rightarrow> string \<Rightarrow> part list \<Rightarrow> 's \<Rightarrow> goerr option \<times> 's" where
  "S3_CompleteMultipartUpload c bucket key uploadID parts s =
     (let completed = map (\<lambda>p. (p_PartNumber p, p_ETag p)) (sort_key p_PartNumber parts)
      in case c_CompleteMultipartUpload c bucket key uploadID completed s of
           (Some e, s') \<Rightarrow> (Some (wrapNoSuchUpload ''completing multipart upload %q'' key e), s')
         | (None, s') \<Rightarrow> (None, s'))"

definition S3_AbortMultipartUpload ::
  "'s s3_client \<Rightarrow> string \<Rightarrow> string \<Rightarrow> string \<Rightarrow> 's \<Rightarrow> goerr option \<times> 's" where
  "S3_AbortMultipartUpload c bucket key uploadID s =
     (case c_AbortMultipartUpload c bucket key uploadID s of
        (Some e, s') \<Rightarrow> (Some (wrapNoSuchUpload ''aborting multipart upload %q'' key e), s')
      | (None, s') \<Rightarrow> (None, s'))"

subsection \<open>Paging\<close>

text \<open>
  \<open>serves c bucket key uid marker pages s s'\<close>: asked for the pages from \<open>marker\<close> on, the
  service delivers \<open>pages\<close>, each but the last marked truncated and pointing to the next.
\<close>

fun serves ::
  "'s s3_client \<Rightarrow> string \<Rightarrow> string \<Rightarrow> string \<Rightarrow> string option \<Rightarrow> part_page list \<Rightarrow> 's \<Rightarrow> 's \<Rightarrow> bool" where
  "serves c bucket key uid marker [] s s' = False"
| "serves c bucket key uid marker [pg] s s' \<longleftrightarrow>
     c_ListParts c bucket key uid marker s = (Inr pg, s') \<and> pg_IsTruncated pg \<noteq> Some True"
| "serves c bucket key uid marker (pg # pg' # pgs) s s' \<longleftrightarrow>
     (case c_ListParts c bucket key uid marker s of
        (Inr out, s1) \<Rightarrow> out = pg \<and> pg_IsTruncated pg = Some True
          \<and> serves c bucket key uid (pg_NextPartNumberMarker pg) (pg' # pgs) s1 s'
      | (Inl e, s1) \<Rightarrow> False)"

lemma list_parts_loop_serves:
  "serves c bucket key uid marker pages s s' \<Longrightarrow>
   list_parts_loop c bucket key uid parts marker s =
     Some (Inr (parts @ map to_part (concat (map pg_Parts pages))), s')"
proof (induction c bucket key uid marker pages s s' arbitrary: parts rule: serves.induct)
  case (2 c bucket key uid marker pg s s')
  then show ?case by (subst list_parts_loop.simps) simp
next
  case (3 c bucket key uid marker pg pg' pgs s s')
  from "3.prems" obtain s1 where
    "c_ListParts c bucket key uid marker s = (Inr pg, s1)" "pg_IsTruncated pg = Some True"
    "serves c bucket key uid (pg_NextPartNumberMarker pg) (pg' # pgs) s1 s'"
    by (auto split: prod.splits sum.splits)
  with "3.IH" [OF this(1) [symmetric] refl] show ?case
    by (subst list_parts_loop.simps) simp
qed simp

text \<open>
  C38. \<open>ListParts\<close> returns, and returns every part the bucket holds, in the bucket's order and
  once each, over however many pages the service spreads them.
\<close>

theorem ListParts_collects_pages:
  assumes "serves c bucket key uid None pages s s'"
  shows "S3_ListParts c bucket key uid s = Some (Inr (map to_part (concat (map pg_Parts pages))), s')"
  using list_parts_loop_serves [OF assms] by (simp add: S3_ListParts_def)

text \<open>A service that holds parts 1 to 3 and sends two per page.\<close>

definition sample_sdk_part :: "int \<Rightarrow> sdk_part" where
  "sample_sdk_part n = \<lparr>sp_PartNumber = Some n, sp_ETag = Some ''e'', sp_Size = Some 9\<rparr>"

definition two_page_client :: "unit s3_client" where
  "two_page_client =
     \<lparr>c_DeleteObject = \<lambda>_ _ s. (None, s), c_HeadObject = \<lambda>_ _ s. (Inr (Some 27), s),
      c_PresignPutObject = \<lambda>_ _ s. (Inr ''put'', s), c_PresignGetObject = \<lambda>_ _ s. (Inr ''get'', s),
      c_PresignUploadPart = \<lambda>_ _ _ _ _ s. (Inr ''part'', s),
      c_CreateMultipartUpload = \<lambda>_ _ _ s. (Inr (Some ''u''), s),
      c_ListParts = \<lambda>_ _ _ marker s.
        (Inr (if marker = None
              then \<lparr>pg_Parts = [sample_sdk_part 1, sample_sdk_part 2], pg_IsTruncated = Some True,
                    pg_NextPartNumberMarker = Some ''2''\<rparr>
              else \<lparr>pg_Parts = [sample_sdk_part 3], pg_IsTruncated = Some False,
                    pg_NextPartNumberMarker = None\<rparr>), s),
      c_CompleteMultipartUpload = \<lambda>_ _ _ _ s. (None, s),
      c_AbortMultipartUpload = \<lambda>_ _ _ s. (None, s)\<rparr>"

theorem ListParts_collects_pages_witness:
  "S3_ListParts two_page_client ''b'' ''k'' ''u'' () =
     Some (Inr (map to_part [sample_sdk_part 1, sample_sdk_part 2, sample_sdk_part 3]), ())"
  using ListParts_collects_pages [of two_page_client "''b''" "''k''" "''u''"
      "[\<lparr>pg_Parts = [sample_sdk_part 1, sample_sdk_part 2], pg_IsTruncated = Some True,
         pg_NextPartNumberMarker = Some ''2''\<rparr>,
        \<lparr>pg_Parts = [sample_sdk_part 3], pg_IsTruncated = Some False,
         pg_NextPartNumberMarker = None\<rparr>]" "()" "()"]
  by (simp add: two_page_client_def)

text \<open>
  Completing a multipart upload hands S3 the client's parts in ascending part order, a
  permutation of what was sent, however the client ordered them; only S3's own
  \<open>NoSuchUpload\<close> answer becomes \<open>ErrNoSuchUpload\<close>.
\<close>

lemma CompleteMultipartUpload_sorted:
  "\<exists>ps. sorted (map p_PartNumber ps) \<and> mset ps = mset parts \<and>
     S3_CompleteMultipartUpload c bucket key uid parts s =
       (case c_CompleteMultipartUpload c bucket key uid (map (\<lambda>p. (p_PartNumber p, p_ETag p)) ps) s of
          (None, s') \<Rightarrow> (None, s')
        | (Some e, s') \<Rightarrow>
            (Some (if errors_as_api e = Some ''NoSuchUpload'' then ErrNoSuchUpload
                   else Wrapped (Sprintf ''completing multipart upload %q: %w'' [key]) e), s'))"
  by (intro exI [of _ "sort_key p_PartNumber parts"])
    (auto simp: S3_CompleteMultipartUpload_def wrapNoSuchUpload_def split: prod.splits option.splits)

subsection \<open>Downloads of page-like files\<close>

lemma lower_ascii_punct:
  "lower_ascii c = CHR ''.'' \<longleftrightarrow> c = CHR ''.''" "lower_ascii c = CHR ''/'' \<longleftrightarrow> c = CHR ''/''"
proof -
  have "lower_ascii c = d \<longleftrightarrow> c = d" if "ord d < 65" for d
  proof
    assume "lower_ascii c = d"
    then have "ord (lower_ascii c) = ord d" by simp
    with that have "ord c = ord d" by (auto simp: ord_lower_ascii split: if_splits)
    then show "c = d" by simp
  next
    assume "c = d"
    with that show "lower_ascii c = d" by (simp add: lower_ascii_def)
  qed
  then show "lower_ascii c = CHR ''.'' \<longleftrightarrow> c = CHR ''.''" "lower_ascii c = CHR ''/'' \<longleftrightarrow> c = CHR ''/''"
    by simp_all
qed

lemma path_Ext_dot:
  assumes "CHR ''.'' \<notin> set t" "CHR ''/'' \<notin> set t"
  shows "path_Ext (stem @ CHR ''.'' # t) = CHR ''.'' # t"
proof -
  have "takeWhile (\<lambda>c. c \<noteq> CHR ''/'' \<and> c \<noteq> CHR ''.'') (rev t @ CHR ''.'' # rev stem) = rev t"
    using assms by (subst takeWhile_append2) auto
  then show ?thesis by (simp add: path_Ext_def)
qed

lemma path_Ext_risky:
  assumes "ToLower e \<in> inlineRiskyExt"
  shows "path_Ext (stem @ e) = e"
proof -
  from assms obtain c t where e: "e = c # t" and c: "lower_ascii c = CHR ''.''"
    and t: "map lower_ascii t \<in> {''html'', ''htm'', ''xhtml'', ''xht'', ''shtml'', ''svg'', ''svgz'', ''xml''}"
    by (cases e) (auto simp: inlineRiskyExt_def ToLower_def)
  have "CHR ''.'' \<notin> lower_ascii ` set t" "CHR ''/'' \<notin> lower_ascii ` set t"
    using t by (auto simp flip: set_map)
  then have "CHR ''.'' \<notin> set t" "CHR ''/'' \<notin> set t"
    by (metis imageI lower_ascii_punct)+
  with e c show ?thesis by (simp add: lower_ascii_punct path_Ext_dot)
qed

text \<open>
  A file whose name ends in a page-like extension, in upper or lower case, is never
  presigned for inline display: the signed request carries an attachment disposition with
  the original name, whether or not the client asked for a download.
\<close>

theorem risky_names_download:
  assumes "ToLower e \<in> inlineRiskyExt" "CHR ''_'' \<notin> set fid"
  shows "gi_ResponseContentDisposition (get_object_input bucket (Build fid (stem @ e)) force)
       = Some (Sprintf ''attachment; filename=%q'' [stem @ e])"
  using assms by (simp add: get_object_input_def Let_def Split_Build inlineRisky_def path_Ext_risky)

theorem risky_names_download_witness:
  "gi_ResponseContentDisposition (get_object_input ''b'' (Build ''7f3c'' (''my_page'' @ ''.XHtml'')) False)
     = Some (Sprintf ''attachment; filename=%q'' [''my_page.XHtml''])"
proof -
  have "ToLower ''.XHtml'' \<in> inlineRiskyExt" by code_simp
  from risky_names_download [OF this, of "''7f3c''" "''b''" "''my_page''" False] show ?thesis by simp
qed

subsection \<open>The interfaces kept\<close>

definition on_s3 :: "('s \<Rightarrow> 'a \<times> 's) \<Rightarrow> db \<times> 's \<Rightarrow> 'a \<times> (db \<times> 's)" where
  "on_s3 f w = (case f (snd w) of (x, s) \<Rightarrow> (x, (fst w, s)))"

lemma on_s3_eq: "on_s3 f w = (x, w') \<longleftrightarrow> f (snd w) = (x, snd w') \<and> fst w' = fst w"
  by (cases w') (auto simp: on_s3_def split: prod.splits)

definition s3_files :: "'s s3_client \<Rightarrow> string \<Rightarrow> (db \<times> 's) obj_storage" where
  "s3_files c bucket =
     \<lparr>os_GetPresignedUploadURL = \<lambda>key n ct. on_s3 (S3_GetPresignedUploadURL c bucket key n ct),
      os_GetPresignedURL = \<lambda>key force. on_s3 (S3_GetPresignedURL c bucket key force),
      os_DeleteFile = \<lambda>key. on_s3 (S3_DeleteFile c bucket key),
      os_GetFileSize = \<lambda>key. on_s3 (S3_GetFileSize c bucket key)\<rparr>"

definition s3_multipart :: "'s s3_client \<Rightarrow> string \<Rightarrow> (db \<times> 's) multipart_storage" where
  "s3_multipart c bucket =
     \<lparr>ms_CreateMultipartUpload = \<lambda>key ct. on_s3 (S3_CreateMultipartUpload c bucket key ct),
      ms_PresignUploadPart = \<lambda>key uid n. on_s3 (S3_PresignUploadPart c bucket key uid n),
      ms_ListParts = \<lambda>key uid w.
        map_option (\<lambda>(x, s). (x, (fst w, s))) (S3_ListParts c bucket key uid (snd w)),
      ms_CompleteMultipartUpload = \<lambda>key uid parts. on_s3 (S3_CompleteMultipartUpload c bucket key uid parts),
      ms_AbortMultipartUpload = \<lambda>key uid. on_s3 (S3_AbortMultipartUpload c bucket key uid)\<rparr>"

definition db_upload_lookup :: "(db \<times> 's) upload_lookup" where
  "db_upload_lookup key = on_db (UploadStore_GetByStorageKey key)"

definition db_upload_recorder :: "(db \<times> 's) upload_recorder" where
  "db_upload_recorder up = on_db (UploadStore_Create up)"

interpretation live: share_backend
  db_share_store "\<lambda>w. db_state_ok d0 (fst w)" "\<lambda>w. share_view (fst w)" "stored_share d0"
  "owns_share d0" pg_ts "s3_files c bucket" "Some db_upload_lookup"
  for d0 :: db and c :: "'s s3_client" and bucket :: string
proof unfold_locales
  fix w :: "db \<times> 's" and key sz w' url up force "get"
  assume ok: "db_state_ok d0 (fst w)"
  show "db_state_ok d0 (fst w') \<and> share_view (fst w') = share_view (fst w)"
    if "os_GetFileSize (s3_files c bucket) key w = (sz, w')"
    using that ok by (simp add: s3_files_def on_s3_eq)
  show "db_state_ok d0 (fst w') \<and> share_view (fst w') = share_view (fst w)"
    if "os_GetPresignedURL (s3_files c bucket) key force w = (url, w')"
    using that ok by (simp add: s3_files_def on_s3_eq)
  show "db_state_ok d0 (fst w') \<and> share_view (fst w') = share_view (fst w)"
    if "Some db_upload_lookup = Some get" "get key w = (up, w')"
  proof -
    from that have "UploadStore_GetByStorageKey key (fst w) = (up, fst w')"
      by (auto simp: db_upload_lookup_def on_db_eq)
    then have "same_tables (fst w) (fst w')"
      using UploadStore_GetByStorageKey_effect by blast
    with same_tables_view same_tablesD(5) ok show ?thesis
      by (metis db_state_ok_def)
  qed
qed

end
