(* ===== verification/FileHandlers.thy ===== *)
theory FileHandlers
  imports FileNames ObjectStore Rest
begin

section \<open>internal/handlers/file.go: presigned uploads and downloads\<close>

text \<open>
  \<open>FileHandler\<close> over the interfaces of \<open>Interfaces\<close>. The fresh UUID
  (\<open>uuid.New().String()\<close>) and the clock are arguments. The last part instantiates the
  handler the way \<open>server.go\<close> wires it, with Postgres and S3, and states what clients and
  the retention job can rely on.
\<close>

subsection \<open>The code\<close>

record presign_request =
  pq_Name :: string
  pq_Size :: int
  pq_ContentType :: string

record presign_response =
  pr_UploadURL :: string
  pr_StorageKey :: string
  pr_ID :: string
  pr_Name :: string
  pr_ExpiresIn :: int

record download_response =
  dr_URL :: string
  dr_ExpiresIn :: int
  dr_Download :: bool

record 'w file_handler =
  fh_storage :: "'w obj_storage"
  fh_uploads :: "'w upload_recorder option"
  fh_maxUploadBytes :: int

definition presign_tags :: "presign_request \<Rightarrow> bool" where
  "presign_tags r \<longleftrightarrow> pq_Name r \<noteq> [] \<and> pq_Size r \<noteq> 0 \<and> 0 < pq_Size r"

definition in_seconds :: "duration \<Rightarrow> int" where
  "in_seconds d = d div Second"

definition recordUploadFor ::
  "ctx \<Rightarrow> 'w upload_recorder option \<Rightarrow> string \<Rightarrow> string \<Rightarrow> int \<Rightarrow> time \<Rightarrow> 'w \<Rightarrow> goerr option \<times> 'w" where
  "recordUploadFor c uploads storageKey fileName n now w =
     (case uploads of
        None \<Rightarrow> (None, w)
      | Some create \<Rightarrow>
          create \<lparr>up_StorageKey = storageKey,
                  up_OwnerID = (case c_User c of Some u \<Rightarrow> usr_ID u | None \<Rightarrow> []),
                  up_FileName = fileName, up_SizeBytes = n, up_CreatedAt = now,
                  up_DeleteAttempts = 0\<rparr> w)"

definition default_content_type :: "string \<Rightarrow> string" where
  "default_content_type ct = (if ct = [] then ''application/octet-stream'' else ct)"

definition PresignUpload ::
  "'w file_handler \<Rightarrow> ctx \<Rightarrow> presign_request option \<Rightarrow> string \<Rightarrow> time \<Rightarrow> 'w
   \<Rightarrow> presign_response response \<times> 'w" where
  "PresignUpload h c body uuid now w =
     (case ShouldBindJSON presign_tags body of
        None \<Rightarrow> (BadRequest ''name and size are required'', w)
      | Some req \<Rightarrow>
          if fh_maxUploadBytes h < pq_Size req then (Error 413 ''File too large'', w)
          else
            let fileName = sanitizeFilename (pq_Name req);
                storageKey = Build uuid fileName;
                contentType = default_content_type (pq_ContentType req)
            in case os_GetPresignedUploadURL (fh_storage h) storageKey (pq_Size req) contentType w of
                 (Inl e, w1) \<Rightarrow> (InternalError ''Could not prepare upload'', w1)
               | (Inr url, w1) \<Rightarrow>
                   (case recordUploadFor c (fh_uploads h) storageKey fileName (pq_Size req) now w1 of
                      (Some e, w2) \<Rightarrow> (InternalError ''Could not prepare upload'', w2)
                    | (None, w2) \<Rightarrow>
                        (Success \<lparr>pr_UploadURL = url, pr_StorageKey = storageKey, pr_ID = uuid,
                                  pr_Name = fileName, pr_ExpiresIn = in_seconds UploadPresignTTL\<rparr>, w2)))"

text \<open>\<open>download\<close> is the value of the query parameter of that name.\<close>

definition GetFile ::
  "'w file_handler \<Rightarrow> string \<Rightarrow> string \<Rightarrow> 'w \<Rightarrow> download_response response \<times> 'w" where
  "GetFile h storageKey download w =
     (if \<not> validKey storageKey then (BadRequest ''Invalid file ID'', w)
      else case os_GetFileSize (fh_storage h) storageKey w of
        (Inl e, w1) \<Rightarrow>
          (if errors_is e ErrObjectNotFound then NotFound ''File not found''
           else Error 502 ''Storage temporarily unavailable'', w1)
      | (Inr n, w1) \<Rightarrow>
          let forceDownload = (download = ''true'')
          in case os_GetPresignedURL (fh_storage h) storageKey forceDownload w1 of
               (Inl e, w2) \<Rightarrow> (NotFound ''File not found'', w2)
             | (Inr url, w2) \<Rightarrow>
                 (Success \<lparr>dr_URL = url, dr_ExpiresIn = in_seconds PresignTTL,
                           dr_Download = forceDownload\<rparr>, w2))"

subsection \<open>As wired by the server\<close>

definition live_files :: "'s s3_client \<Rightarrow> string \<Rightarrow> int \<Rightarrow> (db \<times> 's) file_handler" where
  "live_files c bucket maxBytes =
     \<lparr>fh_storage = s3_files c bucket, fh_uploads = Some db_upload_recorder,
      fh_maxUploadBytes = maxBytes\<rparr>"

lemma PresignUpload_Success:
  assumes "PresignUpload h c body uuid now w = (Success resp, w')"
  obtains req w1 where "body = Some req" "presign_tags req" "pq_Size req \<le> fh_maxUploadBytes h"
    "pr_Name resp = sanitizeFilename (pq_Name req)" "pr_ID resp = uuid"
    "pr_StorageKey resp = Build uuid (pr_Name resp)" "pr_ExpiresIn resp = 900"
    "os_GetPresignedUploadURL (fh_storage h) (pr_StorageKey resp) (pq_Size req)
       (default_content_type (pq_ContentType req)) w = (Inr (pr_UploadURL resp), w1)"
    "recordUploadFor c (fh_uploads h) (pr_StorageKey resp) (pr_Name resp) (pq_Size req) now w1
       = (None, w')"
  using assms
  by (auto simp: PresignUpload_def Let_def in_seconds_def UploadPresignTTL_def Minute_eq Second_def
      split: option.splits if_splits prod.splits sum.splits)

text \<open>Recording an upload: the bucket is left alone, and success means that the row is there.\<close>

lemma recordUploadFor_live:
  assumes "recordUploadFor ctx (Some db_upload_recorder) key name n now w = (r, w')"
  shows "snd w' = snd w"
    and "r = None \<Longrightarrow> \<exists>row \<in> set (uploads_t (fst w')). u_storage_key row = key
      \<and> (row \<notin> set (uploads_t (fst w)) \<longrightarrow>
           uuid_arg (fst w) (nullable (case c_User ctx of Some u \<Rightarrow> usr_ID u | None \<Rightarrow> [])) = Inr (u_owner_id row)
           \<and> u_size_bytes row = n \<and> u_file_name row = name \<and> u_created_at row = pg_ts now)"
proof -
  let ?up = "\<lparr>up_StorageKey = key, up_OwnerID = (case c_User ctx of Some u \<Rightarrow> usr_ID u | None \<Rightarrow> []),
      up_FileName = name, up_SizeBytes = n, up_CreatedAt = now, up_DeleteAttempts = 0\<rparr>"
  from assms have create: "UploadStore_Create ?up (fst w) = (r, fst w')" and "snd w' = snd w"
    by (auto simp: recordUploadFor_def db_upload_recorder_def on_db_eq)
  then show "snd w' = snd w" by blast
  assume "r = None"
  with create have "UploadStore_Create ?up (fst w) = (None, fst w')" by simp
  from UploadStore_Create_ok [OF this] obtain row where row: "row \<in> set (uploads_t (fst w'))" "u_storage_key row = key"
    and new: "row \<notin> set (uploads_t (fst w)) \<Longrightarrow>
        uuid_arg (fst w) (nullable (case c_User ctx of Some u \<Rightarrow> usr_ID u | None \<Rightarrow> [])) = Inr (u_owner_id row)
        \<and> u_size_bytes row = n \<and> u_file_name row = name \<and> u_created_at row = pg_ts now"
    unfolding upload_values_def by fastforce
  then show "\<exists>row \<in> set (uploads_t (fst w')). u_storage_key row = key
      \<and> (row \<notin> set (uploads_t (fst w)) \<longrightarrow>
           uuid_arg (fst w) (nullable (case c_User ctx of Some u \<Rightarrow> usr_ID u | None \<Rightarrow> [])) = Inr (u_owner_id row)
           \<and> u_size_bytes row = n \<and> u_file_name row = name \<and> u_created_at row = pg_ts now)" by blast
qed

text \<open>
  No untracked upload: when the service hands out an upload URL, the uploads table holds a
  row with the key of that URL (so the retention job will see the object), new or already
  there; a new row carries the owner, the name and the size the URL was signed for, and
  the size is positive and within the configured limit.
\<close>

theorem PresignUpload_tracked:
  assumes "PresignUpload (live_files c bucket maxBytes) ctx body uuid now w = (Success resp, w')"
  shows "\<exists>req row owner. body = Some req \<and> 0 < pq_Size req \<and> pq_Size req \<le> maxBytes
    \<and> row \<in> set (uploads_t (fst w')) \<and> u_storage_key row = pr_StorageKey resp
    \<and> pr_StorageKey resp = Build uuid (sanitizeFilename (pq_Name req))
    \<and> (row \<notin> set (uploads_t (fst w)) \<longrightarrow>
         uuid_arg (fst w) (nullable (case c_User ctx of Some u \<Rightarrow> usr_ID u | None \<Rightarrow> [])) = Inr owner
         \<and> u_owner_id row = owner \<and> u_size_bytes row = pq_Size req
         \<and> u_file_name row = pr_Name resp \<and> u_created_at row = pg_ts now)"
proof -
  let ?owner = "case c_User ctx of Some u \<Rightarrow> usr_ID u | None \<Rightarrow> []"
  obtain req w1 where req: "body = Some req" "presign_tags req" "pq_Size req \<le> maxBytes"
    and key: "pr_StorageKey resp = Build uuid (pr_Name resp)"
      "pr_Name resp = sanitizeFilename (pq_Name req)"
    and put: "os_GetPresignedUploadURL (s3_files c bucket) (pr_StorageKey resp) (pq_Size req)
       (default_content_type (pq_ContentType req)) w = (Inr (pr_UploadURL resp), w1)"
    and rec: "recordUploadFor ctx (Some db_upload_recorder) (pr_StorageKey resp) (pr_Name resp)
       (pq_Size req) now w1 = (None, w')"
    by (rule PresignUpload_Success [OF assms]) (simp add: live_files_def)
  from put have fst: "fst w1 = fst w" by (simp add: s3_files_def on_s3_eq)
  from recordUploadFor_live(2) [OF rec] obtain row where row: "row \<in> set (uploads_t (fst w'))"
      "u_storage_key row = pr_StorageKey resp"
    and new: "row \<notin> set (uploads_t (fst w)) \<Longrightarrow>
      uuid_arg (fst w) (nullable ?owner) = Inr (u_owner_id row) \<and> u_size_bytes row = pq_Size req
         \<and> u_file_name row = pr_Name resp \<and> u_created_at row = pg_ts now"
    by (auto simp: fst)
  from req key row new show ?thesis
    by (cases "row \<in> set (uploads_t (fst w))") (auto simp: presign_tags_def)
qed

lemma sample_name:
  "sanitizeFilename ''page.txt'' = ''page.txt''" "validKey (Build sample_id ''page.txt'')"
proof -
  have chars: "\<forall>c \<in> set ''page.txt''. ord c < 0x80 \<and> clean_rune (ord c)"
    by (simp add: clean_rune_def valid_rune_def key_rune_def is_space_def)
  note s = sanitize_clean_ascii [of "''page.txt''", OF _ chars]
  from s(1) show "sanitizeFilename ''page.txt'' = ''page.txt''" by simp
  from s(3) show "validKey (Build sample_id ''page.txt'')"
    by (simp add: validKey_Build [OF sample_id(1)])
qed

definition sample_ctx :: ctx where
  "sample_ctx = \<lparr>c_ClientIP = ''10.0.0.9'', c_User = Some \<lparr>usr_ID = ''u-1'', usr_Email = ''a@b.c''\<rparr>\<rparr>"

theorem PresignUpload_tracked_witness:
  "\<exists>resp w'. PresignUpload (live_files two_page_client ''b'' 100) sample_ctx
       (Some \<lparr>pq_Name = ''page.txt'', pq_Size = 5, pq_ContentType = []\<rparr>) sample_id 7000 (empty_db, ())
       = (Success resp, w')
     \<and> (\<exists>row \<in> set (uploads_t (fst w')). u_storage_key row = Build sample_id ''page.txt'')"
proof -
  obtain resp w' where r: "PresignUpload (live_files two_page_client ''b'' 100) sample_ctx
       (Some \<lparr>pq_Name = ''page.txt'', pq_Size = 5, pq_ContentType = []\<rparr>) sample_id 7000 (empty_db, ())
       = (Success resp, w')"
    by (simp add: PresignUpload_def live_files_def ShouldBindJSON_def presign_tags_def s3_files_def
        on_s3_def two_page_client_def S3_GetPresignedUploadURL_def sample_name recordUploadFor_def
        db_upload_recorder_def on_db_def UploadStore_Create_def sql_insert_upload_def sample_ctx_def
        uuid_arg_def nullable_def Let_def)
  from PresignUpload_tracked [OF r] have
    "\<exists>row \<in> set (uploads_t (fst w')). u_storage_key row = Build sample_id ''page.txt''"
    by (auto simp: sample_name)
  with r show ?thesis by blast
qed

lemmas download_defs = GetFile_def live_files_def s3_files_def on_s3_def S3_GetFileSize_def
  S3_GetPresignedURL_def PresignTTL_def in_seconds_def Hour_eq Second_def Let_def

text \<open>
  \<open>GetFile\<close> hands out a download URL only for a well-formed key of an object that S3
  confirmed in the same request, forces an attachment exactly when asked to with
  \<open>download=true\<close>, and touches nothing in the database.
\<close>

theorem GetFile_confirmed:
  assumes "GetFile (live_files c bucket maxBytes) key download w = (r, w')"
  shows "fst w' = fst w \<and>
    (rsp_Status r = 200 \<longleftrightarrow>
       validKey key \<and>
       (\<exists>n s1 url s2. c_HeadObject c bucket key (snd w) = (Inr n, s1) \<and>
          c_PresignGetObject c (get_object_input bucket key (download = ''true'')) Hour s1 = (Inr url, s2) \<and>
          r = Success \<lparr>dr_URL = url, dr_ExpiresIn = 3600, dr_Download = (download = ''true'')\<rparr>))"
proof (cases "validKey key")
  case False
  with assms show ?thesis by (auto simp: GetFile_def)
next
  case True
  obtain x s1 where head: "c_HeadObject c bucket key (snd w) = (x, s1)" by (rule prod.exhaust)
  note defs = download_defs
  show ?thesis
  proof (cases x)
    case (Inl e)
    with assms True head show ?thesis by (auto simp: defs split: if_splits)
  next
    case (Inr n)
    obtain y s2 where get: "c_PresignGetObject c
        (get_object_input bucket key (download = ''true'')) Hour s1 = (y, s2)" by (rule prod.exhaust)
    from Inr assms True head this show ?thesis by (cases y) (auto simp: defs)
  qed
qed

theorem GetFile_confirmed_witness:
  "\<exists>n s1. validKey (Build sample_id ''page.txt'')
     \<and> c_HeadObject two_page_client ''b'' (Build sample_id ''page.txt'') () = (Inr n, s1)"
proof -
  have "GetFile (live_files two_page_client ''b'' 9) (Build sample_id ''page.txt'') ''true'' (empty_db, ())
     = (Success \<lparr>dr_URL = ''get'', dr_ExpiresIn = 3600, dr_Download = True\<rparr>, (empty_db, ()))"
    by (simp add: download_defs sample_name two_page_client_def)
  from GetFile_confirmed [OF this] show ?thesis by auto
qed

definition html_upload :: presign_request where
  "html_upload = \<lparr>pq_Name = ''page.txt'', pq_Size = 5, pq_ContentType = ''text/html''\<rparr>"

definition logging_client :: "(put_input list \<times> get_input list) s3_client" where
  "logging_client =
     \<lparr>c_DeleteObject = \<lambda>_ _ s. (None, s), c_HeadObject = \<lambda>_ _ s. (Inr (Some 5), s),
      c_PresignPutObject = \<lambda>i _ (ps, gs). (Inr ''put'', (ps @ [i], gs)),
      c_PresignGetObject = \<lambda>i _ (ps, gs). (Inr ''get'', (ps, gs @ [i])),
      c_PresignUploadPart = \<lambda>_ _ _ _ _ s. (Inr ''part'', s),
      c_CreateMultipartUpload = \<lambda>_ _ _ s. (Inr (Some ''u''), s),
      c_ListParts = \<lambda>_ _ _ _ s. (Inl (Fault ''unused''), s),
      c_CompleteMultipartUpload = \<lambda>_ _ _ _ s. (None, s),
      c_AbortMultipartUpload = \<lambda>_ _ _ s. (None, s)\<rparr>"

text \<open>
  The download rule looks at the name only, and the content type the uploader declares is
  stored unchecked: an upload named \<open>page.txt\<close> declared as \<open>text/html\<close> is signed as
  \<open>text/html\<close>, and its download link carries neither an attachment disposition nor a
  content-type override, so a browser renders the uploaded page inline on the bucket
  origin, which the rule is there to prevent.
\<close>

theorem declared_html_served_inline:
  "let h = live_files logging_client ''b'' 100;
       (r1, w1) = PresignUpload h sample_ctx (Some html_upload) sample_id 7000 (empty_db, ([], []));
       (r2, w2) = GetFile h (Build sample_id ''page.txt'') [] w1
   in rsp_Status r1 = 200 \<and> rsp_Status r2 = 200 \<and>
      map pi_ContentType (fst (snd w2)) = [''text/html''] \<and>
      map gi_ResponseContentType (snd (snd w2)) = [None] \<and>
      map gi_ResponseContentDisposition (snd (snd w2)) = [None]"
proof -
  have split: "Split (Build sample_id ''page.txt'') = (sample_id, ''page.txt'')"
    by (rule Split_Build [OF sample_id(2)])
  have "path_Ext ''page.txt'' = ''.txt''"
    using path_Ext_dot [of "''txt''" "''page''"] by simp
  then have "\<not> inlineRisky (Build sample_id ''page.txt'')"
    by (simp add: inlineRisky_def split inlineRiskyExt_def ToLower_def lower_ascii_def)
  then show ?thesis
    by (simp add: PresignUpload_def live_files_def ShouldBindJSON_def presign_tags_def s3_files_def
        on_s3_def logging_client_def html_upload_def S3_GetPresignedUploadURL_def sample_name
        recordUploadFor_def db_upload_recorder_def on_db_def UploadStore_Create_def
        sql_insert_upload_def sample_ctx_def uuid_arg_def nullable_def default_content_type_def
        GetFile_def S3_GetFileSize_def S3_GetPresignedURL_def get_object_input_def split Let_def)
qed

end
