(* ===== verification/Multipart.thy ===== *)
theory Multipart
  imports FileHandlers "HOL-Library.Signed_Division"
begin

section \<open>internal/handlers/multipart.go: uploads in parts\<close>

text \<open>
  \<open>MultipartHandler\<close> over \<open>MultipartStorage\<close> and \<open>UploadRecorder\<close>. Sizes are \<open>int64\<close>:
  the rounding of \<open>Init\<close> and the total of \<open>Complete\<close> are computed with wrap-around, and
  Go's division truncates (\<open>sdiv\<close>). The parts of a session come from the bucket page by
  page; \<open>None\<close> is a bucket that never sends a last page. \<open>sort.Slice\<close> does not fix the
  order of equal part numbers; the model keeps theirs.
\<close>

subsection \<open>The code\<close>

definition PartSize :: int where "PartSize = 8 * 1024 * 1024"
definition maxParts :: int where "maxParts = 10000"

record 'w multipart_handler =
  mh_storage :: "'w multipart_storage"
  mh_uploads :: "'w upload_recorder option"
  mh_maxUploadBytes :: int

record init_request =
  iq_Name :: string
  iq_Size :: int
  iq_ContentType :: string

record init_response =
  ir_StorageKey :: string
  ir_UploadID :: string
  ir_Name :: string
  ir_PartSize :: int
  ir_PartCount :: int
  ir_ExpiresIn :: int

record multipart_ref =
  mr_StorageKey :: string
  mr_UploadID :: string

record presign_part_request = multipart_ref +
  pp_PartNumber :: int

record presign_part_response =
  ppr_URL :: string
  ppr_ExpiresIn :: int

record complete_request = multipart_ref +
  mc_Parts :: "part list"

record complete_response =
  mcr_StorageKey :: string
  mcr_ID :: string
  mcr_Name :: string

definition init_tags :: "init_request \<Rightarrow> bool" where
  "init_tags r \<longleftrightarrow> iq_Name r \<noteq> [] \<and> iq_Size r \<noteq> 0 \<and> 0 < iq_Size r"

definition ref_tags :: "'a multipart_ref_scheme \<Rightarrow> bool" where
  "ref_tags r \<longleftrightarrow> mr_StorageKey r \<noteq> [] \<and> mr_UploadID r \<noteq> []"

definition part_tags :: "presign_part_request \<Rightarrow> bool" where
  "part_tags r \<longleftrightarrow> ref_tags r \<and> pp_PartNumber r \<noteq> 0 \<and> 0 < pp_PartNumber r"

definition complete_tags :: "complete_request \<Rightarrow> bool" where
  "complete_tags r \<longleftrightarrow> ref_tags r \<and> 1 \<le> length (mc_Parts r)"

definition part_count :: "int \<Rightarrow> int" where
  "part_count n = wrap64 (n + PartSize - 1) sdiv PartSize"

definition Init ::
  "'w multipart_handler \<Rightarrow> ctx \<Rightarrow> init_request option \<Rightarrow> string \<Rightarrow> time \<Rightarrow> 'w
   \<Rightarrow> init_response response \<times> 'w" where
  "Init h c body uuid now w =
     (case ShouldBindJSON init_tags body of
        None \<Rightarrow> (BadRequest ''name and size are required'', w)
      | Some req \<Rightarrow>
          if mh_maxUploadBytes h < iq_Size req then (Error 413 ''File too large'', w)
          else if maxParts < part_count (iq_Size req) then (Error 413 ''File too large'', w)
          else
            let fileName = sanitizeFilename (iq_Name req);
                storageKey = Build uuid fileName;
                contentType = default_content_type (iq_ContentType req)
            in case ms_CreateMultipartUpload (mh_storage h) storageKey contentType w of
                 (Inl e, w1) \<Rightarrow> (InternalError ''Could not prepare upload'', w1)
               | (Inr uploadID, w1) \<Rightarrow>
                   (case recordUploadFor c (mh_uploads h) storageKey fileName (iq_Size req) now w1 of
                      (Some e, w2) \<Rightarrow>
                        (InternalError ''Could not prepare upload'',
                         snd (ms_AbortMultipartUpload (mh_storage h) storageKey uploadID w2))
                    | (None, w2) \<Rightarrow>
                        (Success \<lparr>ir_StorageKey = storageKey, ir_UploadID = uploadID,
                           ir_Name = fileName, ir_PartSize = PartSize,
                           ir_PartCount = part_count (iq_Size req),
                           ir_ExpiresIn = in_seconds UploadPresignTTL\<rparr>, w2)))"

definition PresignPart ::
  "'w multipart_handler \<Rightarrow> presign_part_request option \<Rightarrow> 'w \<Rightarrow> presign_part_response response \<times> 'w" where
  "PresignPart h body w =
     (case ShouldBindJSON part_tags body of
        None \<Rightarrow> (BadRequest ''storage_key, upload_id and part_number are required'', w)
      | Some req \<Rightarrow>
          if \<not> validKey (mr_StorageKey req) \<or> maxParts < pp_PartNumber req
          then (BadRequest ''Invalid storage key or part number'', w)
          else case ms_PresignUploadPart (mh_storage h) (mr_StorageKey req) (mr_UploadID req)
                      (pp_PartNumber req) w of
                 (Inl e, w1) \<Rightarrow> (InternalError ''Could not prepare upload'', w1)
               | (Inr url, w1) \<Rightarrow>
                   (Success \<lparr>ppr_URL = url, ppr_ExpiresIn = in_seconds UploadPresignTTL\<rparr>, w1))"

definition multipartError :: "goerr \<Rightarrow> 'a response" where
  "multipartError err =
     (if errors_is err ErrNoSuchUpload
      then NotFound ''Upload session no longer exists, start it again''
      else InternalError ''Could not finish upload'')"

definition Status ::
  "'w multipart_handler \<Rightarrow> multipart_ref option \<Rightarrow> 'w \<Rightarrow> (part list response \<times> 'w) option" where
  "Status h body w =
     (case ShouldBindJSON ref_tags body of
        None \<Rightarrow> Some (BadRequest ''storage_key and upload_id are required'', w)
      | Some req \<Rightarrow>
          if \<not> validKey (mr_StorageKey req) then Some (BadRequest ''Invalid storage key'', w)
          else case ms_ListParts (mh_storage h) (mr_StorageKey req) (mr_UploadID req) w of
                 None \<Rightarrow> None
               | Some (Inl e, w1) \<Rightarrow> Some (multipartError e, w1)
               | Some (Inr parts, w1) \<Rightarrow> Some (Success parts, w1))"

definition total_size :: "part list \<Rightarrow> int" where
  "total_size held = foldl (\<lambda>t p. wrap64 (t + p_Size p)) 0 held"

definition Complete ::
  "'w multipart_handler \<Rightarrow> complete_request option \<Rightarrow> 'w \<Rightarrow> (complete_response response \<times> 'w) option" where
  "Complete h body w =
     (case ShouldBindJSON complete_tags body of
        None \<Rightarrow> Some (BadRequest ''storage_key, upload_id and parts are required'', w)
      | Some req \<Rightarrow>
          if \<not> validKey (mr_StorageKey req) then Some (BadRequest ''Invalid storage key'', w)
          else case ms_ListParts (mh_storage h) (mr_StorageKey req) (mr_UploadID req) w of
                 None \<Rightarrow> None
               | Some (Inl e, w1) \<Rightarrow> Some (multipartError e, w1)
               | Some (Inr held, w1) \<Rightarrow>
                   if mh_maxUploadBytes h < total_size held
                   then Some (Error 413 ''File too large'',
                          snd (ms_AbortMultipartUpload (mh_storage h) (mr_StorageKey req) (mr_UploadID req) w1))
                   else
                     let parts = sort_key p_PartNumber (mc_Parts req)
                     in case ms_CompleteMultipartUpload (mh_storage h) (mr_StorageKey req)
                               (mr_UploadID req) parts w1 of
                          (Some e, w2) \<Rightarrow> Some (multipartError e, w2)
                        | (None, w2) \<Rightarrow>
                            Some (Success \<lparr>mcr_StorageKey = mr_StorageKey req,
                              mcr_ID = fst (Split (mr_StorageKey req)),
                              mcr_Name = snd (Split (mr_StorageKey req))\<rparr>, w2))"

definition Abort ::
  "'w multipart_handler \<Rightarrow> multipart_ref option \<Rightarrow> 'w \<Rightarrow> string response \<times> 'w" where
  "Abort h body w =
     (case ShouldBindJSON ref_tags body of
        None \<Rightarrow> (BadRequest ''storage_key and upload_id are required'', w)
      | Some req \<Rightarrow>
          if \<not> validKey (mr_StorageKey req) then (BadRequest ''Invalid storage key'', w)
          else case ms_AbortMultipartUpload (mh_storage h) (mr_StorageKey req) (mr_UploadID req) w of
                 (Some e, w1) \<Rightarrow>
                   (if \<not> errors_is e ErrNoSuchUpload then InternalError ''Could not cancel upload''
                    else Success (mr_StorageKey req), w1)
               | (None, w1) \<Rightarrow> (Success (mr_StorageKey req), w1))"

subsection \<open>Sizes\<close>

lemma total_size_sum:
  assumes "\<forall>p \<in> set held. 0 \<le> p_Size p" "sum_list (map p_Size held) < 2 ^ 63"
  shows "total_size held = sum_list (map p_Size held)"
proof -
  have "foldl (\<lambda>t p. wrap64 (t + p_Size p)) t held = t + sum_list (map p_Size held)"
    if "0 \<le> t" "t + sum_list (map p_Size held) < 2 ^ 63" for t
    using assms(1) that
  proof (induction held arbitrary: t)
    case (Cons p ps)
    have "0 \<le> sum_list (map p_Size ps)" using Cons.prems(1) by (intro sum_list_nonneg) auto
    with Cons.prems have "wrap64 (t + p_Size p) = t + p_Size p" by (intro wrap64_id) auto
    with Cons show ?case by (simp add: add.assoc)
  qed simp
  from this [of 0] assms(2) show ?thesis by (simp add: total_size_def)
qed

lemma part_count_exact:
  assumes "0 < n" "n \<le> 2 ^ 63 - PartSize"
  shows "part_count n = (n + PartSize - 1) div PartSize"
    and "(part_count n - 1) * PartSize < n" "n \<le> part_count n * PartSize" "1 \<le> part_count n"
proof -
  let ?m = "n + PartSize - 1"
  have "wrap64 ?m = ?m" using assms by (intro wrap64_id) (simp_all add: PartSize_def)
  then show c: "part_count n = ?m div PartSize"
    using assms by (simp add: part_count_def PartSize_def signed_divide_int_def)
  have "?m div PartSize * PartSize + ?m mod PartSize = ?m" by (rule div_mult_mod_eq)
  moreover have "0 \<le> ?m mod PartSize" "?m mod PartSize < PartSize"
    by (simp_all add: PartSize_def)
  moreover have "(?m div PartSize - 1) * PartSize = ?m div PartSize * PartSize - PartSize"
    by (simp add: left_diff_distrib)
  ultimately show "(part_count n - 1) * PartSize < n" "n \<le> part_count n * PartSize"
    unfolding c by linarith+
  show "1 \<le> part_count n"
    unfolding c using assms by (simp add: PartSize_def pos_imp_zdiv_pos_iff)
qed

subsection \<open>As wired by the server\<close>

definition live_multipart :: "'s s3_client \<Rightarrow> string \<Rightarrow> int \<Rightarrow> (db \<times> 's) multipart_handler" where
  "live_multipart c bucket maxBytes =
     \<lparr>mh_storage = s3_multipart c bucket, mh_uploads = Some db_upload_recorder,
      mh_maxUploadBytes = maxBytes\<rparr>"

lemma live_multipart_simps [simp]:
  "mh_storage (live_multipart c bucket m) = s3_multipart c bucket"
  "mh_uploads (live_multipart c bucket m) = Some db_upload_recorder"
  "mh_maxUploadBytes (live_multipart c bucket m) = m"
  by (simp_all add: live_multipart_def)

lemma sort_key_twice: "sort_key f (sort_key f xs) = sort_key f xs"
  by (rule sort_key_id_if_sorted) simp

lemma wrapNoSuchUpload_is:
  "errors_is (wrapNoSuchUpload format key e) ErrNoSuchUpload \<longleftrightarrow>
     errors_as_api e = Some ''NoSuchUpload'' \<or> errors_is e ErrNoSuchUpload"
  by (simp add: wrapNoSuchUpload_def)

text \<open>
  C22. The size limit holds for multipart uploads too, against what the bucket holds and not
  what the client claims: \<open>Complete\<close> with a valid key and a known session never asks S3 to
  assemble parts that exceed the limit in total but aborts the session and answers 413;
  otherwise it passes on exactly the client's parts in ascending order, once, and only an
  unknown session becomes a 404.
\<close>

theorem Complete_enforces_limit:
  assumes "complete_tags req" "validKey (mr_StorageKey req)"
    and "S3_ListParts c bucket (mr_StorageKey req) (mr_UploadID req) (snd w) = Some (Inr held, s1)"
    and "\<forall>p \<in> set held. 0 \<le> p_Size p" "sum_list (map p_Size held) < 2 ^ 63"
  shows "Complete (live_multipart c bucket maxBytes) (Some req) w =
    (if maxBytes < sum_list (map p_Size held) then
       Some (Error 413 ''File too large'',
         (fst w, snd (S3_AbortMultipartUpload c bucket (mr_StorageKey req) (mr_UploadID req) s1)))
     else case c_CompleteMultipartUpload c bucket (mr_StorageKey req) (mr_UploadID req)
              (map (\<lambda>p. (p_PartNumber p, p_ETag p)) (sort_key p_PartNumber (mc_Parts req))) s1 of
        (None, s2) \<Rightarrow>
          Some (Success \<lparr>mcr_StorageKey = mr_StorageKey req,
            mcr_ID = fst (Split (mr_StorageKey req)), mcr_Name = snd (Split (mr_StorageKey req))\<rparr>, (fst w, s2))
      | (Some e, s2) \<Rightarrow>
          Some (if errors_as_api e = Some ''NoSuchUpload'' \<or> errors_is e ErrNoSuchUpload
                then NotFound ''Upload session no longer exists, start it again''
                else InternalError ''Could not finish upload'', (fst w, s2)))"
proof -
  have total: "total_size held = sum_list (map p_Size held)"
    by (rule total_size_sum [OF assms(4,5)])
  obtain x s2 where c: "c_CompleteMultipartUpload c bucket (mr_StorageKey req) (mr_UploadID req)
      (map (\<lambda>p. (p_PartNumber p, p_ETag p)) (sort_key p_PartNumber (mc_Parts req))) s1 = (x, s2)"
    by (rule prod.exhaust)
  have list: "ms_ListParts (s3_multipart c bucket) (mr_StorageKey req) (mr_UploadID req) w
      = Some (Inr held, (fst w, s1))"
    using assms(3) by (simp add: s3_multipart_def)
  have compl: "ms_CompleteMultipartUpload (s3_multipart c bucket) (mr_StorageKey req) (mr_UploadID req)
      (sort_key p_PartNumber (mc_Parts req)) (fst w, s1)
    = (map_option (wrapNoSuchUpload ''completing multipart upload %q'' (mr_StorageKey req)) x, (fst w, s2))"
    by (cases x) (simp_all add: s3_multipart_def on_s3_def S3_CompleteMultipartUpload_def
        sort_key_twice c)
  have abort: "ms_AbortMultipartUpload (s3_multipart c bucket) key uid (fst w, s1)
      = (fst (S3_AbortMultipartUpload c bucket key uid s1), (fst w, snd (S3_AbortMultipartUpload c bucket key uid s1)))"
    for key uid
    by (simp add: s3_multipart_def on_s3_def split: prod.splits)
  show ?thesis
    using assms(1,2)
    by (cases x) (simp_all add: Complete_def ShouldBindJSON_def list compl abort total c
        multipartError_def wrapNoSuchUpload_is)
qed

definition sample_complete :: complete_request where
  "sample_complete = \<lparr>mr_StorageKey = Build sample_id ''page.txt'', mr_UploadID = ''u'',
     mc_Parts = [\<lparr>p_PartNumber = 2, p_ETag = ''b'', p_Size = 0\<rparr>, \<lparr>p_PartNumber = 1, p_ETag = ''a'', p_Size = 0\<rparr>]\<rparr>"

lemma sample_held: "S3_ListParts two_page_client ''b'' k ''u'' () =
    Some (Inr (map to_part [sample_sdk_part 1, sample_sdk_part 2, sample_sdk_part 3]), ())"
  unfolding S3_ListParts_def
  by (subst list_parts_loop.simps, simp add: two_page_client_def Let_def, subst list_parts_loop.simps)
    (simp add: two_page_client_def Let_def)

theorem Complete_enforces_limit_witness:
  "Complete (live_multipart two_page_client ''b'' 26) (Some sample_complete) (empty_db, ())
     = Some (Error 413 ''File too large'', (empty_db, ()))"
proof -
  have "complete_tags sample_complete" "validKey (mr_StorageKey sample_complete)"
    "mr_UploadID sample_complete = ''u''"
    by (simp_all add: complete_tags_def ref_tags_def sample_complete_def sample_name(2))
      (simp add: Build_def)
  from Complete_enforces_limit [OF this(1,2), of two_page_client "''b''" "(empty_db, ())"
      "map to_part [sample_sdk_part 1, sample_sdk_part 2, sample_sdk_part 3]" "()" 26] this(3)
  show ?thesis by (simp add: sample_held to_part_def sample_sdk_part_def)
qed

text \<open>The row of an upload that starts: when its key is fresh, with the data of the request.\<close>

definition tracked :: "ctx \<Rightarrow> db \<Rightarrow> string \<Rightarrow> string \<Rightarrow> int \<Rightarrow> time \<Rightarrow> upload_row \<Rightarrow> bool" where
  "tracked ctx d key name n now row \<longleftrightarrow> u_storage_key row = key
     \<and> (key \<notin> u_storage_key ` set (uploads_t d) \<longrightarrow>
          uuid_arg d (nullable (case c_User ctx of Some u \<Rightarrow> usr_ID u | None \<Rightarrow> [])) = Inr (u_owner_id row)
          \<and> u_size_bytes row = n \<and> u_file_name row = name \<and> u_created_at row = pg_ts now)"

lemma recordUploadFor_tracked:
  assumes "recordUploadFor ctx (Some db_upload_recorder) key name n now w = (None, w')"
  shows "\<exists>row \<in> set (uploads_t (fst w')). tracked ctx (fst w) key name n now row"
  using recordUploadFor_live(2) [OF assms] by (fastforce simp: tracked_def)

text \<open>How \<open>Init\<close> can end.\<close>

lemma Init_cases:
  assumes "Init (live_multipart c bucket maxBytes) ctx body uuid now w = (r, w')"
  obtains (refused) "w' = w" "\<forall>resp. r \<noteq> Success resp"
  | (no_session) key ct e where "c_CreateMultipartUpload c bucket key ct (snd w) = (Inl e, snd w')"
      "fst w' = fst w" "\<forall>resp. r \<noteq> Success resp"
  | (aborted) key ct uid s1 where "c_CreateMultipartUpload c bucket key ct (snd w) = (Inr uid, s1)"
      "snd w' = snd (c_AbortMultipartUpload c bucket key (case uid of None \<Rightarrow> [] | Some u \<Rightarrow> u) s1)"
      "\<forall>resp. r \<noteq> Success resp"
  | (started) req uid s1 where "body = Some req" "init_tags req" "iq_Size req \<le> maxBytes"
      "part_count (iq_Size req) \<le> maxParts"
      "c_CreateMultipartUpload c bucket (Build uuid (sanitizeFilename (iq_Name req)))
         (default_content_type (iq_ContentType req)) (snd w) = (Inr uid, s1)" "snd w' = s1"
      "\<exists>row \<in> set (uploads_t (fst w')). tracked ctx (fst w) (Build uuid (sanitizeFilename (iq_Name req)))
         (sanitizeFilename (iq_Name req)) (iq_Size req) now row"
      "r = Success \<lparr>ir_StorageKey = Build uuid (sanitizeFilename (iq_Name req)),
          ir_UploadID = (case uid of None \<Rightarrow> [] | Some u \<Rightarrow> u), ir_Name = sanitizeFilename (iq_Name req),
          ir_PartSize = PartSize, ir_PartCount = part_count (iq_Size req),
          ir_ExpiresIn = in_seconds UploadPresignTTL\<rparr>"
proof (cases "\<exists>req. body = Some req \<and> init_tags req \<and> iq_Size req \<le> maxBytes
    \<and> part_count (iq_Size req) \<le> maxParts")
  case False
  with assms have "w' = w" "\<forall>resp. r \<noteq> Success resp"
    by (auto simp: Init_def ShouldBindJSON_def not_less split: option.splits if_splits)
  then show thesis by (rule refused)
next
  case True
  then obtain req where req: "body = Some req" "init_tags req" "iq_Size req \<le> maxBytes"
    "part_count (iq_Size req) \<le> maxParts" by blast
  let ?name = "sanitizeFilename (iq_Name req)" and ?ct = "default_content_type (iq_ContentType req)"
  let ?key = "Build uuid ?name"
  obtain x s1 where cr: "c_CreateMultipartUpload c bucket ?key ?ct (snd w) = (x, s1)" by (rule prod.exhaust)
  show thesis
  proof (cases x)
    case (Inl e)
    with assms req cr show thesis
      by (intro no_session) (auto simp: Init_def ShouldBindJSON_def Let_def s3_multipart_def on_s3_def
          S3_CreateMultipartUpload_def)
  next
    case (Inr uid)
    let ?uid = "case uid of None \<Rightarrow> [] | Some u \<Rightarrow> u"
    obtain y w2 where rec: "recordUploadFor ctx (Some db_upload_recorder) ?key ?name (iq_Size req) now
        (fst w, s1) = (y, w2)" by (rule prod.exhaust)
    note rec_ok = recordUploadFor_live [OF rec]
    have create: "ms_CreateMultipartUpload (s3_multipart c bucket) ?key ?ct w = (Inr ?uid, (fst w, s1))"
      using cr Inr by (simp add: s3_multipart_def on_s3_def S3_CreateMultipartUpload_def)
    show thesis
    proof (cases y)
      case (Some e)
      have "snd (snd (ms_AbortMultipartUpload (s3_multipart c bucket) ?key ?uid w2))
          = snd (c_AbortMultipartUpload c bucket ?key ?uid s1)"
        using rec_ok(1) by (simp add: s3_multipart_def on_s3_def S3_AbortMultipartUpload_def
            split: prod.splits option.splits)
      with assms req create rec Some cr Inr show thesis
        by (intro aborted) (auto simp: Init_def ShouldBindJSON_def Let_def)
    next
      case None
      with assms req create rec have "w' = w2" "r = Success \<lparr>ir_StorageKey = ?key,
          ir_UploadID = ?uid, ir_Name = ?name, ir_PartSize = PartSize,
          ir_PartCount = part_count (iq_Size req), ir_ExpiresIn = in_seconds UploadPresignTTL\<rparr>"
        by (simp_all add: Init_def ShouldBindJSON_def Let_def)
      moreover from rec None have "\<exists>row \<in> set (uploads_t (fst w2)). tracked ctx (fst w) ?key ?name (iq_Size req) now row"
        using recordUploadFor_tracked [of ctx ?key ?name "iq_Size req" now "(fst w, s1)" w2] by simp
      ultimately show thesis using req cr Inr rec_ok(1) by (intro started) auto
    qed
  qed
qed

text \<open>
  C23. Starting a multipart upload leaves nothing behind that the service does not know of.
  Success means a session for a key that has an upload row, and if the key was fresh a new
  one with the user, the size and the sanitised name of the request; and a part count that
  is exact: that many parts of 8 MiB hold the file, one fewer do not, and it is between 1
  and 10000. Otherwise no session was opened, or the abort of the session that was opened
  has been sent. (The configured limit is to leave room for one part below \<open>2 ^ 63\<close>, where
  the count would overflow.)
\<close>

theorem Init_tracked_or_aborted:
  assumes "Init (live_multipart c bucket maxBytes) ctx body uuid now w = (r, w')"
    and "maxBytes \<le> 2 ^ 63 - PartSize"
  shows "(\<exists>resp req uid s1. r = Success resp \<and> body = Some req \<and> 0 < iq_Size req \<and> iq_Size req \<le> maxBytes
      \<and> ir_StorageKey resp = Build uuid (sanitizeFilename (iq_Name req))
      \<and> c_CreateMultipartUpload c bucket (ir_StorageKey resp) (default_content_type (iq_ContentType req)) (snd w)
          = (Inr uid, s1) \<and> snd w' = s1
      \<and> (\<exists>row \<in> set (uploads_t (fst w')).
            tracked ctx (fst w) (ir_StorageKey resp) (sanitizeFilename (iq_Name req)) (iq_Size req) now row)
      \<and> (ir_PartCount resp - 1) * PartSize < iq_Size req \<and> iq_Size req \<le> ir_PartCount resp * PartSize
      \<and> 1 \<le> ir_PartCount resp \<and> ir_PartCount resp \<le> 10000)
    \<or> (\<forall>resp. r \<noteq> Success resp) \<and>
      (w' = w \<or> (\<exists>key ct e. c_CreateMultipartUpload c bucket key ct (snd w) = (Inl e, snd w') \<and> fst w' = fst w)
       \<or> (\<exists>key ct uid s1. c_CreateMultipartUpload c bucket key ct (snd w) = (Inr uid, s1)
            \<and> snd w' = snd (c_AbortMultipartUpload c bucket key (case uid of None \<Rightarrow> [] | Some u \<Rightarrow> u) s1)))"
  using assms(1)
proof (cases rule: Init_cases)
  case (started req uid s1)
  from started(1-3) assms(2) have "0 < iq_Size req" "iq_Size req \<le> 2 ^ 63 - PartSize"
    by (simp_all add: init_tags_def)
  from started part_count_exact(2-4) [OF this] this(1) show ?thesis by (simp add: maxParts_def)
qed blast+

theorem Init_tracked_or_aborted_witness:
  "\<exists>resp w'. Init (live_multipart two_page_client ''b'' (2 ^ 40)) sample_ctx
       (Some \<lparr>iq_Name = ''page.txt'', iq_Size = 8388609, iq_ContentType = []\<rparr>) sample_id 7000 (empty_db, ())
       = (Success resp, w') \<and> 1 \<le> ir_PartCount resp \<and> ir_PartCount resp \<le> 10000"
proof -
  obtain resp w' where run: "Init (live_multipart two_page_client ''b'' (2 ^ 40)) sample_ctx
       (Some \<lparr>iq_Name = ''page.txt'', iq_Size = 8388609, iq_ContentType = []\<rparr>) sample_id 7000 (empty_db, ())
       = (Success resp, w')"
    by (simp add: Init_def ShouldBindJSON_def init_tags_def s3_multipart_def on_s3_def two_page_client_def
        S3_CreateMultipartUpload_def sample_name recordUploadFor_def db_upload_recorder_def on_db_def
        UploadStore_Create_def sql_insert_upload_def sample_ctx_def uuid_arg_def nullable_def Let_def
        part_count_def PartSize_def wrap64_def maxParts_def)
  from Init_tracked_or_aborted [OF run] have "1 \<le> ir_PartCount resp" "ir_PartCount resp \<le> 10000"
    by (simp_all add: PartSize_def)
  with run show ?thesis by blast
qed

end
