(* ===== verification/ShareHandlers.thy ===== *)
theory ShareHandlers
  imports FileHandlers
begin

section \<open>internal/handlers/share.go: creating, rotating, opening and revoking shares\<close>

text \<open>
  \<open>ShareHandler\<close> over the interfaces of \<open>Interfaces\<close>, one definition per method. The
  handler's limiters are part of its value and are returned updated; the world behind the
  interfaces is \<open>'w\<close>. Every reading of the clock is an argument, random bytes come from
  the entropy argument, and \<open>None\<close> as the result of a drawing handler says that the given
  random bytes did not suffice.
\<close>

subsection \<open>Requests, responses and the handler\<close>

record create_request =
  cq_StorageKey :: string
  cq_OwnerEmail :: string
  cq_RecipientEmail :: string
  cq_TTLHours :: int

record create_response =
  cr_Slug :: string
  cr_Code :: string
  cr_FileName :: string
  cr_FileSize :: int
  cr_ShareCount :: int
  cr_Rotated :: bool
  cr_ExpiresAt :: time

record share_meta =
  mt_Slug :: string
  mt_FileName :: string
  mt_FileSize :: int
  mt_ShareCount :: int
  mt_CreatedAt :: time
  mt_ExpiresAt :: time
  mt_Expired :: bool

record unlock_request =
  uq_Code :: string
  uq_Download :: bool

record unlock_response =
  ur_URL :: string
  ur_ExpiresIn :: int
  ur_FileName :: string
  ur_FileSize :: int

record 'w share_handler =
  h_store :: "'w share_store"
  h_files :: "'w obj_storage"
  h_uploads :: "'w upload_lookup option"
  h_anonTTL :: duration
  h_ownedTTL :: duration
  h_perIP :: limiter
  h_perSlug :: limiter
  h_metaPerIP :: limiter

definition maxEmailLength :: nat where "maxEmailLength = 320"

definition NewShareHandler ::
  "'w share_store \<Rightarrow> 'w obj_storage \<Rightarrow> 'w upload_lookup option \<Rightarrow> duration \<Rightarrow> duration \<Rightarrow> 'w share_handler"
where
  "NewShareHandler store files uploads anonTTL ownedTTL =
     \<lparr>h_store = store, h_files = files, h_uploads = uploads, h_anonTTL = anonTTL,
      h_ownedTTL = ownedTTL, h_perIP = newRateLimiter 10 Minute,
      h_perSlug = newRateLimiter 30 Minute, h_metaPerIP = newRateLimiter 60 Minute\<rparr>"

definition create_tags :: "create_request \<Rightarrow> bool" where
  "create_tags r \<longleftrightarrow> cq_StorageKey r \<noteq> []"

definition unlock_tags :: "unlock_request \<Rightarrow> bool" where
  "unlock_tags r \<longleftrightarrow> uq_Code r \<noteq> []"

definition ttl_of :: "create_request \<Rightarrow> duration" where
  "ttl_of req = wrap64 (cq_TTLHours req * Hour)"

subsection \<open>Creating and rotating\<close>

definition capToRetention :: "'w share_handler \<Rightarrow> string \<Rightarrow> share \<Rightarrow> 'w \<Rightarrow> share \<times> 'w" where
  "capToRetention h storageKey share w =
     (case h_uploads h of
        None \<Rightarrow> (share, w)
      | Some lookup \<Rightarrow>
          (case lookup storageKey w of
             (Inl e, w') \<Rightarrow> (share, w')
           | (Inr up, w') \<Rightarrow>
               (let window = (if up_OwnerID up \<noteq> [] then h_ownedTTL h else h_anonTTL h)
                in if window \<le> 0 then (share, w')
                   else (let deadline = up_CreatedAt up + window
                         in if deadline < sh_ExpiresAt share
                            then (share\<lparr>sh_ExpiresAt := deadline\<rparr>, w') else (share, w')))))"

definition create_reply :: "share \<Rightarrow> string \<Rightarrow> bool \<Rightarrow> create_response" where
  "create_reply share code rot =
     \<lparr>cr_Slug = sh_Slug share, cr_Code = code, cr_FileName = sh_FileName share,
      cr_FileSize = sh_FileSize share, cr_ShareCount = sh_ShareCount share, cr_Rotated = rot,
      cr_ExpiresAt = sh_ExpiresAt share\<rparr>"

definition rotateShare ::
  "'w share_handler \<Rightarrow> ctx \<Rightarrow> share \<Rightarrow> create_request \<Rightarrow> time \<Rightarrow> entropy \<Rightarrow> 'w
   \<Rightarrow> (create_response response \<times> entropy \<times> 'w) option" where
  "rotateShare h c share req now es w =
     (if sh_OwnerID share \<noteq> [] \<and>
         (case c_User c of None \<Rightarrow> True | Some user \<Rightarrow> usr_ID user \<noteq> sh_OwnerID share)
      then Some (Error 403 ''Only the person who shared this file can reshare it'', es, w)
      else
        let share = share\<lparr>sh_RecipientEmail := cq_RecipientEmail req\<rparr>
        in case os_GetFileSize (h_files h) (sh_StorageKey share) w of
             (Inl e, w1) \<Rightarrow>
               Some (if errors_is e ErrObjectNotFound then NotFound ''File not found''
                     else Error 502 ''Storage temporarily unavailable'', es, w1)
           | (Inr _, w1) \<Rightarrow>
               (case Rotate share (ttl_of req) now es of
                  None \<Rightarrow> None
                | Some (Inl e, es1) \<Rightarrow>
                    Some (if errors_is e ErrShareLimit
                          then Error 409 ''This file has reached its share limit of 3 codes''
                          else InternalError ''Could not create share'', es1, w1)
                | Some (Inr (share1, code), es1) \<Rightarrow>
                    (case capToRetention h (sh_StorageKey share1) share1 w1 of
                       (share2, w2) \<Rightarrow>
                         (case ss_RotateCode (h_store h) share2 w2 of
                            (Some e, w3) \<Rightarrow>
                              Some (InternalError ''Could not create share'', es1, w3)
                          | (None, w3) \<Rightarrow>
                              Some (Success (create_reply share2 code True), es1, w3)))))"

text \<open>
  \<open>CreateShare\<close> in three pieces, one after the other in the code: the checks and the
  lookup of an existing share, the making of a new one, and storing it, where a lost race
  turns into a rotation.
\<close>

definition store_new ::
  "'w share_handler \<Rightarrow> ctx \<Rightarrow> create_request \<Rightarrow> share \<Rightarrow> string \<Rightarrow> time \<Rightarrow> entropy \<Rightarrow> 'w
   \<Rightarrow> (create_response response \<times> entropy \<times> 'w) option" where
  "store_new h c req share code now' es w =
     (case ss_Create (h_store h) share w of
        (None, w1) \<Rightarrow> Some (Success (create_reply share code False), es, w1)
      | (Some e, w1) \<Rightarrow>
          (case ss_GetByStorageKey (h_store h) (cq_StorageKey req) w1 of
             (Inr racer, w2) \<Rightarrow> rotateShare h c racer req now' es w2
           | (Inl e', w2) \<Rightarrow> Some (InternalError ''Could not create share'', es, w2)))"

definition create_new ::
  "'w share_handler \<Rightarrow> ctx \<Rightarrow> create_request \<Rightarrow> time \<Rightarrow> time \<Rightarrow> entropy \<Rightarrow> 'w
   \<Rightarrow> (create_response response \<times> entropy \<times> 'w) option" where
  "create_new h c req now now' es w =
     (case os_GetFileSize (h_files h) (cq_StorageKey req) w of
        (Inl e, w1) \<Rightarrow>
          Some (if errors_is e ErrObjectNotFound then NotFound ''File not found''
                else Error 502 ''Storage temporarily unavailable'', es, w1)
      | (Inr n, w1) \<Rightarrow>
          let fileName = snd (Split (cq_StorageKey req));
              ownerID = (case c_User c of None \<Rightarrow> [] | Some user \<Rightarrow> usr_ID user);
              ownerEmail = (case c_User c of
                  None \<Rightarrow> cq_OwnerEmail req
                | Some user \<Rightarrow>
                    if cq_OwnerEmail req = [] then usr_Email user else cq_OwnerEmail req)
          in case NewShare (cq_StorageKey req) fileName n ownerID ownerEmail
                    (cq_RecipientEmail req) (ttl_of req) now es of
               None \<Rightarrow> None
             | Some (Inl e, es1) \<Rightarrow> Some (InternalError ''Could not create share'', es1, w1)
             | Some (Inr (share, code), es1) \<Rightarrow>
                 (case capToRetention h (cq_StorageKey req) share w1 of
                    (share1, w2) \<Rightarrow> store_new h c req share1 code now' es1 w2))"

definition CreateShare ::
  "'w share_handler \<Rightarrow> ctx \<Rightarrow> create_request option \<Rightarrow> time \<Rightarrow> time \<Rightarrow> entropy \<Rightarrow> 'w
   \<Rightarrow> (create_response response \<times> entropy \<times> 'w) option" where
  "CreateShare h c body now now' es w =
     (case ShouldBindJSON create_tags body of
        None \<Rightarrow> Some (BadRequest ''storage_key is required'', es, w)
      | Some req \<Rightarrow>
          if \<not> validKey (cq_StorageKey req) then Some (BadRequest ''Invalid storage key'', es, w)
          else if maxEmailLength < length (cq_RecipientEmail req)
                  \<or> maxEmailLength < length (cq_OwnerEmail req)
          then Some (BadRequest ''Email too long'', es, w)
          else case ss_GetByStorageKey (h_store h) (cq_StorageKey req) w of
            (Inr existing, w1) \<Rightarrow> rotateShare h c existing req now es w1
          | (Inl e, w1) \<Rightarrow>
              if \<not> errors_is e ErrNotFound
              then Some (Error 502 ''Storage temporarily unavailable'', es, w1)
              else create_new h c req now now' es w1)"

subsection \<open>Reading, opening, listing, revoking\<close>

definition loadShare :: "'w share_handler \<Rightarrow> string \<Rightarrow> 'w \<Rightarrow> ('a response + share) \<times> 'w" where
  "loadShare h slug w =
     (case ValidateSlug slug of
        Some e \<Rightarrow> (Inl (NotFound ''Share not found''), w)
      | None \<Rightarrow>
          (case ss_GetBySlug (h_store h) slug w of
             (Inl e, w') \<Rightarrow>
               (Inl (if errors_is e ErrNotFound then NotFound ''Share not found''
                     else Error 502 ''Storage temporarily unavailable''), w')
           | (Inr share, w') \<Rightarrow> (Inr share, w')))"

definition toMeta :: "share \<Rightarrow> time \<Rightarrow> share_meta" where
  "toMeta s now =
     \<lparr>mt_Slug = sh_Slug s, mt_FileName = sh_FileName s, mt_FileSize = sh_FileSize s,
      mt_ShareCount = sh_ShareCount s, mt_CreatedAt = sh_CreatedAt s,
      mt_ExpiresAt = sh_ExpiresAt s, mt_Expired = Expired s now\<rparr>"

definition GetShare ::
  "'w share_handler \<Rightarrow> ctx \<Rightarrow> string \<Rightarrow> time \<Rightarrow> time \<Rightarrow> 'w
   \<Rightarrow> share_meta response \<times> 'w share_handler \<times> 'w" where
  "GetShare h c slug now1 now2 w =
     (case Allow (h_metaPerIP h) (c_ClientIP c) now1 of
        (ok, l) \<Rightarrow>
          let h = h\<lparr>h_metaPerIP := l\<rparr>
          in if \<not> ok then (Error 429 ''Too many requests, slow down'', h, w)
             else case loadShare h slug w of
               (Inl r, w') \<Rightarrow> (r, h, w')
             | (Inr share, w') \<Rightarrow> (Success (toMeta share now2), h, w'))"

text \<open>The two limits of an unlock attempt: the second is only consulted after the first.\<close>

definition unlock_allowed ::
  "'w share_handler \<Rightarrow> string \<Rightarrow> string \<Rightarrow> time \<Rightarrow> time \<Rightarrow> bool \<times> 'w share_handler" where
  "unlock_allowed h slug ip now1 now2 =
     (case Allow (h_perSlug h) slug now1 of
        (False, l) \<Rightarrow> (False, h\<lparr>h_perSlug := l\<rparr>)
      | (True, l) \<Rightarrow>
          (case Allow (h_perIP h) (slug @ ''|'' @ ip) now2 of
             (ok, l') \<Rightarrow> (ok, h\<lparr>h_perSlug := l, h_perIP := l'\<rparr>)))"

definition UnlockShare ::
  "'w share_handler \<Rightarrow> ctx \<Rightarrow> string \<Rightarrow> unlock_request option \<Rightarrow> time \<Rightarrow> time \<Rightarrow> time \<Rightarrow> 'w
   \<Rightarrow> unlock_response response \<times> 'w share_handler \<times> 'w" where
  "UnlockShare h c slug body now1 now2 now3 w =
     (case ValidateSlug slug of
        Some e \<Rightarrow> (NotFound ''Share not found'', h, w)
      | None \<Rightarrow>
          (case unlock_allowed h slug (c_ClientIP c) now1 now2 of
             (False, h') \<Rightarrow> (Error 429 ''Too many attempts, slow down'', h', w)
           | (True, h') \<Rightarrow>
               (case ShouldBindJSON unlock_tags body of
                  None \<Rightarrow> (BadRequest ''code is required'', h', w)
                | Some req \<Rightarrow>
                    (case loadShare h' slug w of
                       (Inl r, w1) \<Rightarrow> (r, h', w1)
                     | (Inr share, w1) \<Rightarrow>
                         (case Verify share (uq_Code req) now3 of
                            Some e \<Rightarrow>
                              (if errors_is e ErrExpired then Error 410 ''This share has expired''
                               else if errors_is e ErrWrongCode then Error 403 ''Wrong access code''
                               else InternalError ''Could not verify code'', h', w1)
                          | None \<Rightarrow>
                              (case os_GetPresignedURL (h_files h') (sh_StorageKey share)
                                      (uq_Download req) w1 of
                                 (Inl e, w2) \<Rightarrow> (InternalError ''Could not prepare download'', h', w2)
                               | (Inr url, w2) \<Rightarrow>
                                   (Success \<lparr>ur_URL = url, ur_ExpiresIn = in_seconds PresignTTL,
                                             ur_FileName = sh_FileName share,
                                             ur_FileSize = sh_FileSize share\<rparr>, h', w2)))))))"

text \<open>\<open>clock i\<close> is the reading for the \<open>i\<close>-th share of the list.\<close>

definition ListMine ::
  "'w share_handler \<Rightarrow> ctx \<Rightarrow> (nat \<Rightarrow> time) \<Rightarrow> 'w \<Rightarrow> share_meta list response \<times> 'w" where
  "ListMine h c clock w =
     (case c_User c of
        None \<Rightarrow> (Error 401 ''Authentication required'', w)
      | Some user \<Rightarrow>
          (case ss_ListByOwner (h_store h) (usr_ID user) w of
             ((l, Some e), w') \<Rightarrow> (InternalError ''Could not load your shares'', w')
           | ((l, None), w') \<Rightarrow> (Success (map (\<lambda>(i, s). toMeta s (clock i)) (enumerate 0 l)), w')))"

definition RevokeShare ::
  "'w share_handler \<Rightarrow> ctx \<Rightarrow> string \<Rightarrow> 'w \<Rightarrow> string response \<times> 'w" where
  "RevokeShare h c slug w =
     (case c_User c of
        None \<Rightarrow> (Error 401 ''Authentication required'', w)
      | Some user \<Rightarrow>
          (case ValidateSlug slug of
             Some e \<Rightarrow> (NotFound ''Share not found'', w)
           | None \<Rightarrow>
               (case ss_Delete (h_store h) slug (usr_ID user) w of
                  (Some e, w') \<Rightarrow>
                    (if errors_is e ErrNotFound then NotFound ''Share not found''
                     else InternalError ''Could not revoke share'', w')
                | (None, w') \<Rightarrow> (Success slug, w'))))"

end
