(* ===== verification/ShareSpec.thy ===== *)
theory ShareSpec
  imports ShareHandlers
begin

section \<open>What the share handlers do to the shares: specification and refinement\<close>

text \<open>
  The abstract specification of the share service is a step relation on its content, the
  shares by slug: a caller may create a share for a file that has none, rotate the code
  of a share that is hers or nobody's, and revoke a share of her own. In the context of
  \<open>share_backend\<close> every handler is shown to refine it, whatever the backends fail at; the
  top-level theorems are those facts for Postgres and S3. Invariants of the specification
  (one link per file, at most three codes, fixed ownership) then hold of every sequence
  of requests.
\<close>

subsection \<open>The specification\<close>

type_synonym shares = "string \<Rightarrow> share option"

definition belongs :: "(string \<Rightarrow> share \<Rightarrow> bool) \<Rightarrow> user option \<Rightarrow> share \<Rightarrow> bool" where
  "belongs owns user s \<longleftrightarrow>
     (case user of
        None \<Rightarrow> sh_OwnerID s = []
      | Some u \<Rightarrow> if usr_ID u = [] then sh_OwnerID s = [] else owns (usr_ID u) s)"

definition may_rotate :: "user option \<Rightarrow> share \<Rightarrow> bool" where
  "may_rotate user s \<longleftrightarrow> sh_OwnerID s = [] \<or> (\<exists>u. user = Some u \<and> usr_ID u = sh_OwnerID s)"

inductive share_step ::
  "(string \<Rightarrow> share \<Rightarrow> bool) \<Rightarrow> user option \<Rightarrow> shares \<Rightarrow> shares \<Rightarrow> bool"
  for owns :: "string \<Rightarrow> share \<Rightarrow> bool" and user :: "user option" where
  created: "share_step owns user V (V(sh_Slug s \<mapsto> s))"
    if "V (sh_Slug s) = None"
      and "\<And>slug t. V slug = Some t \<Longrightarrow> sh_StorageKey t \<noteq> sh_StorageKey s"
      and "sh_ShareCount s = 1" and "belongs owns user s" and "ValidateSlug (sh_Slug s) = None"
| rotation: "share_step owns user V (V(slug \<mapsto> rotated old new e))"
    if "V slug = Some old" and "may_rotate user old"
      and "sh_ShareCount old < MaxShareCount" and "sh_ShareCount new = sh_ShareCount old + 1"
| revoked: "share_step owns user V (V(slug := None))"
    if "V slug = Some s" and "user = Some u" and "owns (usr_ID u) s"

text \<open>
  What one request may do, given what it asks for: a creation or re-share works on the file it
  names, at one slug, in one step, or in two when the reply to its insert was lost and it
  then finds and rotates the share it has just made; a revocation removes the share it
  names; everything else only reads.
\<close>

datatype api_call = Shares "string option" | Looks | Revokes string

inductive call_effect ::
  "(string \<Rightarrow> share \<Rightarrow> bool) \<Rightarrow> user option \<Rightarrow> api_call \<Rightarrow> shares \<Rightarrow> shares \<Rightarrow> bool"
  for owns :: "string \<Rightarrow> share \<Rightarrow> bool" and user :: "user option" where
  idle: "call_effect owns user call V V"
| shared: "call_effect owns user (Shares (Some (sh_StorageKey s))) V (V(slug \<mapsto> s))"
    if "share_step owns user V (V(slug \<mapsto> s))"
| retried: "call_effect owns user (Shares (Some (sh_StorageKey s))) V (V(slug \<mapsto> s'))"
    if "V slug = None" and "share_step owns user V (V(slug \<mapsto> s))"
      and "share_step owns user (V(slug \<mapsto> s)) (V(slug \<mapsto> s'))" and "sh_StorageKey s' = sh_StorageKey s"
| removed: "call_effect owns user (Revokes slug) V (V(slug := None))"
    if "share_step owns user V (V(slug := None))"

lemma call_effect_steps:
  assumes "call_effect owns user call V V'"
  shows "(share_step owns user)\<^sup>*\<^sup>* V V'"
  using assms by (cases rule: call_effect.cases) (auto intro: rtranclp.rtrancl_into_rtrancl)

text \<open>The content of a consistent store.\<close>

definition shares_ok :: "shares \<Rightarrow> bool" where
  "shares_ok V \<longleftrightarrow>
     (\<forall>slug s. V slug = Some s \<longrightarrow> sh_Slug s = slug \<and> 1 \<le> sh_ShareCount s \<and> sh_ShareCount s \<le> MaxShareCount
        \<and> ValidateSlug slug = None) \<and>
     (\<forall>a b s t. V a = Some s \<longrightarrow> V b = Some t \<longrightarrow> sh_StorageKey s = sh_StorageKey t \<longrightarrow> a = b)"

lemma rotated_simps [simp]:
  "sh_Slug (rotated old new e) = sh_Slug old" "sh_StorageKey (rotated old new e) = sh_StorageKey old"
  "sh_OwnerID (rotated old new e) = sh_OwnerID old" "sh_CreatedAt (rotated old new e) = sh_CreatedAt old"
  "sh_ShareCount (rotated old new e) = sh_ShareCount new" "sh_CodeSalt (rotated old new e) = sh_CodeSalt new"
  "sh_CodeHash (rotated old new e) = sh_CodeHash new" "sh_ExpiresAt (rotated old new e) = e"
  "sh_FileName (rotated old new e) = sh_FileName old" "sh_FileSize (rotated old new e) = sh_FileSize old"
  by (simp_all add: rotated_def)

lemma shares_okD:
  assumes "shares_ok V" "V slug = Some s"
  shows "sh_Slug s = slug" "1 \<le> sh_ShareCount s" "sh_ShareCount s \<le> MaxShareCount"
    "ValidateSlug slug = None"
    "V b = Some t \<Longrightarrow> sh_StorageKey t = sh_StorageKey s \<Longrightarrow> b = slug"
  using assms unfolding shares_ok_def by blast+

lemma share_step_ok:
  assumes "share_step owns user V V'" "shares_ok V"
  shows "shares_ok V'"
  using assms(1)
proof (cases rule: share_step.cases)
  case (created s)
  then have "sh_StorageKey s \<noteq> sh_StorageKey t" if "V b = Some t" for b t
    using that by metis
  with created assms(2) show ?thesis by (auto simp: shares_ok_def MaxShareCount_def)
next
  case (rotation slug old new e)
  note old = shares_okD [OF assms(2) rotation(2)]
  have one: "\<exists>s'. V x = Some s' \<and> sh_StorageKey s = sh_StorageKey s' \<and> sh_Slug s = x
      \<and> 1 \<le> sh_ShareCount s \<and> sh_ShareCount s \<le> MaxShareCount \<and> ValidateSlug x = None" if "V' x = Some s" for x s
    using that rotation old(1,2,4) shares_okD(1-4) [OF assms(2), of x]
    by (auto split: if_splits)
  show ?thesis
    unfolding shares_ok_def
  proof (intro conjI allI impI)
    fix a b s t assume "V' a = Some s" "V' b = Some t" "sh_StorageKey s = sh_StorageKey t"
    with one [of a s] one [of b t] show "a = b"
      using shares_okD(5) [OF assms(2)] by metis
  qed (use one in blast)+
next
  case (revoked slug s u)
  with assms(2) show ?thesis by (auto simp: shares_ok_def split: if_splits)
qed

text \<open>A share is only ever changed or removed on behalf of its owner, and keeps owner, file and slug.\<close>

lemma share_step_owner:
  assumes "share_step owns user V V'" "V slug = Some s" "sh_OwnerID s \<noteq> []"
    and "\<not> may_rotate user s" "\<And>u. user = Some u \<Longrightarrow> \<not> owns (usr_ID u) s"
  shows "V' slug = Some s"
  using assms(1) by (cases rule: share_step.cases) (use assms(2-) in \<open>auto split: if_splits\<close>)

lemma share_step_keeps:
  assumes "share_step owns user V V'" "V slug = Some s" "V' slug = Some s'"
  shows "sh_OwnerID s' = sh_OwnerID s \<and> sh_StorageKey s' = sh_StorageKey s
    \<and> sh_CreatedAt s' = sh_CreatedAt s \<and> sh_ShareCount s \<le> sh_ShareCount s'"
  using assms(1) by (cases rule: share_step.cases) (use assms(2-) in \<open>auto split: if_splits\<close>)

subsection \<open>The handlers refine it, over any backend that keeps the contract\<close>

lemma unlock_allowed_fields:
  assumes "unlock_allowed h slug ip t1 t2 = (b, h')"
  shows "h_store h' = h_store h" "h_files h' = h_files h" "h_uploads h' = h_uploads h"
  using assms by (auto simp: unlock_allowed_def split: prod.splits bool.splits)

context share_backend begin

lemma capToRetention_frame:
  assumes "ok w" "h_uploads h = lookup" "capToRetention h key s w = (s', w')"
  shows "ok w' \<and> view w' = view w \<and> (\<exists>e. s' = s\<lparr>sh_ExpiresAt := e\<rparr> \<and> e \<le> sh_ExpiresAt s)"
proof (cases lookup)
  case None
  with assms show ?thesis by (auto simp: capToRetention_def intro!: exI [of _ "sh_ExpiresAt s"])
next
  case (Some lk)
  obtain up w1 where up: "lk key w = (up, w1)" by (rule prod.exhaust)
  note frame = lookup_frame [OF assms(1) Some up]
  have same: "\<exists>e. s = s\<lparr>sh_ExpiresAt := e\<rparr> \<and> e \<le> sh_ExpiresAt s"
    by (intro exI [of _ "sh_ExpiresAt s"]) simp
  from assms Some up frame same show ?thesis
    by (auto simp: capToRetention_def Let_def split: sum.splits if_splits)
qed

text \<open>
  A rotation request has no effect and reports a failure, or it replaces the code of the
  share with the one it reports, on behalf of someone who may. The share \<open>s\<close> it works on
  was read earlier; the row it updates may have changed since.
\<close>

lemma rotateShare_stale:
  assumes "ok w" "h_store h = store" "h_files h = files" "h_uploads h = lookup"
    and "rotateShare h c s req now es w = Some (r, es', w')"
  obtains (unchanged) "ok w'" "view w' = view w" "\<And>resp. r \<noteq> Success resp"
  | (rotated) s1 code s2 old where "ok w'" "may_rotate (c_User c) s"
      "Rotate (s\<lparr>sh_RecipientEmail := cq_RecipientEmail req\<rparr>) (ttl_of req) now es
         = Some (Inr (s1, code), es')"
      "\<exists>e. s2 = s1\<lparr>sh_ExpiresAt := e\<rparr> \<and> e \<le> sh_ExpiresAt s1"
      "view w (sh_Slug s) = Some old"
      "view w' = (view w)(sh_Slug s \<mapsto> rotated old s2 (stamp (sh_ExpiresAt s2)))"
      "\<And>resp. r = Success resp \<Longrightarrow> resp = create_reply s2 code True"
proof -
  let ?s = "s\<lparr>sh_RecipientEmail := cq_RecipientEmail req\<rparr>"
  show thesis
  proof (cases "may_rotate (c_User c) s")
    case False
    with assms(1,5) unchanged show thesis
      by (auto simp: rotateShare_def may_rotate_def split: option.splits)
  next
    case True
    then have guard: "\<not> (sh_OwnerID s \<noteq> [] \<and>
        (case c_User c of None \<Rightarrow> True | Some user \<Rightarrow> usr_ID user \<noteq> sh_OwnerID s))"
      by (auto simp: may_rotate_def)
    obtain sz w1 where size: "os_GetFileSize files (sh_StorageKey s) w = (sz, w1)"
      by (rule prod.exhaust)
    from size_frame [OF assms(1) size] have w1: "ok w1" "view w1 = view w" by auto
    note step = assms(5) [unfolded rotateShare_def Let_def assms(3), unfolded guard if_False]
    show thesis
    proof (cases sz)
      case (Inl e)
      with step size guard w1 unchanged show thesis by (auto split: if_splits)
    next
      case (Inr n)
      show thesis
      proof (cases "Rotate ?s (ttl_of req) now es")
        case None
        with step size guard Inr show thesis by simp
      next
        case (Some z)
        show thesis
        proof (cases "fst z")
          case (Inl e)
          with Some step size guard Inr w1 unchanged show thesis
            by (cases z) (auto split: if_splits)
        next
          case rot: (Inr sc)
          obtain s1 code es1 where z: "z = (Inr (s1, code), es1)"
            using rot by (cases z; cases sc) auto
          obtain s2 w2 where cap: "capToRetention h (sh_StorageKey s1) s1 w1 = (s2, w2)"
            by (rule prod.exhaust)
          from capToRetention_frame [OF w1(1) assms(4) cap] w1
          have w2: "ok w2" "view w2 = view w" and e: "\<exists>e. s2 = s1\<lparr>sh_ExpiresAt := e\<rparr> \<and> e \<le> sh_ExpiresAt s1"
            by auto
          obtain x w3 where up: "ss_RotateCode store s2 w2 = (x, w3)" by (rule prod.exhaust)
          have slug: "sh_Slug s2 = sh_Slug s"
            using e Some z by (auto elim: Rotate_Inr)
          from step size guard Inr Some z cap up assms(2) have w': "w' = w3" "es' = es1"
            and r: "\<And>resp. r = Success resp \<Longrightarrow> resp = create_reply s2 code True \<and> x = None"
            by (auto split: option.splits)
          from rotate_effect [OF w2(1) up] w2(2) slug w'
          consider "ok w'" "view w' = view w" "x \<noteq> None"
            | old where "ok w'" "view w (sh_Slug s) = Some old"
              "view w' = (view w)(sh_Slug s \<mapsto> rotated old s2 (stamp (sh_ExpiresAt s2)))"
            by auto
          then show thesis
          proof cases
            case 1
            with r unchanged show thesis by blast
          next
            case (2 old)
            with rotated [OF _ True _ e] Some z w' r show thesis by auto
          qed
        qed
      qed
    qed
  qed
qed

lemma rotateShare_cases:
  assumes "ok w" "h_store h = store" "h_files h = files" "h_uploads h = lookup"
    and "view w (sh_Slug s) = Some s"
    and "rotateShare h c s req now es w = Some (r, es', w')"
  obtains (unchanged) "ok w'" "view w' = view w" "\<And>resp. r \<noteq> Success resp"
  | (rotated) s1 code s2 where "ok w'" "may_rotate (c_User c) s"
      "Rotate (s\<lparr>sh_RecipientEmail := cq_RecipientEmail req\<rparr>) (ttl_of req) now es
         = Some (Inr (s1, code), es')"
      "\<exists>e. s2 = s1\<lparr>sh_ExpiresAt := e\<rparr> \<and> e \<le> sh_ExpiresAt s1"
      "view w' = (view w)(sh_Slug s \<mapsto> rotated s s2 (stamp (sh_ExpiresAt s2)))"
      "\<And>resp. r = Success resp \<Longrightarrow> resp = create_reply s2 code True"
  using assms(1-4,6)
proof (cases rule: rotateShare_stale)
  case unchanged
  then show thesis by (rule that(1))
next
  case (rotated s1 code s2 old)
  with assms(5) have "old = s" by simp
  with rotated show thesis by (intro that(2) [of s1 code s2]) auto
qed

lemma rotateShare_refines:
  assumes "ok w" "h_store h = store" "h_files h = files" "h_uploads h = lookup"
    and "view w (sh_Slug s) = Some s"
    and "rotateShare h c s req now es w = Some (r, es', w')"
  shows "ok w' \<and> (share_step owns (c_User c))\<^sup>=\<^sup>= (view w) (view w')"
  using assms
proof (cases rule: rotateShare_cases)
  case (rotated s1 code s2)
  from rotated(3) have "sh_ShareCount s < MaxShareCount" "sh_ShareCount s1 = sh_ShareCount s + 1"
    by (auto elim: Rotate_Inr)
  moreover from rotated(4) have "sh_ShareCount s2 = sh_ShareCount s1" by auto
  ultimately have "share_step owns (c_User c) (view w) (view w')"
    unfolding rotated(5) by (intro share_step.rotation assms(5) rotated(2)) simp_all
  with rotated(1) show ?thesis by simp
qed simp

text \<open>A share made for a file that had none.\<close>

definition fresh_share :: "user option \<Rightarrow> string \<Rightarrow> shares \<Rightarrow> shares \<Rightarrow> bool" where
  "fresh_share user key V V' \<longleftrightarrow> (\<exists>slug s. V slug = None \<and> V' = V(slug \<mapsto> s) \<and> sh_StorageKey s = key
     \<and> (\<forall>slug t. V slug = Some t \<longrightarrow> sh_StorageKey t \<noteq> key) \<and> share_step owns user V V')"

text \<open>
  The outcomes of a creation: nothing; a new share with the code reported; a new share whose
  reply was lost; or a rotation of a share of the same file, possibly of the one just made.
\<close>

inductive outcome_of ::
  "'w share_handler \<Rightarrow> ctx \<Rightarrow> create_request \<Rightarrow> shares \<Rightarrow> create_response response \<Rightarrow> entropy \<Rightarrow> 'w \<Rightarrow> bool"
  for h c req V r es' w' where
  nothing: "outcome_of h c req V r es' w'"
    if "ok w'" and "view w' = V" and "\<forall>resp. r \<noteq> Success resp"
| made: "outcome_of h c req V r es' w'"
    if "ok w'" and "view w' = V(sh_Slug s \<mapsto> save s)" and "share_step owns (c_User c) V (view w')"
      and "sh_StorageKey s = cq_StorageKey req"
      and "sh_CodeSalt s = hex_encode salt" and "sh_CodeHash s = hashCode salt code"
      and "set code \<subseteq> set codeAlphabet" and "r = Success (create_reply s code False)"
| reshared: "outcome_of h c req V r es' w'"
    if "ok w1" and "view w1 = V \<or> fresh_share (c_User c) (cq_StorageKey req) V (view w1)"
      and "view w1 (sh_Slug s) = Some s" and "sh_StorageKey s = cq_StorageKey req"
      and "rotateShare h c s req t es1 w1 = Some (r, es', w')"
| lost: "outcome_of h c req V r es' w'"
    if "ok w'" and "fresh_share (c_User c) (cq_StorageKey req) V (view w')" and "\<forall>resp. r \<noteq> Success resp"

lemma store_new_outcome:
  assumes "ok w" "h_store h = store" "h_files h = files" "h_uploads h = lookup"
    and "store_new h c req s code now' es w = Some (r, es', w')"
    and s: "sh_StorageKey s = cq_StorageKey req" "sh_ShareCount s = 1"
      "ValidateSlug (sh_Slug s) = None" "set code \<subseteq> set codeAlphabet"
      "sh_CodeSalt s = hex_encode salt" "sh_CodeHash s = hashCode salt code"
      "sh_OwnerID s = (case c_User c of None \<Rightarrow> [] | Some user \<Rightarrow> usr_ID user)"
  shows "outcome_of h c req (view w) r es' w'"
proof -
  obtain e w1 where cr: "ss_Create store s w = (e, w1)" by (rule prod.exhaust)
  from create_effect [OF assms(1) cr] have ok1: "ok w1"
    and effect: "view w1 = view w \<and> e \<noteq> None \<or>
      view w1 = (view w)(sh_Slug s \<mapsto> save s) \<and> fresh_share (c_User c) (cq_StorageKey req) (view w) (view w1)"
  proof -
    assume *: "ok w1 \<and> (view w1 = view w \<and> e \<noteq> None \<or>
       view w (sh_Slug s) = None \<and>
       (\<forall>slug t. view w slug = Some t \<longrightarrow> sh_StorageKey t \<noteq> sh_StorageKey s) \<and>
       (if sh_OwnerID s = [] then sh_OwnerID (save s) = [] else owns (sh_OwnerID s) (save s)) \<and>
       view w1 = (view w)(sh_Slug s \<mapsto> save s))"
    have "fresh_share (c_User c) (cq_StorageKey req) (view w) ((view w)(sh_Slug s \<mapsto> save s))"
      if "view w (sh_Slug s) = None" "\<forall>slug t. view w slug = Some t \<longrightarrow> sh_StorageKey t \<noteq> sh_StorageKey s"
        "if sh_OwnerID s = [] then sh_OwnerID (save s) = [] else owns (sh_OwnerID s) (save s)"
    proof -
      from that(3) s(7) have "belongs owns (c_User c) (save s)"
        by (auto simp: belongs_def split: option.splits if_splits)
      with share_step.created [of "view w" "save s" owns "c_User c"] that(1,2) s(2,3)
      have "share_step owns (c_User c) (view w) ((view w)(sh_Slug s \<mapsto> save s))" by (simp add: save_keeps)
      with that(1,2) s(1) show ?thesis
        unfolding fresh_share_def by (intro exI [of _ "sh_Slug s"] exI [of _ "save s"]) (simp add: save_keeps)
    qed
    with * show "ok w1" "view w1 = view w \<and> e \<noteq> None \<or>
      view w1 = (view w)(sh_Slug s \<mapsto> save s) \<and> fresh_share (c_User c) (cq_StorageKey req) (view w) (view w1)"
      by auto
  qed
  show ?thesis
  proof (cases e)
    case None
    with assms(2,5) cr have "w' = w1" "r = Success (create_reply s code False)"
      by (simp_all add: store_new_def)
    with None effect ok1 s show ?thesis
      by (intro outcome_of.made [of _ _ s _ _ salt code]) (auto simp: fresh_share_def)
  next
    case (Some err)
    from effect have step: "view w1 = view w \<or> fresh_share (c_User c) (cq_StorageKey req) (view w) (view w1)" by auto
    obtain g w2 where "get": "ss_GetByStorageKey store (cq_StorageKey req) w1 = (g, w2)"
      by (rule prod.exhaust)
    from get_by_key [OF ok1 this] have w2: "ok w2" "view w2 = view w1"
      and found: "\<And>t. g = Inr t \<Longrightarrow> view w1 (sh_Slug t) = Some t \<and> sh_StorageKey t = cq_StorageKey req"
      by (auto split: sum.splits)
    show ?thesis
    proof (cases g)
      case (Inl e')
      with Some assms(2,5) cr "get" have r: "w' = w2" "\<forall>resp. r \<noteq> Success resp"
        by (auto simp: store_new_def)
      show ?thesis
      proof (cases "view w1 = view w")
        case True
        with r w2 show ?thesis by (intro outcome_of.nothing) auto
      next
        case False
        with r w2 step show ?thesis by (intro outcome_of.lost) auto
      qed
    next
      case (Inr t)
      with Some assms(2,5) cr "get" have "rotateShare h c t req now' es w2 = Some (r, es', w')"
        by (simp add: store_new_def)
      with found [OF Inr] w2 step show ?thesis by (intro outcome_of.reshared [where s = t]) auto
    qed
  qed
qed

lemma create_new_outcome:
  assumes "ok w" "h_store h = store" "h_files h = files" "h_uploads h = lookup"
    and "create_new h c req now now' es w = Some (r, es', w')"
  shows "outcome_of h c req (view w) r es' w'"
proof -
  obtain sz w1 where size: "os_GetFileSize files (cq_StorageKey req) w = (sz, w1)"
    by (rule prod.exhaust)
  from size_frame [OF assms(1) this] have w1: "ok w1" "view w1 = view w" by auto
  show ?thesis
  proof (cases sz)
    case (Inl e)
    with size assms(3,5) w1 show ?thesis
      by (intro outcome_of.nothing) (auto simp: create_new_def split: if_splits)
  next
    case (Inr n)
    define oemail where "oemail = (case c_User c of None \<Rightarrow> cq_OwnerEmail req
      | Some user \<Rightarrow> if cq_OwnerEmail req = [] then usr_Email user else cq_OwnerEmail req)"
    define new where "new = NewShare (cq_StorageKey req) (snd (Split (cq_StorageKey req))) n
      (case c_User c of None \<Rightarrow> [] | Some user \<Rightarrow> usr_ID user) oemail (cq_RecipientEmail req)
      (ttl_of req) now es"
    from assms(5) size Inr have run: "(case new of
               None \<Rightarrow> None
             | Some (Inl e, es1) \<Rightarrow> Some (InternalError ''Could not create share'', es1, w1)
             | Some (Inr (share, code), es1) \<Rightarrow>
                 (case capToRetention h (cq_StorageKey req) share w1 of
                    (share1, w2) \<Rightarrow> store_new h c req share1 code now' es1 w2)) = Some (r, es', w')"
      by (simp add: create_new_def assms(3) new_def oemail_def Let_def)
    then consider (err) "w' = w1" "\<forall>resp. r \<noteq> Success resp"
      | (made) share code es1 share1 w2 where "new = Some (Inr (share, code), es1)"
          "capToRetention h (cq_StorageKey req) share w1 = (share1, w2)"
          "store_new h c req share1 code now' es1 w2 = Some (r, es', w')"
      by (auto split: option.splits prod.splits sum.splits)
    then show ?thesis
    proof cases
      case err
      with w1 show ?thesis by (intro outcome_of.nothing) auto
    next
      case made
      from capToRetention_frame [OF w1(1) assms(4) made(2)] w1 obtain e where
        w2: "ok w2" "view w2 = view w" and e: "share1 = share\<lparr>sh_ExpiresAt := e\<rparr>"
        by auto
      obtain salt where share:
        "length (sh_Slug share) = slugLength" "set (sh_Slug share) \<subseteq> set slugAlphabet"
        "set code \<subseteq> set codeAlphabet" "sh_CodeSalt share = hex_encode salt"
        "sh_CodeHash share = hashCode salt code" "sh_ShareCount share = 1"
        "sh_StorageKey share = cq_StorageKey req"
        "sh_OwnerID share = (case c_User c of None \<Rightarrow> [] | Some user \<Rightarrow> usr_ID user)"
        by (rule NewShare_Inr [OF made(1) [unfolded new_def]])
      have "outcome_of h c req (view w2) r es' w'"
        using share by (intro store_new_outcome [OF w2(1) assms(2-4) made(3), of salt])
          (simp_all add: e ValidateSlug_iff)
      with w2(2) show ?thesis by simp
    qed
  qed
qed

lemma CreateShare_outcome:
  assumes "ok w" "h_store h = store" "h_files h = files" "h_uploads h = lookup"
    and "CreateShare h c body now now' es w = Some (r, es', w')"
  shows "ok w' \<and> view w' = view w \<and> (\<forall>resp. r \<noteq> Success resp)
    \<or> (\<exists>req. body = Some req \<and> outcome_of h c req (view w) r es' w')"
proof (cases "\<exists>req. body = Some req \<and> create_tags req \<and> validKey (cq_StorageKey req)
    \<and> length (cq_RecipientEmail req) \<le> maxEmailLength \<and> length (cq_OwnerEmail req) \<le> maxEmailLength")
  case False
  with assms(1,5) have "w' = w" "\<forall>resp. r \<noteq> Success resp"
    by (auto simp: CreateShare_def ShouldBindJSON_def not_le split: option.splits if_splits)
  with assms(1) show ?thesis by simp
next
  case True
  then obtain req where req: "body = Some req" "create_tags req" "validKey (cq_StorageKey req)"
    "length (cq_RecipientEmail req) \<le> maxEmailLength" "length (cq_OwnerEmail req) \<le> maxEmailLength"
    by blast
  obtain g w1 where "get": "ss_GetByStorageKey store (cq_StorageKey req) w = (g, w1)"
    by (rule prod.exhaust)
  from get_by_key [OF assms(1) this] have w1: "ok w1" "view w1 = view w"
    and found: "\<And>s. g = Inr s \<Longrightarrow> view w (sh_Slug s) = Some s \<and> sh_StorageKey s = cq_StorageKey req"
    by (auto split: sum.splits)
  have run: "(case g of
        Inr existing \<Rightarrow> rotateShare h c existing req now es w1
      | Inl e \<Rightarrow>
          if \<not> errors_is e ErrNotFound
          then Some (Error 502 ''Storage temporarily unavailable'', es, w1)
          else create_new h c req now now' es w1) = Some (r, es', w')"
    using assms(5) req "get" by (simp add: CreateShare_def ShouldBindJSON_def assms(2) split: sum.splits)
  have "outcome_of h c req (view w) r es' w'"
  proof (cases g)
    case (Inr s)
    with run found [OF Inr] w1 show ?thesis by (intro outcome_of.reshared [where s = s]) auto
  next
    case (Inl e)
    show ?thesis
    proof (cases "errors_is e ErrNotFound")
      case False
      with run Inl w1 show ?thesis by (intro outcome_of.nothing) auto
    next
      case True
      with run Inl create_new_outcome [OF w1(1) assms(2-4)] w1(2) show ?thesis by simp
    qed
  qed
  with req(1) show ?thesis by blast
qed

text \<open>A rotation of the share just made is the second half of one request.\<close>

lemma reshared_effect:
  assumes "view w1 = V \<or> fresh_share user (sh_StorageKey s) V (view w1)" "view w1 (sh_Slug s) = Some s"
    and "view w' = view w1 \<or> (\<exists>s'. view w' = (view w1)(sh_Slug s \<mapsto> s') \<and> sh_StorageKey s' = sh_StorageKey s
      \<and> share_step owns user (view w1) (view w'))"
  shows "call_effect owns user (Shares (Some (sh_StorageKey s))) V (view w')"
  using assms(1)
proof
  assume "view w1 = V"
  with assms(3) show ?thesis by (metis call_effect.idle call_effect.shared)
next
  assume "fresh_share user (sh_StorageKey s) V (view w1)"
  then obtain slug t where t: "V slug = None" "view w1 = V(slug \<mapsto> t)" "sh_StorageKey t = sh_StorageKey s"
    "\<forall>slug t. V slug = Some t \<longrightarrow> sh_StorageKey t \<noteq> sh_StorageKey s" "share_step owns user V (view w1)"
    unfolding fresh_share_def by blast
  from assms(2) t(2,4) have slug: "sh_Slug s = slug" "t = s" by (auto split: if_splits)
  from assms(3) show ?thesis
  proof (elim disjE exE conjE)
    assume "view w' = view w1"
    with t slug show ?thesis by (metis call_effect.shared)
  next
    fix s' assume s': "view w' = (view w1)(sh_Slug s \<mapsto> s')" "sh_StorageKey s' = sh_StorageKey s"
      "share_step owns user (view w1) (view w')"
    then have "view w' = V(slug \<mapsto> s')" using t(2) slug by simp
    with call_effect.retried [of V slug owns user s s', OF t(1)] t s'(2,3) slug show ?thesis by simp
  qed
qed

lemma CreateShare_effect:
  assumes "ok w" "h_store h = store" "h_files h = files" "h_uploads h = lookup"
    and "CreateShare h c body now now' es w = Some (r, es', w')"
  shows "ok w' \<and> call_effect owns (c_User c) (Shares (map_option cq_StorageKey body)) (view w) (view w')"
  using CreateShare_outcome [OF assms]
proof (elim disjE exE conjE)
  fix req assume body: "body = Some req" and "outcome_of h c req (view w) r es' w'"
  from this(2) show ?thesis
  proof (cases rule: outcome_of.cases)
    case (made s salt code)
    with call_effect.shared [of owns "c_User c" "view w" "sh_Slug s" "save s"] body show ?thesis
      by (simp add: save_keeps)
  next
    case (reshared w1 s t es1)
    from rotateShare_cases [OF reshared(1) assms(2-4) reshared(3,5)]
    have "ok w' \<and> (view w' = view w1 \<or> (\<exists>s'. view w' = (view w1)(sh_Slug s \<mapsto> s') \<and> sh_StorageKey s' = sh_StorageKey s))"
      by (metis rotated_simps(2))
    moreover from rotateShare_refines [OF reshared(1) assms(2-4) reshared(3,5)]
    have "view w' = view w1 \<or> share_step owns (c_User c) (view w1) (view w')" by auto
    ultimately show ?thesis
      using reshared_effect [OF _ reshared(3), of "view w" "c_User c" w'] reshared(2,4) body by auto
  next
    case lost
    then obtain slug s where "view w' = (view w)(slug \<mapsto> s)" "sh_StorageKey s = cq_StorageKey req"
      "share_step owns (c_User c) (view w) (view w')" unfolding fresh_share_def by blast
    with call_effect.shared [of owns "c_User c" "view w" slug s] lost(1) body show ?thesis by simp
  qed (auto intro: call_effect.idle)
qed (auto intro: call_effect.idle)

lemma CreateShare_refines:
  assumes "ok w" "h_store h = store" "h_files h = files" "h_uploads h = lookup"
    and "CreateShare h c body now now' es w = Some (r, es', w')"
  shows "ok w' \<and> (share_step owns (c_User c))\<^sup>*\<^sup>* (view w) (view w')"
  using CreateShare_effect [OF assms] by (blast intro: call_effect_steps)

text \<open>The code a successful creation or rotation reports opens the share it stored.\<close>

lemma CreateShare_code_opens:
  assumes "ok w" "h_store h = store" "h_files h = files" "h_uploads h = lookup"
    and "CreateShare h c body now now' es w = Some (Success resp, es', w')"
  shows "\<exists>req s. body = Some req \<and> view w' (cr_Slug resp) = Some s
    \<and> sh_StorageKey s = cq_StorageKey req \<and> sh_ExpiresAt s = stamp (cr_ExpiresAt resp)
    \<and> sh_ShareCount s = cr_ShareCount resp
    \<and> (\<forall>typed t. t \<le> sh_ExpiresAt s \<longrightarrow>
         ToLower (filter (\<lambda>c. \<not> separator c) typed) = ToLower (cr_Code resp) \<longrightarrow>
         Verify s typed t = None)"
proof -
  from CreateShare_outcome [OF assms] obtain req where body: "body = Some req"
    and out: "outcome_of h c req (view w) (Success resp) es' w'"
    by auto
  from out show ?thesis
  proof (cases rule: outcome_of.cases)
    case (made s salt code)
    have "Verify (save s) typed t = None" if "t \<le> sh_ExpiresAt (save s)"
        "ToLower (filter (\<lambda>c. \<not> separator c) typed) = ToLower code" for typed t
      using made that by (intro salted_code_opens [of "save s" salt code]) (auto simp: save_keeps)
    with body made show ?thesis
      by (intro exI [of _ req] exI [of _ "save s"]) (simp add: create_reply_def save_keeps)
  next
    case (reshared w1 s t es1)
    from reshared(1) assms(2-4) reshared(3,5) show ?thesis
    proof (cases rule: rotateShare_cases)
      case (rotated s1 code s2)
      let ?s = "rotated s s2 (stamp (sh_ExpiresAt s2))"
      obtain salt where rot: "set code \<subseteq> set codeAlphabet"
        "s1 = s\<lparr>sh_RecipientEmail := cq_RecipientEmail req, sh_CodeSalt := hex_encode salt,
            sh_CodeHash := hashCode salt code,
            sh_ShareCount := sh_ShareCount s + 1, sh_ExpiresAt := t + effective_ttl (ttl_of req)\<rparr>"
        by (rule Rotate_Inr [OF rotated(3)]) simp
      with rotated(4) have s2: "sh_CodeSalt ?s = hex_encode salt" "sh_CodeHash ?s = hashCode salt code"
        "sh_Slug s2 = sh_Slug s"
        by auto
      from rotated(6) have resp: "resp = create_reply s2 code True" by simp
      have "Verify ?s typed t = None" if "t \<le> sh_ExpiresAt ?s"
          "ToLower (filter (\<lambda>c. \<not> separator c) typed) = ToLower code" for typed t
        using that rot(1) s2 by (intro salted_code_opens [of ?s salt code]) auto
      with body resp rotated(5) s2(3) reshared(4) show ?thesis
        by (intro exI [of _ req] exI [of _ ?s]) (simp add: create_reply_def)
    next
      case unchanged
      from unchanged(3) [of resp] show ?thesis by simp
    qed
  qed simp_all
qed

lemma loadShare_effect:
  assumes "ok w" "h_store h = store" "loadShare h slug w = (x, w')"
  shows "ok w' \<and> view w' = view w \<and>
    (case x of Inr s \<Rightarrow> ValidateSlug slug = None \<and> view w slug = Some s
     | Inl r \<Rightarrow> rsp_Status r \<in> {404, 502} \<and> (\<forall>d. r \<noteq> Success d))"
proof (cases "ValidateSlug slug")
  case None
  obtain g w1 where "get": "ss_GetBySlug store slug w = (g, w1)" by (rule prod.exhaust)
  from get_by_slug [OF assms(1) this] assms None "get" show ?thesis
    by (cases g) (auto simp: loadShare_def)
qed (use assms in \<open>auto simp: loadShare_def\<close>)

lemma UnlockShare_sound:
  assumes "ok w" "h_store h = store" "h_files h = files"
    and "UnlockShare h c slug body t1 t2 now w = (r, h', w')"
  shows "ok w' \<and> view w' = view w \<and>
    (\<forall>resp. r = Success resp \<longrightarrow>
       (\<exists>req s w1. body = Some req \<and> view w slug = Some s \<and> Verify s (uq_Code req) now = None
          \<and> ok w1 \<and> view w1 = view w
          \<and> os_GetPresignedURL files (sh_StorageKey s) (uq_Download req) w1 = (Inr (ur_URL resp), w')
          \<and> ur_FileName resp = sh_FileName s \<and> ur_FileSize resp = sh_FileSize s))"
proof (cases "\<exists>h1 req. ValidateSlug slug = None \<and> unlock_allowed h slug (c_ClientIP c) t1 t2 = (True, h1)
    \<and> ShouldBindJSON unlock_tags body = Some req")
  case False
  with assms(1,4) have "w' = w" "\<forall>resp. r \<noteq> Success resp"
    by (auto simp: UnlockShare_def split: option.splits prod.splits bool.splits)
  with assms(1) show ?thesis by simp
next
  case True
  then obtain h1 req where go: "ValidateSlug slug = None"
    "unlock_allowed h slug (c_ClientIP c) t1 t2 = (True, h1)" "ShouldBindJSON unlock_tags body = Some req"
    by blast
  note h1 = unlock_allowed_fields [OF go(2)]
  define x where "x = (fst (loadShare h1 slug w) :: unlock_response response + share)"
  define w1 where "w1 = snd (loadShare h1 slug w :: (unlock_response response + share) \<times> 'w)"
  have load: "loadShare h1 slug w = (x, w1)" by (simp add: x_def w1_def)
  from loadShare_effect [OF assms(1) h1(1) [unfolded assms(2)] load] have w1: "ok w1" "view w1 = view w"
    and x: "\<And>s. x = Inr s \<Longrightarrow> view w slug = Some s" "\<And>r d. x = Inl r \<Longrightarrow> r \<noteq> Success d"
    by (auto split: sum.splits)
  show ?thesis
  proof (cases x)
    case (Inl r0)
    with assms(4) go load have "w' = w1" "r = r0" by (auto simp: UnlockShare_def)
    with w1 x(2) [OF Inl] show ?thesis by simp
  next
    case (Inr s)
    show ?thesis
    proof (cases "Verify s (uq_Code req) now")
      case (Some e)
      with assms(4) go load Inr have "w' = w1" "\<forall>resp. r \<noteq> Success resp"
        by (auto simp: UnlockShare_def split: if_splits)
      with w1 show ?thesis by simp
    next
      case None
      obtain u w2 where url: "os_GetPresignedURL files (sh_StorageKey s) (uq_Download req) w1 = (u, w2)"
        by (rule prod.exhaust)
      from assms(4) go load Inr None url h1(2) assms(3) have "w' = w2" "\<And>resp. r = Success resp \<Longrightarrow>
          u = Inr (ur_URL resp) \<and> ur_FileName resp = sh_FileName s \<and> ur_FileSize resp = sh_FileSize s"
        by (auto simp: UnlockShare_def split: sum.splits)
      with url_frame [OF w1(1) url] w1 x(1) [OF Inr] None url go(3) show ?thesis by auto
    qed
  qed
qed

lemma GetShare_effect:
  assumes "ok w" "h_store h = store" "GetShare h c slug t1 t2 w = (r, h', w')"
  shows "ok w' \<and> view w' = view w \<and>
    (\<forall>m. r = Success m \<longrightarrow> (\<exists>s. view w slug = Some s \<and> m = toMeta s t2))"
proof -
  obtain b l where b: "Allow (h_metaPerIP h) (c_ClientIP c) t1 = (b, l)" by (rule prod.exhaust)
  let ?load = "loadShare (h\<lparr>h_metaPerIP := l\<rparr>) slug w :: (share_meta response + share) \<times> 'w"
  define x w1 where "x = fst ?load" and "w1 = snd ?load"
  then have load: "?load = (x, w1)" by simp
  from loadShare_effect [OF assms(1) _ load] assms(2) have
    "ok w1 \<and> view w1 = view w \<and>
    (case x of Inr s \<Rightarrow> ValidateSlug slug = None \<and> view w slug = Some s
     | Inl r \<Rightarrow> rsp_Status r \<in> {404, 502} \<and> (\<forall>d. r \<noteq> Success d))" by simp
  with assms(1,3) b load show ?thesis
    by (cases b; cases x) (auto simp: GetShare_def)
qed

lemma RevokeShare_refines:
  assumes "ok w" "h_store h = store" "RevokeShare h c slug w = (r, w')"
  shows "ok w' \<and> (share_step owns (c_User c))\<^sup>=\<^sup>= (view w) (view w') \<and>
    (r = Success slug \<longrightarrow> view w' slug = None \<and> share_step owns (c_User c) (view w) (view w'))"
proof (cases "\<exists>u. c_User c = Some u \<and> ValidateSlug slug = None")
  case False
  with assms show ?thesis by (auto simp: RevokeShare_def split: option.splits)
next
  case True
  then obtain u where u: "c_User c = Some u" "ValidateSlug slug = None" by blast
  obtain e w1 where del: "ss_Delete store slug (usr_ID u) w = (e, w1)" by (rule prod.exhaust)
  from assms(2,3) u del have w': "w' = w1" "r = Success slug \<Longrightarrow> e = None"
    by (auto simp: RevokeShare_def split: option.splits if_splits)
  from delete_effect [OF assms(1) del] show ?thesis
  proof (elim conjE disjE exE)
    fix s assume "view w slug = Some s" "owns (usr_ID u) s" "view w1 = (view w)(slug := None)" "ok w1"
    with share_step.revoked [of "view w" slug s "c_User c" u owns] u(1) w' show ?thesis by simp
  qed (use w' in auto)
qed

lemma RevokeShare_removes:
  assumes "ok w" "h_store h = store" "RevokeShare h c slug w = (r, w')"
  shows "ok w' \<and> (view w' = view w \<or> view w' = (view w)(slug := None))"
proof (cases "\<exists>u. c_User c = Some u \<and> ValidateSlug slug = None")
  case False
  with assms show ?thesis by (auto simp: RevokeShare_def split: option.splits)
next
  case True
  then obtain u where u: "c_User c = Some u" "ValidateSlug slug = None" by blast
  obtain e w1 where del: "ss_Delete store slug (usr_ID u) w = (e, w1)" by (rule prod.exhaust)
  from assms(2,3) u del have "w' = w1" by (auto simp: RevokeShare_def split: option.splits if_splits)
  with delete_effect [OF assms(1) del] show ?thesis by auto
qed

lemma ListMine_own:
  assumes "ok w" "h_store h = store" "ListMine h c clock w = (r, w')"
  shows "ok w' \<and> view w' = view w \<and>
    (\<forall>l. r = Success l \<longrightarrow>
       (\<exists>u. c_User c = Some u \<and>
          (\<forall>m \<in> set l. \<exists>s t. view w (mt_Slug m) = Some s \<and> owns (usr_ID u) s \<and> m = toMeta s t)))"
proof (cases "c_User c")
  case None
  with assms show ?thesis by (auto simp: ListMine_def)
next
  case (Some u)
  obtain l e w1 where ls: "ss_ListByOwner store (usr_ID u) w = ((l, e), w1)"
    by (metis surj_pair)
  from list_effect [OF assms(1) ls] have w1: "ok w1" "view w1 = view w"
    and own: "\<And>s. s \<in> set l \<Longrightarrow> view w (sh_Slug s) = Some s \<and> owns (usr_ID u) s" by auto
  have "\<exists>s t. view w (mt_Slug m) = Some s \<and> owns (usr_ID u) s \<and> m = toMeta s t"
    if "m \<in> set (map (\<lambda>(i, s). toMeta s (clock i)) (enumerate 0 l))" for m
  proof -
    from that obtain i s where "m = toMeta s (clock i)" "s \<in> set l"
      by (auto dest: in_set_enumerate_eq [THEN iffD1, of _ 0 l] simp: enumerate_eq_zip set_zip)
    with own show ?thesis by (auto simp: toMeta_def)
  qed
  with assms(2,3) Some ls w1 show ?thesis
    by (cases e) (auto simp: ListMine_def)
qed

end

subsection \<open>As wired by the server\<close>

definition wired :: "'s s3_client \<Rightarrow> string \<Rightarrow> (db \<times> 's) share_handler \<Rightarrow> bool" where
  "wired c bucket h \<longleftrightarrow> h_store h = db_share_store \<and> h_files h = s3_files c bucket
     \<and> h_uploads h = Some db_upload_lookup"

lemma wired_new: "wired c bucket (NewShareHandler db_share_store (s3_files c bucket) (Some db_upload_lookup) a b)"
  by (simp add: wired_def NewShareHandler_def)

lemma db_state_ok_self: "db_ok d \<Longrightarrow> db_state_ok d d"
  by (simp add: db_state_ok_def)

text \<open>One request of some user, answered by some handler with any clock and random bytes.\<close>

inductive api_request ::
  "'s s3_client \<Rightarrow> string \<Rightarrow> user option \<Rightarrow> api_call \<Rightarrow> db \<times> 's \<Rightarrow> db \<times> 's \<Rightarrow> bool"
  for c :: "'s s3_client" and bucket :: string where
  create: "api_request c bucket (c_User ctx) (Shares (map_option cq_StorageKey body)) w w'"
    if "wired c bucket h" and "CreateShare h ctx body now now' es w = Some (r, es', w')"
| get: "api_request c bucket (c_User ctx) Looks w w'"
    if "wired c bucket h" and "GetShare h ctx slug t1 t2 w = (r, h', w')"
| unlock: "api_request c bucket (c_User ctx) Looks w w'"
    if "wired c bucket h" and "UnlockShare h ctx slug ubody t1 t2 t3 w = (ur, h', w')"
| listing: "api_request c bucket (c_User ctx) Looks w w'"
    if "wired c bucket h" and "ListMine h ctx clock w = (lr, w')"
| revoke: "api_request c bucket (c_User ctx) (Revokes slug) w w'"
    if "wired c bucket h" and "RevokeShare h ctx slug w = (rr, w')"

definition api_step :: "'s s3_client \<Rightarrow> string \<Rightarrow> user option \<Rightarrow> db \<times> 's \<Rightarrow> db \<times> 's \<Rightarrow> bool" where
  "api_step c bucket user w w' \<longleftrightarrow> (\<exists>call. api_request c bucket user call w w')"

lemma api_step_intros:
  assumes "wired c bucket h"
  shows "CreateShare h ctx body now now' es w = Some (r, es', w') \<Longrightarrow> api_step c bucket (c_User ctx) w w'"
    and "GetShare h ctx slug t1 t2 w = (mr, h', w') \<Longrightarrow> api_step c bucket (c_User ctx) w w'"
    and "UnlockShare h ctx slug ubody t1 t2 t3 w = (ur, h', w') \<Longrightarrow> api_step c bucket (c_User ctx) w w'"
    and "ListMine h ctx clock w = (lr, w') \<Longrightarrow> api_step c bucket (c_User ctx) w w'"
    and "RevokeShare h ctx slug w = (rr, w') \<Longrightarrow> api_step c bucket (c_User ctx) w w'"
  unfolding api_step_def
  by (rule exI, erule api_request.create [OF assms])
    (rule exI, erule api_request.get [OF assms],
     rule exI, erule api_request.unlock [OF assms],
     rule exI, erule api_request.listing [OF assms],
     rule exI, erule api_request.revoke [OF assms])

lemma api_request_live:
  assumes "api_request c bucket user call w w'" "db_state_ok d0 (fst w)"
  shows "db_state_ok d0 (fst w') \<and> call_effect (owns_share d0) user call (share_view (fst w)) (share_view (fst w'))"
  using assms(1)
proof (cases rule: api_request.cases)
  case (create h ctx body now now' es r es')
  with live.CreateShare_effect [OF assms(2), of h c bucket ctx] show ?thesis
    by (simp add: wired_def)
next
  case (get h ctx slug t1 t2 r h')
  with live.GetShare_effect [OF assms(2), of h ctx] show ?thesis by (simp add: wired_def call_effect.idle)
next
  case (unlock h ctx slug ubody t1 t2 t3 ur h')
  with live.UnlockShare_sound [OF assms(2), of h c bucket ctx] show ?thesis by (simp add: wired_def call_effect.idle)
next
  case (listing h ctx clock lr)
  with live.ListMine_own [OF assms(2), of h ctx] show ?thesis by (simp add: wired_def call_effect.idle)
next
  case (revoke h ctx slug rr)
  from revoke(3) have "h_store h = db_share_store" by (simp add: wired_def)
  note removed = live.RevokeShare_removes [OF assms(2) this revoke(4)]
    and steps = live.RevokeShare_refines [OF assms(2) this revoke(4)]
  from steps revoke(1) have "share_view (fst w') = share_view (fst w)
      \<or> share_step (owns_share d0) user (share_view (fst w)) (share_view (fst w'))" by auto
  with removed revoke(2) call_effect.removed [of "owns_share d0" user "share_view (fst w)" slug] show ?thesis
    by (metis call_effect.idle)
qed

lemma api_step_live:
  assumes "api_step c bucket user w w'" "db_state_ok d0 (fst w)"
  shows "db_state_ok d0 (fst w') \<and>
    (share_step (owns_share d0) user)\<^sup>*\<^sup>* (share_view (fst w)) (share_view (fst w'))"
  using assms api_request_live unfolding api_step_def by (blast intro: call_effect_steps)


text \<open>A concrete creation: user \<open>u-1\<close> shares a file on the empty database.\<close>

definition sample_handler :: "(db \<times> unit) share_handler" where
  "sample_handler = NewShareHandler db_share_store (s3_files two_page_client ''b'')
     (Some db_upload_lookup) (72 * Hour) (168 * Hour)"

definition sample_create :: create_request where
  "sample_create = \<lparr>cq_StorageKey = Build sample_id ''page.txt'', cq_OwnerEmail = [],
     cq_RecipientEmail = [], cq_TTLHours = 1\<rparr>"

definition sample_entropy :: entropy where
  "sample_entropy = zeros slugLength @ zeros codeLength @ zeros saltLength @ []"

definition created_row :: share_row where
  "created_row = \<lparr>r_slug = ''aaaaaaaaaa'', r_owner_id = Some ''u-1'', r_owner_email = Some ''a@b.c'',
     r_recipient_email = None, r_storage_key = Build sample_id ''page.txt'',
     r_file_name = ''page.txt'', r_file_size = 27, r_code_hash = hashCode sample_salt ''AAAAAA'',
     r_code_salt = hex_encode sample_salt, r_share_count = 1, r_created_at = 7000,
     r_expires_at = 7000 + Hour\<rparr>"

definition created_db :: db where
  "created_db = empty_db\<lparr>shares_t := [created_row]\<rparr>"

lemma sample_handler_simps [simp]:
  "h_store sample_handler = db_share_store" "h_files sample_handler = s3_files two_page_client ''b''"
  "h_uploads sample_handler = Some db_upload_lookup"
  by (simp_all add: sample_handler_def NewShareHandler_def)

lemma sample_backend:
  "ss_GetByStorageKey db_share_store key (empty_db, s) = (Inl ErrNotFound, (empty_db, s))"
  "os_GetFileSize (s3_files two_page_client b) key (d, ()) = (Inr 27, (d, ()))"
  "os_GetPresignedURL (s3_files two_page_client b) key force (d, ()) = (Inr ''get'', (d, ()))"
  "db_upload_lookup key (empty_db, s) = (Inl ErrNotFound, (empty_db, s))"
  by (simp_all add: db_share_store_def on_db_def ShareStore_GetByStorageKey_def get_share_def
      sql_select_shares_def s3_files_def on_s3_def S3_GetFileSize_def S3_GetPresignedURL_def
      two_page_client_def db_upload_lookup_def UploadStore_GetByStorageKey_def)

definition sample_new :: share where
  "sample_new = \<lparr>sh_Slug = ''aaaaaaaaaa'', sh_StorageKey = Build sample_id ''page.txt'',
     sh_FileName = ''page.txt'', sh_FileSize = 27, sh_OwnerID = ''u-1'', sh_OwnerEmail = ''a@b.c'',
     sh_RecipientEmail = [], sh_CodeSalt = hex_encode sample_salt,
     sh_CodeHash = hashCode sample_salt ''AAAAAA'', sh_ShareCount = 1, sh_CreatedAt = 7000,
     sh_ExpiresAt = 7000 + Hour\<rparr>"

lemma sample_NewShare:
  "NewShare (Build sample_id ''page.txt'') ''page.txt'' 27 ''u-1'' ''a@b.c'' []
     (wrap64 Hour) 7000 sample_entropy = Some (Inr (sample_new, ''AAAAAA''), [])"
proof -
  have "effective_ttl (wrap64 Hour) = Hour"
    by (simp add: wrap64_def effective_ttl_def Hour_eq MaxTTL_def)
  then show ?thesis
    unfolding sample_entropy_def NewShare_zeros by (simp add: sample_new_def)
qed

lemma sample_Create: "ss_Create db_share_store sample_new (empty_db, s) = (None, (created_db, s))"
  by (simp add: db_share_store_def on_db_def ShareStore_Create_def sql_insert_share_def uuid_arg_def
      nullable_def share_values_def sample_new_def created_db_def created_row_def pg_ts_def Hour_eq)

lemma sample_create_made:
  assumes "h_store h = db_share_store" "h_files h = s3_files two_page_client b" "h_uploads h = Some db_upload_lookup"
  shows "CreateShare h sample_ctx (Some sample_create) 7000 7000 sample_entropy (empty_db, ()) =
     Some (Success (create_reply sample_new ''AAAAAA'' False), [], (created_db, ()))"
proof -
  have "snd (Split (Build sample_id ''page.txt'')) = ''page.txt''"
    by (simp add: Split_Build [OF sample_id(2)])
  moreover have "create_tags sample_create"
    by (simp add: create_tags_def sample_create_def Build_def)
  ultimately show ?thesis
    by (simp add: CreateShare_def create_new_def store_new_def ShouldBindJSON_def capToRetention_def
        assms sample_backend sample_create_def sample_name(2) maxEmailLength_def sample_ctx_def
        ttl_of_def sample_NewShare sample_Create Let_def)
qed

lemma sample_created:
  "CreateShare sample_handler sample_ctx (Some sample_create) 7000 7000 sample_entropy (empty_db, ()) =
     Some (Success (create_reply sample_new ''AAAAAA'' False), [], (created_db, ()))"
  by (rule sample_create_made) simp_all

lemma created_view: "share_view created_db = [''aaaaaaaaaa'' \<mapsto> scanShare created_row]"
  by (simp add: share_view_def created_db_def created_row_def)


subsection \<open>Every sequence of requests\<close>

inductive api_run ::
  "'s s3_client \<Rightarrow> string \<Rightarrow> user option list \<Rightarrow> db \<times> 's \<Rightarrow> db \<times> 's \<Rightarrow> bool"
  for c :: "'s s3_client" and bucket :: string where
  idle: "api_run c bucket [] w w"
| request: "api_run c bucket (us @ [user]) w w''"
    if "api_run c bucket us w w'" and "api_step c bucket user w' w''"

lemma share_steps_ok: "(share_step owns user)\<^sup>*\<^sup>* V V' \<Longrightarrow> shares_ok V \<Longrightarrow> shares_ok V'"
  by (induction rule: rtranclp_induct) (auto intro: share_step_ok)

lemma api_run_ok:
  assumes "api_run c bucket us w w'" "db_state_ok d0 (fst w)" "shares_ok (share_view (fst w))"
  shows "db_state_ok d0 (fst w') \<and> shares_ok (share_view (fst w'))"
  using assms
proof (induction rule: api_run.induct)
  case (request us w w' user w'')
  with api_step_live [OF request(2)] share_steps_ok show ?case by blast
qed simp

text \<open>
  Whatever requests arrive, in whatever order and whatever fails, the stored shares stay
  consistent: one share per slug and per file, every slug well formed, and every share
  with at least one and at most three access codes issued.
\<close>

theorem api_run_consistent:
  assumes "api_run c bucket us w w'" "db_ok (fst w)" "shares_ok (share_view (fst w))"
  shows "db_ok (fst w') \<and> shares_ok (share_view (fst w'))"
  using api_run_ok [OF assms(1) db_state_ok_self [OF assms(2)] assms(3)]
  by (simp add: db_state_ok_def)

lemma sample_run: "api_run two_page_client ''b'' ([] @ [c_User sample_ctx]) (empty_db, ()) (created_db, ())"
proof (rule api_run.request [OF api_run.idle])
  have "wired two_page_client ''b'' sample_handler" by (simp add: wired_def)
  from api_step_intros(1) [OF this sample_created]
  show "api_step two_page_client ''b'' (c_User sample_ctx) (empty_db, ()) (created_db, ())" .
qed

theorem api_run_consistent_witness:
  "db_ok created_db \<and> shares_ok [''aaaaaaaaaa'' \<mapsto> scanShare created_row]"
proof -
  have "db_ok (fst (empty_db, ())) \<and> shares_ok (share_view (fst (empty_db, ())))"
    by (simp add: db_ok_def shares_ok_def share_view_def)
  with api_run_consistent [OF sample_run] show ?thesis by (simp add: created_view)
qed

lemma share_steps_untouched:
  assumes "(share_step owns user)\<^sup>*\<^sup>* V V'" "V slug = Some s" "sh_OwnerID s \<noteq> []"
    and "\<not> may_rotate user s" "\<And>u. user = Some u \<Longrightarrow> \<not> owns (usr_ID u) s"
  shows "V' slug = Some s"
  using assms(1) by (induction rule: rtranclp_induct) (use assms share_step_owner in metis)+

text \<open>
  A signed-in user's share is out of everyone else's reach: through any sequence of
  requests by other users and by anonymous clients, however long, it stays in place and
  unchanged, code, expiry and count included. Another user here is one whose id neither
  is the stored owner id nor reads as the same UUID.
\<close>

theorem others_cannot_touch:
  assumes "api_run c bucket us w w'" "db_ok (fst w)"
    and "share_view (fst w) slug = Some s" "sh_OwnerID s \<noteq> []"
    and "\<And>u. Some u \<in> set us \<Longrightarrow> usr_ID u \<noteq> sh_OwnerID s \<and> uuid_in (fst w) (usr_ID u) \<noteq> Some (sh_OwnerID s)"
  shows "share_view (fst w') slug = Some s"
proof -
  define d0 where "d0 = fst w"
  from assms(1) have "db_state_ok d0 (fst w) \<Longrightarrow> share_view (fst w) slug = Some s \<Longrightarrow>
    (\<And>u. Some u \<in> set us \<Longrightarrow> usr_ID u \<noteq> sh_OwnerID s \<and> \<not> owns_share d0 (usr_ID u) s) \<Longrightarrow>
    db_state_ok d0 (fst w') \<and> share_view (fst w') slug = Some s"
  proof (induction rule: api_run.induct)
    case (request us w w' user w'')
    then have w': "db_state_ok d0 (fst w')" "share_view (fst w') slug = Some s" by auto
    from request.prems(3) have "\<And>u. user = Some u \<Longrightarrow> \<not> owns_share d0 (usr_ID u) s"
      "\<not> may_rotate user s"
      using assms(4) by (auto simp: may_rotate_def)
    with share_steps_untouched [of "owns_share d0" user "share_view (fst w')"
        "share_view (fst w'')" slug s] w'(2) assms(4) api_step_live [OF request(2) w'(1)]
    show ?case by blast
  qed simp
  with assms(3,5) db_state_ok_self [OF assms(2)] show ?thesis
    by (simp add: d0_def owns_share_def)
qed

theorem others_cannot_touch_witness:
  "\<exists>w'. api_run two_page_client ''b'' ([] @ [None]) (created_db, ()) w'
     \<and> share_view (fst w') ''aaaaaaaaaa'' = Some (scanShare created_row)"
proof -
  define ctx where "ctx = sample_ctx\<lparr>c_User := None\<rparr>"
  obtain r w' where "RevokeShare sample_handler ctx ''aaaaaaaaaa'' (created_db, ()) = (r, w')"
    by (rule prod.exhaust)
  moreover have "wired two_page_client ''b'' sample_handler" by (simp add: wired_def)
  ultimately have run: "api_run two_page_client ''b'' ([] @ [None]) (created_db, ()) w'"
    using api_run.request [OF api_run.idle api_step_intros(5), of two_page_client "''b''" sample_handler ctx]
    by (simp add: ctx_def)
  have "db_ok created_db" "sh_OwnerID (scanShare created_row) \<noteq> []"
    by (simp_all add: db_ok_def created_db_def created_row_def from_null_def)
  with others_cannot_touch [OF run, of "''aaaaaaaaaa''" "scanShare created_row"] run
  show ?thesis by (intro exI [of _ w']) (auto simp: created_view)
qed

end
