(* ===== verification/ShareAccess.thy ===== *)
theory ShareAccess
  imports ShareSpec
begin

section \<open>Opening shares: who gets a download link, and how often a code may be guessed\<close>

text \<open>
  The unlock path end to end, with Postgres and S3 behind the handlers: a link is signed only
  for a verified code, a code handed out does open its share, and the number of codes
  anyone can try is bounded by the per-slug limiter.
\<close>

subsection \<open>A link needs the code\<close>

lemma Verify_None:
  "Verify s code now = None \<longleftrightarrow> now \<le> sh_ExpiresAt s \<and>
     (\<exists>salt. hex_decode (sh_CodeSalt s) = Inr salt \<and> hashCode salt (normalizeCode code) = sh_CodeHash s)"
  by (auto simp: Verify_def ConstantTimeCompare_iff bytes_of_inj Let_def not_less split: sum.splits)

lemma live_unlock:
  assumes "wired c bucket h" "db_ok (fst w)"
    and "UnlockShare h ctx slug body t1 t2 now w = (Success resp, h', w')"
  obtains req s w1 where "body = Some req" "share_view (fst w) slug = Some s"
    "Verify s (uq_Code req) now = None" "share_view (fst w') = share_view (fst w)"
    "os_GetPresignedURL (s3_files c bucket) (sh_StorageKey s) (uq_Download req) w1 = (Inr (ur_URL resp), w')"
    "ur_FileName resp = sh_FileName s" "ur_FileSize resp = sh_FileSize s"
proof -
  from assms(1) have "h_store h = db_share_store" "h_files h = s3_files c bucket"
    by (simp_all add: wired_def)
  from live.UnlockShare_sound [OF db_state_ok_self [OF assms(2)] this assms(3)] that
  show thesis by blast
qed

text \<open>
  A download link is handed out only to a request that carries a code whose salted SHA-256
  digest is the stored one, for a share that exists and has not expired; the link is for
  that share's file, lives one hour, and giving it out changes no share.
\<close>

theorem UnlockShare_requires_code:
  assumes "wired c bucket h" "db_ok (fst w)"
    and "UnlockShare h ctx slug body t1 t2 now w = (Success resp, h', w')"
  shows "\<exists>req s salt s1 s2. body = Some req \<and> share_view (fst w) slug = Some s
    \<and> now \<le> sh_ExpiresAt s \<and> hex_decode (sh_CodeSalt s) = Inr salt
    \<and> hashCode salt (normalizeCode (uq_Code req)) = sh_CodeHash s
    \<and> c_PresignGetObject c (get_object_input bucket (sh_StorageKey s) (uq_Download req)) Hour s1
        = (Inr (ur_URL resp), s2)
    \<and> ur_FileName resp = sh_FileName s \<and> ur_FileSize resp = sh_FileSize s
    \<and> share_view (fst w') = share_view (fst w)"
proof (rule live_unlock [OF assms])
  fix req s w1
  assume u: "body = Some req" "share_view (fst w) slug = Some s" "Verify s (uq_Code req) now = None"
    "share_view (fst w') = share_view (fst w)"
    "os_GetPresignedURL (s3_files c bucket) (sh_StorageKey s) (uq_Download req) w1 = (Inr (ur_URL resp), w')"
    "ur_FileName resp = sh_FileName s" "ur_FileSize resp = sh_FileSize s"
  from u(5) have "c_PresignGetObject c (get_object_input bucket (sh_StorageKey s) (uq_Download req)) Hour (snd w1)
        = (Inr (ur_URL resp), snd w')"
    by (auto simp: s3_files_def on_s3_eq S3_GetPresignedURL_def PresignTTL_def split: prod.splits sum.splits)
  with u show ?thesis unfolding Verify_None by blast
qed

subsection \<open>A code handed out works\<close>

lemma fair_GetBySlug:
  assumes "weather d = []" "db_ok d" "share_view d slug = Some s"
  shows "ShareStore_GetBySlug slug d = (Inr s, d)"
proof -
  obtain g d' where g: "ShareStore_GetBySlug slug d = (g, d')" by (rule prod.exhaust)
  have fair: "d' = d \<and> (g = Inl ErrNotFound \<or> (\<exists>r. g = Inr r))"
    using g assms(1)
    by (auto simp: ShareStore_GetBySlug_def get_share_def sql_select_shares_def split: list.splits)
  from ShareStore_GetBySlug_effect [OF assms(2) g] fair assms(3) g show ?thesis
    by auto
qed

lemma UnlockShare_opens:
  assumes "wired c bucket h" "weather (fst w) = []" "db_ok (fst w)"
    and "share_view (fst w) slug = Some s" "ValidateSlug slug = None"
    and "unlock_allowed h slug (c_ClientIP ctx) t1 t2 = (True, h')" "code \<noteq> []"
    and "Verify s code now = None"
    and "c_PresignGetObject c (get_object_input bucket (sh_StorageKey s) dl) Hour (snd w) = (Inr url, s')"
  shows "fst (UnlockShare h ctx slug (Some \<lparr>uq_Code = code, uq_Download = dl\<rparr>) t1 t2 now w) =
    Success \<lparr>ur_URL = url, ur_ExpiresIn = 3600, ur_FileName = sh_FileName s, ur_FileSize = sh_FileSize s\<rparr>"
proof -
  from assms(1) unlock_allowed_fields [OF assms(6)]
  have h': "h_store h' = db_share_store" "h_files h' = s3_files c bucket"
    by (simp_all add: wired_def)
  have "ss_GetBySlug db_share_store slug w = (Inr s, w)"
    using fair_GetBySlug [OF assms(2-4)] by (cases w) (simp add: db_share_store_def on_db_def)
  then have load: "loadShare h' slug w = (Inr s :: unlock_response response + share, w)"
    by (simp add: loadShare_def h' assms(5))
  have "os_GetPresignedURL (s3_files c bucket) (sh_StorageKey s) dl w = (Inr url, (fst w, s'))"
    using assms(9) by (simp add: s3_files_def on_s3_def S3_GetPresignedURL_def PresignTTL_def)
  with load h' assms(5-8) show ?thesis
    by (simp add: UnlockShare_def ShouldBindJSON_def unlock_tags_def in_seconds_def PresignTTL_def
        Hour_eq Second_def)
qed

text \<open>
  C3. A reported code works: after \<open>CreateShare\<close> answered with success, whether it made a
  share, rotated one or lost a race, the code in the answer, typed in any case with
  spaces and dashes anywhere, gets the download link of the requested file until the stored
  expiry (the reported one cut to microseconds), provided the limiter lets the attempt
  through, the database answers and S3 signs.
\<close>

theorem created_code_unlocks:
  assumes "wired c bucket h" "db_ok (fst w)" "shares_ok (share_view (fst w))"
    and "CreateShare h ctx (Some req) now now' es w = Some (Success resp, es', w')"
    and "wired c bucket h2" "weather (fst w') = []"
    and "unlock_allowed h2 (cr_Slug resp) (c_ClientIP ctx2) t1 t2 = (True, h3)"
    and "t \<le> pg_ts (cr_ExpiresAt resp)" "typed \<noteq> []"
    and "ToLower (filter (\<lambda>c. \<not> separator c) typed) = ToLower (cr_Code resp)"
    and "c_PresignGetObject c (get_object_input bucket (cq_StorageKey req) dl) Hour (snd w') = (Inr url, s')"
  shows "\<exists>name n. fst (UnlockShare h2 ctx2 (cr_Slug resp)
      (Some \<lparr>uq_Code = typed, uq_Download = dl\<rparr>) t1 t2 t w') =
    Success \<lparr>ur_URL = url, ur_ExpiresIn = 3600, ur_FileName = name, ur_FileSize = n\<rparr>"
proof -
  from assms(1) have h: "h_store h = db_share_store" "h_files h = s3_files c bucket"
    "h_uploads h = Some db_upload_lookup" by (simp_all add: wired_def)
  note live = db_state_ok_self [OF assms(2)] h assms(4)
  from live.CreateShare_code_opens [OF live] obtain s where
    s: "share_view (fst w') (cr_Slug resp) = Some s" "sh_StorageKey s = cq_StorageKey req"
      "sh_ExpiresAt s = pg_ts (cr_ExpiresAt resp)"
    and v: "\<And>typed t. t \<le> sh_ExpiresAt s \<Longrightarrow>
      ToLower (filter (\<lambda>c. \<not> separator c) typed) = ToLower (cr_Code resp) \<Longrightarrow> Verify s typed t = None"
    by blast
  from live.CreateShare_refines [OF live] have ok: "db_ok (fst w')"
    and "(share_step (owns_share (fst w)) (c_User ctx))\<^sup>*\<^sup>* (share_view (fst w)) (share_view (fst w'))"
    by (simp_all add: db_state_ok_def)
  from share_steps_ok [OF this(2) assms(3)] s(1) have "ValidateSlug (cr_Slug resp) = None"
    by (rule shares_okD(4))
  from UnlockShare_opens [OF assms(5,6) ok s(1) this assms(7,9) v [OF _ assms(10)]] assms(8,11) s
  show ?thesis by auto
qed

lemma sample_allowed:
  "\<exists>h. unlock_allowed sample_handler ''aaaaaaaaaa'' ip t1 t2 = (True, h)"
  by (simp add: unlock_allowed_def sample_handler_def NewShareHandler_def Allow_def newRateLimiter_def
      events_of_def table_full_def)

lemma sample_wired: "wired two_page_client ''b'' sample_handler"
  by (simp add: wired_def)

lemma created_ok: "db_ok created_db" "weather created_db = []"
  by (simp_all add: db_ok_def created_db_def)

theorem created_code_unlocks_witness:
  "\<exists>name n. fst (UnlockShare sample_handler sample_ctx ''aaaaaaaaaa''
      (Some \<lparr>uq_Code = ''aaa-AAA'', uq_Download = False\<rparr>) 9000 9000 9000 (created_db, ())) =
    Success \<lparr>ur_URL = ''get'', ur_ExpiresIn = 3600, ur_FileName = name, ur_FileSize = n\<rparr>"
proof -
  obtain h where h: "unlock_allowed sample_handler ''aaaaaaaaaa'' (c_ClientIP sample_ctx) 9000 9000 = (True, h)"
    using sample_allowed by blast
  let ?r = "create_reply sample_new ''AAAAAA'' False"
  have r: "cr_Slug ?r = ''aaaaaaaaaa''" "cr_Code ?r = ''AAAAAA''" "cr_ExpiresAt ?r = 7000 + Hour"
    by (simp_all add: create_reply_def sample_new_def)
  have "ToLower (filter (\<lambda>c. \<not> separator c) ''aaa-AAA'') = ToLower ''AAAAAA''" by code_simp
  with created_code_unlocks [OF sample_wired _ _ sample_created sample_wired, of sample_ctx 9000 9000 h 9000
      "''aaa-AAA''" False "''get''" "()"] h r created_ok(2) show ?thesis
    by (simp add: db_ok_def shares_ok_def share_view_def pg_ts_def Hour_eq two_page_client_def)
qed

lemma created_code_opens:
  assumes "ToLower (filter (\<lambda>c. \<not> separator c) typed) = ToLower ''AAAAAA''"
  shows "Verify (scanShare created_row) typed 9000 = None"
  using assms by (intro salted_code_opens [of _ sample_salt "''AAAAAA''"])
    (simp_all add: created_row_def codeAlphabet_def Hour_eq)

theorem UnlockShare_requires_code_witness:
  "\<exists>s. share_view created_db ''aaaaaaaaaa'' = Some s \<and> 9000 \<le> sh_ExpiresAt s"
proof -
  obtain h where h: "unlock_allowed sample_handler ''aaaaaaaaaa'' (c_ClientIP sample_ctx) 9000 9000 = (True, h)"
    using sample_allowed by blast
  let ?s = "scanShare created_row"
  have "Verify ?s ''AAAAAA'' 9000 = None"
    by (rule created_code_opens) (simp add: separator_def)
  with UnlockShare_opens [OF sample_wired _ _ _ _ h, of "(created_db, ())" ?s "''AAAAAA''" 9000 False "''get''" "()"]
    created_ok have "fst (UnlockShare sample_handler sample_ctx ''aaaaaaaaaa''
      (Some \<lparr>uq_Code = ''AAAAAA'', uq_Download = False\<rparr>) 9000 9000 9000 (created_db, ()))
      = Success \<lparr>ur_URL = ''get'', ur_ExpiresIn = 3600, ur_FileName = sh_FileName ?s, ur_FileSize = sh_FileSize ?s\<rparr>"
    by (simp add: created_view two_page_client_def ValidateSlug_iff slugLength_def slugAlphabet_def)
  then obtain resp h' w' where "UnlockShare sample_handler sample_ctx ''aaaaaaaaaa''
      (Some \<lparr>uq_Code = ''AAAAAA'', uq_Download = False\<rparr>) 9000 9000 9000 (created_db, ()) = (Success resp, h', w')"
    by (metis prod.collapse)
  from UnlockShare_requires_code [OF sample_wired _ this] created_ok(1) show ?thesis by auto
qed

subsection \<open>The number of guesses\<close>

text \<open>
  A series of unlock attempts, from any clients, each at its own clock readings and finding
  the database and the bucket in some state of its own: other requests may run between.
\<close>

record attempt =
  at_ctx :: ctx
  at_slug :: string
  at_body :: "unlock_request option"
  at_t1 :: time
  at_t2 :: time
  at_t3 :: time

fun unlock_run ::
  "'w share_handler \<Rightarrow> (attempt \<times> 'w) list \<Rightarrow> (attempt \<times> unlock_response response) list" where
  "unlock_run h [] = []"
| "unlock_run h ((a, w) # rest) =
     (case UnlockShare h (at_ctx a) (at_slug a) (at_body a) (at_t1 a) (at_t2 a) (at_t3 a) w of
        (r, h', w') \<Rightarrow> (a, r) # unlock_run h' rest)"

text \<open>Whether an answer tells anything about the code: it is not "not found" or "slow down".\<close>

definition informative :: "unlock_response response \<Rightarrow> bool" where
  "informative r \<longleftrightarrow> rsp_Status r \<noteq> 404 \<and> rsp_Status r \<noteq> 429"

definition guesses :: "string \<Rightarrow> time \<Rightarrow> (attempt \<times> unlock_response response) list \<Rightarrow> nat" where
  "guesses slug t log = length (filter (\<lambda>(a, r). at_slug a = slug
     \<and> t - Minute < at_t1 a \<and> at_t1 a \<le> t \<and> informative r) log)"

definition slug_calls :: "(attempt \<times> 'w) list \<Rightarrow> (string \<times> time) list" where
  "slug_calls ws = map (\<lambda>(a, w). (at_slug a, at_t1 a))
     (filter (\<lambda>(a, w). ValidateSlug (at_slug a) = None) ws)"

lemma UnlockShare_limiter:
  assumes "UnlockShare h ctx slug body t1 t2 t3 w = (r, h', w')"
  shows "if ValidateSlug slug = None
    then h_perSlug h' = snd (Allow (h_perSlug h) slug t1)
       \<and> (informative r \<longrightarrow> fst (Allow (h_perSlug h) slug t1))
    else h' = h \<and> \<not> informative r"
proof (cases "ValidateSlug slug")
  case None
  obtain b h1 where u: "unlock_allowed h slug (c_ClientIP ctx) t1 t2 = (b, h1)" by (rule prod.exhaust)
  then have per: "h_perSlug h1 = snd (Allow (h_perSlug h) slug t1)" "b \<Longrightarrow> fst (Allow (h_perSlug h) slug t1)"
    by (auto simp: unlock_allowed_def split: prod.splits bool.splits)
  show ?thesis
  proof (cases b)
    case False
    with assms None u per show ?thesis by (auto simp: UnlockShare_def informative_def)
  next
    case True
    with assms None u have "h' = h1"
      by (auto simp: UnlockShare_def split: option.splits prod.splits sum.splits if_splits)
    with None True per show ?thesis by simp
  qed
next
  case (Some e)
  with assms show ?thesis by (auto simp: UnlockShare_def informative_def)
qed

lemma guesses_le_allowed:
  "guesses slug t (unlock_run h ws)
     \<le> length (in_window (fst (run_calls Allow (h_perSlug h) (slug_calls ws))) slug Minute t)"
proof (induction ws arbitrary: h)
  case Nil
  then show ?case by (simp add: guesses_def slug_calls_def)
next
  case (Cons x ws)
  obtain a w where x: "x = (a, w)" by (rule prod.exhaust)
  obtain r h' w' where u: "UnlockShare h (at_ctx a) (at_slug a) (at_body a) (at_t1 a) (at_t2 a)
      (at_t3 a) w = (r, h', w')" by (metis prod.collapse)
  note lim = UnlockShare_limiter [OF u]
  have run: "guesses slug t (unlock_run h (x # ws)) =
      (if at_slug a = slug \<and> t - Minute < at_t1 a \<and> at_t1 a \<le> t \<and> informative r then 1 else 0)
      + guesses slug t (unlock_run h' ws)"
    by (simp add: x u guesses_def)
  show ?case
  proof (cases "ValidateSlug (at_slug a) = None")
    case True
    obtain ok l where l: "Allow (h_perSlug h) (at_slug a) (at_t1 a) = (ok, l)" by (rule prod.exhaust)
    from True have calls: "slug_calls (x # ws) = (at_slug a, at_t1 a) # slug_calls ws"
      by (simp add: slug_calls_def x)
    from lim True l have h': "h_perSlug h' = l" "informative r \<Longrightarrow> ok" by auto
    from Cons [of h'] h' show ?thesis
      unfolding run calls by (auto simp: l in_window_def split: prod.splits)
  next
    case False
    then have "slug_calls (x # ws) = slug_calls ws" by (simp add: slug_calls_def x)
    with lim False Cons [of h'] show ?thesis unfolding run by simp
  qed
qed

text \<open>
  C12. At most 30 guesses a minute: however many clients attack one share, from however many
  addresses and with whatever requests in between, no minute ever holds more than 30
  attempts on its slug that learn anything about the code.
\<close>

theorem unlock_guess_bound:
  assumes "sorted (map (\<lambda>(a, w). at_t1 a) ws)"
  shows "guesses slug t (unlock_run (NewShareHandler store files uploads anon owned) ws) \<le> 30"
proof -
  have "map snd (slug_calls ws) = map (\<lambda>(a, w). at_t1 a) (filter (\<lambda>(a, w). ValidateSlug (at_slug a) = None) ws)"
    by (auto simp: slug_calls_def)
  with sorted_filter [OF assms] have s: "sorted (map snd (slug_calls ws))" by simp
  have "h_perSlug (NewShareHandler store files uploads anon owned) = newRateLimiter 30 Minute"
    by (simp add: NewShareHandler_def)
  with guesses_le_allowed [of slug t "NewShareHandler store files uploads anon owned" ws]
    limiter_window_bound [of 30 "slug_calls ws" Minute slug t] s show ?thesis by simp
qed

theorem unlock_guess_bound_witness:
  "guesses ''aaaaaaaaaa'' 9 (unlock_run (NewShareHandler db_share_store (s3_files two_page_client ''b'')
      (Some db_upload_lookup) 1 1)
     [(\<lparr>at_ctx = sample_ctx, at_slug = ''aaaaaaaaaa'', at_body = None, at_t1 = 9, at_t2 = 9, at_t3 = 9\<rparr>,
       (created_db, ()))]) \<le> 30"
  by (rule unlock_guess_bound) simp

end
