(* ===== verification/Workers.thy ===== *)
theory Workers
  imports ObjectStore
begin

section \<open>internal/worker: the retention sweep, the share purge and the job runner\<close>

text \<open>
  The periodic jobs. \<open>PurgeExpiredUploads\<close> and \<open>PurgeExpiredShares\<close> are records of the
  interface methods they call (\<open>worker/retention.go\<close>, \<open>worker/purge.go\<close>), over the
  world behind them; their loops are folds of one step per row, with every branch that
  logs and goes on. \<open>runOnce\<close> (\<open>worker/worker.go\<close>) is a pass of a job, with its deadline,
  panic recovery and record. The clock, also the database's own \<open>now()\<close>, is an argument.
  A context that is over when a pass begins makes it fail at once; one that ends halfway
  shows as the failure of the later calls.
\<close>

definition sweepInterval :: duration where "sweepInterval = Hour"
definition sweepBatchSize :: nat where "sweepBatchSize = 200"

subsection \<open>Retention of uploads\<close>

record 'w retention_job =
  rj_ListExpired :: "time \<Rightarrow> time \<Rightarrow> nat \<Rightarrow> 'w \<Rightarrow> (upload list \<times> goerr option) \<times> 'w"
  rj_Delete :: "string \<Rightarrow> 'w \<Rightarrow> goerr option \<times> 'w"
  rj_MarkDeleteFailed :: "string \<Rightarrow> goerr \<Rightarrow> 'w \<Rightarrow> goerr option \<times> 'w"
  rj_DeleteByStorageKey :: "string \<Rightarrow> 'w \<Rightarrow> (string list \<times> goerr option) \<times> 'w"
  rj_GetFileSize :: "string \<Rightarrow> 'w \<Rightarrow> (goerr + int) \<times> 'w"
  rj_DeleteFile :: "string \<Rightarrow> 'w \<Rightarrow> goerr option \<times> 'w"
  rj_Record :: "string \<Rightarrow> string \<Rightarrow> detail option \<Rightarrow> 'w \<Rightarrow> goerr option \<times> 'w"
  rj_AnonTTL :: duration
  rj_OwnedTTL :: duration

datatype swept = Deleted | Failed | Dropped

definition purged_upload_of :: "upload \<Rightarrow> int \<Rightarrow> string list \<Rightarrow> detail option" where
  "purged_upload_of up n slugs =
     Some (PurgedUpload \<lparr>pu_StorageKey = up_StorageKey up, pu_OwnerID = up_OwnerID up,
       pu_FileName = up_FileName up, pu_SizeBytes = n, pu_CreatedAt = up_CreatedAt up,
       pu_DeletedShareSlugs = slugs\<rparr>)"

text \<open>The branch of an object that is not in the bucket: drop the row.\<close>

definition sweep_absent :: "'w retention_job \<Rightarrow> upload \<Rightarrow> 'w \<Rightarrow> swept \<times> 'w" where
  "sweep_absent j up w =
     (case rj_Delete j (up_StorageKey up) w of
        (Some derr, w1) \<Rightarrow> (Failed, snd (rj_MarkDeleteFailed j (up_StorageKey up) derr w1))
      | (None, w1) \<Rightarrow>
          if 0 < up_DeleteAttempts up
          then (Deleted, snd (rj_Record j ''purge_upload'' (up_StorageKey up)
                  (purged_upload_of up (up_SizeBytes up) []) w1))
          else (Dropped, w1))"

text \<open>The branch of an object that is there: delete it, its shares, then the row.\<close>

definition sweep_present :: "'w retention_job \<Rightarrow> upload \<Rightarrow> int \<Rightarrow> 'w \<Rightarrow> swept \<times> 'w" where
  "sweep_present j up n w =
     (case rj_DeleteFile j (up_StorageKey up) w of
        (Some e, w1) \<Rightarrow>
          (case rj_MarkDeleteFailed j (up_StorageKey up) e w1 of
             (_, w2) \<Rightarrow>
               (Failed, snd (rj_Record j ''purge_upload_failed'' (up_StorageKey up)
                  (Some (PurgeFailure \<lparr>pf_Attempt = up_DeleteAttempts up + 1, pf_Error = e\<rparr>)) w2)))
      | (None, w1) \<Rightarrow>
          (case rj_DeleteByStorageKey j (up_StorageKey up) w1 of
             ((slugs, _), w2) \<Rightarrow>
               (case rj_Delete j (up_StorageKey up) w2 of
                  (Some e, w3) \<Rightarrow> (Failed, snd (rj_MarkDeleteFailed j (up_StorageKey up) e w3))
                | (None, w3) \<Rightarrow>
                    (Deleted, snd (rj_Record j ''purge_upload'' (up_StorageKey up)
                       (purged_upload_of up n slugs) w3)))))"

definition sweep_one :: "'w retention_job \<Rightarrow> upload \<Rightarrow> 'w \<Rightarrow> swept \<times> 'w" where
  "sweep_one j up w =
     (case rj_GetFileSize j (up_StorageKey up) w of
        (Inl e, w1) \<Rightarrow>
          if errors_is e ErrObjectNotFound then sweep_absent j up w1
          else (Failed, snd (rj_MarkDeleteFailed j (up_StorageKey up) e w1))
      | (Inr n, w1) \<Rightarrow> sweep_present j up n w1)"

fun sweep :: "'w retention_job \<Rightarrow> upload list \<Rightarrow> 'w \<Rightarrow> swept list \<times> 'w" where
  "sweep j [] w = ([], w)"
| "sweep j (up # ups) w =
     (case sweep_one j up w of (o1, w1) \<Rightarrow> (case sweep j ups w1 of (os, w2) \<Rightarrow> (o1 # os, w2)))"

text \<open>The result is the job's error, with what became of each row (the counters it logs).\<close>

definition Retention_Run :: "'w retention_job \<Rightarrow> time \<Rightarrow> 'w \<Rightarrow> (goerr option \<times> swept list) \<times> 'w" where
  "Retention_Run j now w =
     (case rj_ListExpired j (now + wrap64 (- rj_AnonTTL j)) (now + wrap64 (- rj_OwnedTTL j))
             sweepBatchSize w of
        ((ups, Some e), w1) \<Rightarrow> ((Some e, []), w1)
      | ((ups, None), w1) \<Rightarrow> (case sweep j ups w1 of (os, w2) \<Rightarrow> ((None, os), w2)))"

subsection \<open>Purge of expired shares\<close>

record 'w purge_job =
  pj_ListExpired :: "nat \<Rightarrow> 'w \<Rightarrow> (share list \<times> goerr option) \<times> 'w"
  pj_DeleteBySlug :: "string \<Rightarrow> 'w \<Rightarrow> goerr option \<times> 'w"
  pj_Record :: "string \<Rightarrow> string \<Rightarrow> detail option \<Rightarrow> 'w \<Rightarrow> goerr option \<times> 'w"

definition purged_share_of :: "share \<Rightarrow> detail option" where
  "purged_share_of s =
     Some (PurgedShare \<lparr>ps_Slug = sh_Slug s, ps_StorageKey = sh_StorageKey s,
       ps_FileName = sh_FileName s, ps_FileSize = sh_FileSize s, ps_OwnerEmail = sh_OwnerEmail s,
       ps_CreatedAt = sh_CreatedAt s, ps_ExpiresAt = sh_ExpiresAt s\<rparr>)"

definition purge_one :: "'w purge_job \<Rightarrow> share \<Rightarrow> 'w \<Rightarrow> 'w" where
  "purge_one j s w =
     (case pj_DeleteBySlug j (sh_Slug s) w of
        (Some e, w1) \<Rightarrow> w1
      | (None, w1) \<Rightarrow> snd (pj_Record j ''purge_share'' (sh_Slug s) (purged_share_of s) w1))"

definition Purge_Run :: "'w purge_job \<Rightarrow> 'w \<Rightarrow> goerr option \<times> 'w" where
  "Purge_Run j w =
     (case pj_ListExpired j sweepBatchSize w of
        ((l, Some e), w1) \<Rightarrow> (Some e, w1)
      | ((l, None), w1) \<Rightarrow> (None, fold (purge_one j) l w1))"

subsection \<open>Contexts\<close>

text \<open>
  A context is live or over, with the message of its error. A call that gets a context that is
  over fails with that error and never reaches the database or S3.
\<close>

datatype job_ctx = Live | Over string

definition perRunTimeout :: duration where "perRunTimeout = 10 * Minute"

definition WithTimeout :: "job_ctx \<Rightarrow> time \<Rightarrow> duration \<Rightarrow> time \<Rightarrow> job_ctx" where
  "WithTimeout ctx start timeout now =
     (case ctx of
        Over e \<Rightarrow> Over e
      | Live \<Rightarrow> if start + timeout \<le> now then Over ''context deadline exceeded'' else Live)"

text \<open>A method of a store or of the auditor that makes one call to the database.\<close>

definition call_in :: "job_ctx \<Rightarrow> (db \<Rightarrow> 'a \<times> db) \<Rightarrow> db \<Rightarrow> 'a \<times> db" where
  "call_in ctx method d =
     (case ctx of Live \<Rightarrow> method d | Over e \<Rightarrow> (fst (method (d\<lparr>weather := [Refused e]\<rparr>)), d))"

definition world_call_in :: "job_ctx \<Rightarrow> (db \<times> 's \<Rightarrow> 'a \<times> db \<times> 's) \<Rightarrow> db \<times> 's \<Rightarrow> 'a \<times> db \<times> 's" where
  "world_call_in ctx method w =
     (case ctx of Live \<Rightarrow> method w | Over e \<Rightarrow> (fst (method ((fst w)\<lparr>weather := [Refused e]\<rparr>, snd w)), w))"

definition purge_in :: "job_ctx \<Rightarrow> db purge_job \<Rightarrow> db purge_job" where
  "purge_in ctx j =
     \<lparr>pj_ListExpired = \<lambda>n. call_in ctx (pj_ListExpired j n),
      pj_DeleteBySlug = \<lambda>slug. call_in ctx (pj_DeleteBySlug j slug),
      pj_Record = \<lambda>action subject detail. call_in ctx (pj_Record j action subject detail)\<rparr>"

definition retention_in :: "job_ctx \<Rightarrow> (db \<times> 's) retention_job \<Rightarrow> (db \<times> 's) retention_job" where
  "retention_in ctx j =
     j\<lparr>rj_ListExpired := \<lambda>a b n. world_call_in ctx (rj_ListExpired j a b n),
       rj_Delete := \<lambda>key. world_call_in ctx (rj_Delete j key),
       rj_MarkDeleteFailed := \<lambda>key e. world_call_in ctx (rj_MarkDeleteFailed j key e),
       rj_DeleteByStorageKey := \<lambda>key. world_call_in ctx (rj_DeleteByStorageKey j key),
       rj_GetFileSize := \<lambda>key w. (case ctx of Live \<Rightarrow> rj_GetFileSize j key w | Over e \<Rightarrow> (Inl (Fault e), w)),
       rj_DeleteFile := \<lambda>key w. (case ctx of Live \<Rightarrow> rj_DeleteFile j key w | Over e \<Rightarrow> (Some (Fault e), w)),
       rj_Record := \<lambda>action subject detail. world_call_in ctx (rj_Record j action subject detail)\<rparr>"

lemma call_Live [simp]: "call_in Live m = m" "world_call_in Live k = k"
  by (simp_all add: fun_eq_iff call_in_def world_call_in_def)

lemma in_Live [simp]: "purge_in Live j = j" "retention_in Live k = k"
  by (cases j; simp add: purge_in_def) (cases k; simp add: retention_in_def)

subsection \<open>The runner\<close>

text \<open>
  A run of a job returns (\<open>Inr\<close> its error result) or panics (\<open>Inl\<close>); \<open>safeRun\<close> turns a
  panic into an error. \<open>runOnce\<close> gives the job a context with a deadline, which the job's
  first call meets at the clock reading \<open>now\<close>, and records every outcome through the
  optional hook, in the context of the runner.
\<close>

type_synonym 'w job_body = "'w \<Rightarrow> (string + goerr option) \<times> 'w"
type_synonym 'w record_hook = "job_ctx \<Rightarrow> string \<Rightarrow> time \<Rightarrow> time \<Rightarrow> goerr option \<Rightarrow> 'w \<Rightarrow> 'w"

definition safeRun :: "'w job_body \<Rightarrow> 'w \<Rightarrow> goerr option \<times> 'w" where
  "safeRun run w =
     (case run w of
        (Inl p, w1) \<Rightarrow> (Some (Fault (''panic: '' @ p)), w1)
      | (Inr e, w1) \<Rightarrow> (e, w1))"

definition runOnce ::
  "'w record_hook option \<Rightarrow> string \<Rightarrow> (job_ctx \<Rightarrow> 'w job_body) \<Rightarrow> job_ctx
   \<Rightarrow> time \<Rightarrow> time \<Rightarrow> time \<Rightarrow> 'w \<Rightarrow> 'w" where
  "runOnce record_fn name run ctx start now fin w =
     (case safeRun (run (WithTimeout ctx start perRunTimeout now)) w of
        (err, w1) \<Rightarrow> (case record_fn of None \<Rightarrow> w1 | Some rec \<Rightarrow> rec ctx name start fin err w1))"

subsection \<open>The jobs as the server wires them\<close>

definition live_retention :: "'s s3_client \<Rightarrow> string \<Rightarrow> duration \<Rightarrow> duration \<Rightarrow> (db \<times> 's) retention_job" where
  "live_retention c bucket anon owned =
     \<lparr>rj_ListExpired = \<lambda>a b n. on_db (UploadStore_ListExpired a b n),
      rj_Delete = \<lambda>key. on_db (UploadStore_Delete key),
      rj_MarkDeleteFailed = \<lambda>key e. on_db (UploadStore_MarkDeleteFailed key e),
      rj_DeleteByStorageKey = \<lambda>key. on_db (ShareStore_DeleteByStorageKey key),
      rj_GetFileSize = \<lambda>key. on_s3 (S3_GetFileSize c bucket key),
      rj_DeleteFile = \<lambda>key. on_s3 (S3_DeleteFile c bucket key),
      rj_Record = \<lambda>action subject detail. on_db (DBAuditor_Record action subject detail),
      rj_AnonTTL = anon, rj_OwnedTTL = owned\<rparr>"

definition live_purge :: "time \<Rightarrow> db purge_job" where
  "live_purge dbnow =
     \<lparr>pj_ListExpired = \<lambda>n. ShareStore_ListExpired dbnow n,
      pj_DeleteBySlug = ShareStore_DeleteBySlug,
      pj_Record = DBAuditor_Record\<rparr>"

lemma live_retention_simps [simp]:
  "rj_AnonTTL (live_retention c bucket a b) = a" "rj_OwnedTTL (live_retention c bucket a b) = b"
  "rj_GetFileSize (live_retention c bucket a b) key = on_s3 (S3_GetFileSize c bucket key)"
  "rj_DeleteFile (live_retention c bucket a b) key = on_s3 (S3_DeleteFile c bucket key)"
  "rj_Delete (live_retention c bucket a b) key = on_db (UploadStore_Delete key)"
  "rj_MarkDeleteFailed (live_retention c bucket a b) key e = on_db (UploadStore_MarkDeleteFailed key e)"
  "rj_DeleteByStorageKey (live_retention c bucket a b) key = on_db (ShareStore_DeleteByStorageKey key)"
  "rj_Record (live_retention c bucket a b) act subj det = on_db (DBAuditor_Record act subj det)"
  "rj_ListExpired (live_retention c bucket a b) x y n = on_db (UploadStore_ListExpired x y n)"
  by (simp_all add: live_retention_def)

lemma live_purge_simps [simp]:
  "pj_ListExpired (live_purge now) n = ShareStore_ListExpired now n"
  "pj_DeleteBySlug (live_purge now) = ShareStore_DeleteBySlug"
  "pj_Record (live_purge now) = DBAuditor_Record"
  by (simp_all add: live_purge_def)

text \<open>In a context that is over a job fails at its first call, and nothing has happened.\<close>

lemma refused_list:
  "\<exists>e. fst (ShareStore_ListExpired now n (d\<lparr>weather := [Refused m]\<rparr>)) = ([], Some e)"
  "\<exists>e. fst (UploadStore_ListExpired a b n (d\<lparr>weather := [Refused m]\<rparr>)) = ([], Some e)"
  by (simp_all add: ShareStore_ListExpired_def UploadStore_ListExpired_def db_Query_def next_outcome_def)

lemma Purge_Run_over: "\<exists>e. Purge_Run (purge_in (Over m) (live_purge now)) d = (Some e, d)"
proof -
  obtain e where "fst (ShareStore_ListExpired now sweepBatchSize (d\<lparr>weather := [Refused m]\<rparr>)) = ([], Some e)"
    using refused_list(1) [where d = d and m = m] by blast
  then have "pj_ListExpired (purge_in (Over m) (live_purge now)) sweepBatchSize d = (([], Some e), d)"
    by (simp add: purge_in_def call_in_def)
  then show ?thesis by (simp add: Purge_Run_def)
qed

lemma Retention_Run_over:
  "\<exists>e. Retention_Run (retention_in (Over m) (live_retention c bucket anon owned)) now w = ((Some e, []), w)"
proof -
  let ?j = "retention_in (Over m) (live_retention c bucket anon owned)"
  have fields: "rj_AnonTTL ?j = anon" "rj_OwnedTTL ?j = owned" by (simp_all add: retention_in_def)
  let ?a = "now + wrap64 (- anon)" and ?b = "now + wrap64 (- owned)"
  obtain e where "fst (UploadStore_ListExpired ?a ?b sweepBatchSize (fst w\<lparr>weather := [Refused m]\<rparr>)) = ([], Some e)"
    using refused_list(2) [where d = "fst w" and m = m] by blast
  then have "rj_ListExpired ?j ?a ?b sweepBatchSize w = (([], Some e), w)"
    by (auto simp: retention_in_def world_call_in_def on_db_def split: prod.splits)
  then show ?thesis by (simp add: Retention_Run_def fields)
qed

end
