(* ===== verification/Retention.thy ===== *)
theory Retention
  imports Workers
begin

section \<open>What the retention sweep deletes\<close>

text \<open>
  The retention job against the contract of its three backends. \<open>tracked\<close> are the keys of
  upload rows, \<open>objs\<close> the keys of objects in the bucket, \<open>due\<close> the keys whose rows are
  past their window. Every law allows an operation to fail before or after its effect.
\<close>

locale retention_backend =
  fixes job :: "'w retention_job"
    and ok :: "'w \<Rightarrow> bool"
    and tracked :: "'w \<Rightarrow> string set"
    and objs :: "'w \<Rightarrow> string set"
    and due :: "time \<Rightarrow> time \<Rightarrow> 'w \<Rightarrow> string set"
  assumes list_law: "ok w \<Longrightarrow> rj_ListExpired job a b n w = ((l, r), w') \<Longrightarrow>
      ok w' \<and> tracked w' = tracked w \<and> objs w' = objs w \<and> up_StorageKey ` set l \<subseteq> due a b w"
    and head_law: "ok w \<Longrightarrow> rj_GetFileSize job key w = (g, w') \<Longrightarrow>
      ok w' \<and> tracked w' = tracked w \<and> objs w' = objs w
      \<and> (\<forall>e. g = Inl e \<longrightarrow> errors_is e ErrObjectNotFound \<longrightarrow> key \<notin> objs w)"
    and remove_law: "ok w \<Longrightarrow> rj_DeleteFile job key w = (r, w') \<Longrightarrow>
      ok w' \<and> tracked w' = tracked w
      \<and> (objs w' = objs w \<and> r \<noteq> None \<or> objs w' = objs w - {key})"
    and drop_law: "ok w \<Longrightarrow> rj_Delete job key w = (r, w') \<Longrightarrow>
      ok w' \<and> objs w' = objs w
      \<and> (tracked w' = tracked w \<and> r \<noteq> None \<or> tracked w' = tracked w - {key})"
    and mark_law: "ok w \<Longrightarrow> rj_MarkDeleteFailed job key e w = (r, w') \<Longrightarrow>
      ok w' \<and> tracked w' = tracked w \<and> objs w' = objs w"
    and record_law: "ok w \<Longrightarrow> rj_Record job action subject detail w = (r, w') \<Longrightarrow>
      ok w' \<and> tracked w' = tracked w \<and> objs w' = objs w"
    and shares_law: "ok w \<Longrightarrow> rj_DeleteByStorageKey job key w = (x, w') \<Longrightarrow>
      ok w' \<and> tracked w' = tracked w \<and> objs w' = objs w"
begin

text \<open>
  \<open>swept_to D w w'\<close>: on the way from \<open>w\<close> to \<open>w'\<close> only keys of \<open>D\<close> lost anything, and a row
  was dropped only for an object that is gone.
\<close>

definition swept_to :: "string set \<Rightarrow> 'w \<Rightarrow> 'w \<Rightarrow> bool" where
  "swept_to D w w' \<longleftrightarrow> ok w' \<and> objs w' \<subseteq> objs w \<and> tracked w' \<subseteq> tracked w
     \<and> objs w - objs w' \<subseteq> D \<and> tracked w - tracked w' \<subseteq> D - objs w'"

lemma swept_to_same: "ok w' \<Longrightarrow> tracked w' = tracked w \<Longrightarrow> objs w' = objs w \<Longrightarrow> swept_to D w w'"
  by (simp add: swept_to_def)

lemma swept_to_trans: "swept_to D w w1 \<Longrightarrow> swept_to D w1 w2 \<Longrightarrow> swept_to D w w2"
  unfolding swept_to_def by blast

lemma swept_to_ok: "swept_to D w w' \<Longrightarrow> ok w'"
  by (simp add: swept_to_def)

lemma marked: "ok w \<Longrightarrow> swept_to D w (snd (rj_MarkDeleteFailed job key e w))"
  using mark_law [of w key e "fst (rj_MarkDeleteFailed job key e w)"]
  by (intro swept_to_same) simp_all

lemma recorded: "ok w \<Longrightarrow> swept_to D w (snd (rj_Record job action subject detail w))"
  using record_law [of w action subject detail "fst (rj_Record job action subject detail w)"]
  by (intro swept_to_same) simp_all

lemma dropped:
  assumes "ok w" "rj_Delete job key w = (r, w')" "key \<in> D" "key \<notin> objs w"
  shows "swept_to D w w'"
  using drop_law [OF assms(1,2)] assms(3,4) by (auto simp: swept_to_def)

lemma sweep_absent_safe:
  assumes "ok w" "up_StorageKey up \<in> D" "up_StorageKey up \<notin> objs w"
  shows "swept_to D w (snd (sweep_absent job up w))"
proof -
  obtain r w1 where del: "rj_Delete job (up_StorageKey up) w = (r, w1)" by (rule prod.exhaust)
  note step = dropped [OF assms(1) del assms(2,3)]
  note ok1 = swept_to_ok [OF step]
  show ?thesis
    using del step swept_to_trans [OF step marked [OF ok1]] swept_to_trans [OF step recorded [OF ok1]]
    by (cases r) (simp_all add: sweep_absent_def)
qed

lemma sweep_present_safe:
  assumes "ok w" "up_StorageKey up \<in> D"
  shows "swept_to D w (snd (sweep_present job up n w))"
proof -
  let ?key = "up_StorageKey up"
  obtain r w1 where del: "rj_DeleteFile job ?key w = (r, w1)" by (rule prod.exhaust)
  note removed = remove_law [OF assms(1) del]
  then have step: "swept_to D w w1" using assms(2) by (auto simp: swept_to_def)
  show ?thesis
  proof (cases r)
    case (Some e)
    obtain m w2 where mark: "rj_MarkDeleteFailed job ?key e w1 = (m, w2)" by (rule prod.exhaust)
    with marked [OF swept_to_ok [OF step], of D ?key e] have "swept_to D w1 w2" by simp
    from swept_to_trans [OF step swept_to_trans [OF this recorded [OF swept_to_ok [OF this]]]]
    show ?thesis by (simp add: sweep_present_def del Some mark)
  next
    case None
    with removed have gone: "?key \<notin> objs w1" by auto
    obtain x w2 where sh: "rj_DeleteByStorageKey job ?key w1 = (x, w2)" by (rule prod.exhaust)
    note same = shares_law [OF swept_to_ok [OF step] sh]
    then have step2: "swept_to D w w2" using step swept_to_trans swept_to_same by blast
    obtain d w3 where row: "rj_Delete job ?key w2 = (d, w3)" by (rule prod.exhaust)
    have "swept_to D w2 w3"
      using dropped [OF _ row assms(2)] same gone by simp
    with step2 have step3: "swept_to D w w3" by (rule swept_to_trans)
    note ok3 = swept_to_ok [OF step3]
    show ?thesis
      using step3 swept_to_trans [OF step3 marked [OF ok3]] swept_to_trans [OF step3 recorded [OF ok3]]
      by (cases d; cases x) (simp_all add: sweep_present_def del None sh row)
  qed
qed

lemma sweep_one_safe:
  assumes "ok w" "up_StorageKey up \<in> D"
  shows "swept_to D w (snd (sweep_one job up w))"
proof -
  let ?key = "up_StorageKey up"
  obtain r w1 where head: "rj_GetFileSize job ?key w = (r, w1)" by (rule prod.exhaust)
  note law = head_law [OF assms(1) head]
  then have step: "swept_to D w w1" by (simp add: swept_to_same)
  note ok1 = swept_to_ok [OF step]
  show ?thesis
  proof (cases r)
    case (Inl e)
    with law show ?thesis
      using swept_to_trans [OF step sweep_absent_safe [OF ok1 assms(2)]]
        swept_to_trans [OF step marked [OF ok1]]
      by (simp add: sweep_one_def head)
  next
    case (Inr n)
    with swept_to_trans [OF step sweep_present_safe [OF ok1 assms(2)]]
    show ?thesis by (simp add: sweep_one_def head)
  qed
qed

lemma sweep_safe:
  "ok w \<Longrightarrow> up_StorageKey ` set ups \<subseteq> D \<Longrightarrow> swept_to D w (snd (sweep job ups w))"
proof (induction ups arbitrary: w)
  case Nil
  then show ?case by (simp add: swept_to_same)
next
  case (Cons up ups)
  obtain o1 w1 where one: "sweep_one job up w = (o1, w1)" by (rule prod.exhaust)
  with Cons.prems sweep_one_safe [of w up D] have step: "swept_to D w w1" by simp
  from Cons.prems(2) have "swept_to D w1 (snd (sweep job ups w1))"
    by (intro Cons.IH [OF swept_to_ok [OF step]]) simp
  from swept_to_trans [OF step this] show ?case
    by (cases "sweep job ups w1") (simp add: one)
qed

lemma Run_safe:
  assumes "ok w"
  shows "swept_to (due (now + wrap64 (- rj_AnonTTL job)) (now + wrap64 (- rj_OwnedTTL job)) w) w
    (snd (Retention_Run job now w))"
proof -
  let ?a = "now + wrap64 (- rj_AnonTTL job)" and ?b = "now + wrap64 (- rj_OwnedTTL job)"
  obtain l r w1 where list: "rj_ListExpired job ?a ?b sweepBatchSize w = ((l, r), w1)"
    by (metis prod.collapse)
  note law = list_law [OF assms list]
  then have step: "swept_to (due ?a ?b w) w w1" by (simp add: swept_to_same)
  show ?thesis
  proof (cases r)
    case None
    with law swept_to_trans [OF step sweep_safe [OF swept_to_ok [OF step], of l]]
    show ?thesis by (cases "sweep job l w1") (simp add: Retention_Run_def list)
  next
    case Some
    with step show ?thesis by (simp add: Retention_Run_def list)
  qed
qed

end


subsection \<open>The live job\<close>

text \<open>
  What is relied on of S3, with \<open>objs\<close> reading the keys off its state: a \<open>HEAD\<close> changes
  nothing and answers \<open>NotFound\<close> only for an absent key; a \<open>DELETE\<close> that fails may have
  removed the key or not, and touches no other. Errors of the SDK are never the
  repository's own sentinel.
\<close>

definition s3_contract :: "'s s3_client \<Rightarrow> string \<Rightarrow> ('s \<Rightarrow> string set) \<Rightarrow> bool" where
  "s3_contract c bucket objs \<longleftrightarrow>
     (\<forall>key s r s'. c_HeadObject c bucket key s = (r, s') \<longrightarrow> objs s' = objs s \<and>
        (\<forall>e. r = Inl e \<longrightarrow> \<not> errors_is e ErrObjectNotFound \<and>
           (errors_as_api e = Some ''NotFound'' \<or> errors_as_api e = Some ''NoSuchKey'' \<longrightarrow> key \<notin> objs s))) \<and>
     (\<forall>key s r s'. c_DeleteObject c bucket key s = (r, s') \<longrightarrow>
        objs s' = objs s \<and> r \<noteq> None \<or> objs s' = objs s - {key})"

definition upload_keys :: "db \<Rightarrow> string set" where
  "upload_keys d = u_storage_key ` set (uploads_t d)"

definition due_uploads :: "time \<Rightarrow> time \<Rightarrow> db \<Rightarrow> string set" where
  "due_uploads a b d = u_storage_key ` {u \<in> set (uploads_t d). past_window a b u}"

lemma due_listed:
  assumes "\<forall>up \<in> set l. \<exists>u \<in> set (uploads_t d). up = scanUpload u \<and> past_window a b u"
  shows "up_StorageKey ` set l \<subseteq> due_uploads a b d"
proof
  fix k assume "k \<in> up_StorageKey ` set l"
  then obtain up where "up \<in> set l" "k = up_StorageKey up" by blast
  with assms obtain u where "u \<in> set (uploads_t d)" "past_window a b u" "k = u_storage_key u"
    by (fastforce simp: scanUpload_def)
  then show "k \<in> due_uploads a b d" by (auto simp: due_uploads_def)
qed

lemma wrapNotFound_is:
  "errors_is (wrapNotFound format key e) ErrObjectNotFound \<longleftrightarrow>
     errors_is e ErrObjectNotFound \<or> errors_as_api e = Some ''NotFound'' \<or> errors_as_api e = Some ''NoSuchKey''"
  by (auto simp: wrapNotFound_def split: option.splits)

lemma s3_contractD:
  assumes "s3_contract c bucket objs"
  shows "c_HeadObject c bucket key s = (g, s') \<Longrightarrow> objs s' = objs s"
    and "c_HeadObject c bucket key s = (Inl e, s') \<Longrightarrow> \<not> errors_is e ErrObjectNotFound \<and>
      (errors_as_api e = Some ''NotFound'' \<or> errors_as_api e = Some ''NoSuchKey'' \<longrightarrow> key \<notin> objs s)"
    and "c_DeleteObject c bucket key s = (r, s') \<Longrightarrow>
      objs s' = objs s \<and> r \<noteq> None \<or> objs s' = objs s - {key}"
  using assms unfolding s3_contract_def by blast+

lemma S3_GetFileSize_absent:
  assumes "s3_contract c bucket objs" "S3_GetFileSize c bucket key s = (r, s')"
  shows "objs s' = objs s \<and> (\<forall>e. r = Inl e \<longrightarrow> errors_is e ErrObjectNotFound \<longrightarrow> key \<notin> objs s)"
proof -
  obtain g s1 where head: "c_HeadObject c bucket key s = (g, s1)" by (rule prod.exhaust)
  note law = s3_contractD(1,2) [OF assms(1)]
  show ?thesis
  proof (cases g)
    case (Inl e)
    with head law(2) [of key s e s1] law(1) [OF head] assms(2) show ?thesis
      by (auto simp: S3_GetFileSize_def wrapNotFound_is)
  next
    case (Inr n)
    with head law(1) [OF head] assms(2) show ?thesis by (auto simp: S3_GetFileSize_def)
  qed
qed

lemma S3_DeleteFile_removes:
  assumes "s3_contract c bucket objs" "S3_DeleteFile c bucket key s = (r, s')"
  shows "objs s' = objs s \<and> r \<noteq> None \<or> objs s' = objs s - {key}"
proof -
  obtain g s1 where del: "c_DeleteObject c bucket key s = (g, s1)" by (rule prod.exhaust)
  from s3_contractD(3) [OF assms(1) del] assms(2) show ?thesis
    by (cases g) (auto simp: S3_DeleteFile_def del)
qed

interpretation live_sweep: retention_backend "live_retention c bucket anon owned"
  "\<lambda>w. s3_contract c bucket objects" "\<lambda>w. upload_keys (fst w)" "\<lambda>w. objects (snd w)"
  "\<lambda>a b w. due_uploads a b (fst w)"
  for c :: "'s s3_client" and bucket :: string and anon owned :: duration and objects :: "'s \<Rightarrow> string set"
proof unfold_locales
  fix w :: "db \<times> 's" and w' key
  assume ok: "s3_contract c bucket objects"
  show "s3_contract c bucket objects \<and> upload_keys (fst w') = upload_keys (fst w)
      \<and> objects (snd w') = objects (snd w) \<and> up_StorageKey ` set l \<subseteq> due_uploads a b (fst w)"
    if "rj_ListExpired (live_retention c bucket anon owned) a b n w = ((l, r), w')" for a b n l r
  proof -
    from that have "UploadStore_ListExpired a b n (fst w) = ((l, r), fst w')" and s: "snd w' = snd w"
      by (simp_all add: on_db_eq)
    from UploadStore_ListExpired_effect [OF this(1)] have t: "same_tables (fst w) (fst w')"
      and "up_StorageKey ` set l \<subseteq> due_uploads a b (fst w)"
      by (simp_all add: due_listed)
    with s ok same_tablesD(2) [OF t] show ?thesis by (simp add: upload_keys_def)
  qed
  show "s3_contract c bucket objects \<and> upload_keys (fst w') = upload_keys (fst w)
      \<and> objects (snd w') = objects (snd w)
      \<and> (\<forall>e. g = Inl e \<longrightarrow> errors_is e ErrObjectNotFound \<longrightarrow> key \<notin> objects (snd w))"
    if "rj_GetFileSize (live_retention c bucket anon owned) key w = (g, w')" for g
    using that ok S3_GetFileSize_absent [OF ok, of key "snd w" g "snd w'"] by (simp add: on_s3_eq)
  show "s3_contract c bucket objects \<and> upload_keys (fst w') = upload_keys (fst w)
      \<and> (objects (snd w') = objects (snd w) \<and> r \<noteq> None \<or> objects (snd w') = objects (snd w) - {key})"
    if "rj_DeleteFile (live_retention c bucket anon owned) key w = (r, w')" for r
    using that ok S3_DeleteFile_removes [OF ok, of key "snd w" r "snd w'"] by (simp add: on_s3_eq)
  show "s3_contract c bucket objects \<and> objects (snd w') = objects (snd w)
      \<and> (upload_keys (fst w') = upload_keys (fst w) \<and> r \<noteq> None
         \<or> upload_keys (fst w') = upload_keys (fst w) - {key})"
    if "rj_Delete (live_retention c bucket anon owned) key w = (r, w')" for r
    using that ok UploadStore_Delete_effect [of key "fst w" r "fst w'"]
    by (auto simp: on_db_eq upload_keys_def)
  show "s3_contract c bucket objects \<and> upload_keys (fst w') = upload_keys (fst w)
      \<and> objects (snd w') = objects (snd w)"
    if "rj_MarkDeleteFailed (live_retention c bucket anon owned) key e w = (r, w')" for e r
    using that ok UploadStore_MarkDeleteFailed_effect [of key e "fst w" r "fst w'"]
    by (auto simp: on_db_eq upload_keys_def image_image)
  show "s3_contract c bucket objects \<and> upload_keys (fst w') = upload_keys (fst w)
      \<and> objects (snd w') = objects (snd w)"
    if "rj_Record (live_retention c bucket anon owned) action subject detail w = (r, w')"
    for action subject detail r
    using that ok DBAuditor_Record_effect [of action subject detail "fst w" r "fst w'"]
    by (simp add: on_db_eq upload_keys_def)
  show "s3_contract c bucket objects \<and> upload_keys (fst w') = upload_keys (fst w)
      \<and> objects (snd w') = objects (snd w)"
    if "rj_DeleteByStorageKey (live_retention c bucket anon owned) key w = (x, w')" for x
    using that ok ShareStore_DeleteByStorageKey_effect [of key "fst w" x "fst w'"]
    by (simp add: on_db_eq upload_keys_def)
qed


subsection \<open>Safety of the sweep\<close>

definition window_of :: "duration \<Rightarrow> duration \<Rightarrow> upload_row \<Rightarrow> duration" where
  "window_of anon owned u = (if u_owner_id u = None then anon else owned)"

lemma past_window_since:
  assumes "past_window (now + wrap64 (- anon)) (now + wrap64 (- owned)) u"
    and "0 \<le> anon" "anon < 2 ^ 63" "0 \<le> owned" "owned < 2 ^ 63"
  shows "u_created_at u + window_of anon owned u < now"
proof -
  have "wrap64 (- anon) = - anon" "wrap64 (- owned) = - owned"
    using assms(2-5) by (simp_all add: wrap64_id)
  with assms(1) pg_ts_bounds(1) [of "now - anon"] pg_ts_bounds(1) [of "now - owned"]
  show ?thesis by (auto simp: past_window_def window_of_def)
qed

text \<open>
  C8. The retention sweep destroys nothing it should not, whichever calls to the database or to S3
  fail or lose their replies and whatever S3 answers within its contract (a \<open>DELETE\<close> touches
  no other object and has removed its own when it reports success, a \<open>HEAD\<close> says that an
  object is missing only when it is), for windows that are not negative: an object
  disappears only when the upload row of its key is past the window of its owner, and a row
  is dropped only when, besides, no object is under its key when the sweep ends. So no file
  is lost early, and the sweep drops no row while its object is still there.
\<close>

theorem retention_sweep_safe:
  assumes "s3_contract c bucket objects"
    and "0 \<le> anon" "anon < 2 ^ 63" "0 \<le> owned" "owned < 2 ^ 63"
    and "Retention_Run (live_retention c bucket anon owned) now (d, s) = (r, (d', s'))"
  shows "objects s' \<subseteq> objects s \<and> upload_keys d' \<subseteq> upload_keys d
    \<and> (\<forall>key. key \<in> objects s - objects s' \<or> key \<in> upload_keys d - upload_keys d' \<longrightarrow>
         (\<exists>u \<in> set (uploads_t d). u_storage_key u = key \<and> u_created_at u + window_of anon owned u < now))
    \<and> (\<forall>key \<in> upload_keys d - upload_keys d'. key \<notin> objects s')"
proof -
  let ?D = "due_uploads (now + wrap64 (- anon)) (now + wrap64 (- owned)) d"
  have "live_sweep.swept_to c bucket objects ?D (d, s) (d', s')"
    using live_sweep.Run_safe [OF assms(1), where w = "(d, s)" and now = now and anon = anon and owned = owned] assms(6) by simp
  moreover have "\<exists>u \<in> set (uploads_t d). u_storage_key u = key \<and> u_created_at u + window_of anon owned u < now"
    if "key \<in> ?D" for key
    using that past_window_since [OF _ assms(2-5)] by (auto simp: due_uploads_def)
  ultimately show ?thesis
    unfolding live_sweep.swept_to_def by (auto simp: subset_iff)
qed

text \<open>A bucket as a map from keys to sizes, which answers every call.\<close>

definition bucket_client :: "(string \<rightharpoonup> int) s3_client" where
  "bucket_client =
     \<lparr>c_DeleteObject = \<lambda>_ key s. (None, s(key := None)),
      c_HeadObject = \<lambda>_ key s. (case s key of None \<Rightarrow> Inl (ApiError ''NotFound'') | Some n \<Rightarrow> Inr (Some n), s),
      c_PresignPutObject = \<lambda>_ _ s. (Inr ''put'', s), c_PresignGetObject = \<lambda>_ _ s. (Inr ''get'', s),
      c_PresignUploadPart = \<lambda>_ _ _ _ _ s. (Inr ''part'', s),
      c_CreateMultipartUpload = \<lambda>_ _ _ s. (Inr (Some ''u''), s),
      c_ListParts = \<lambda>_ _ _ _ s. (Inl (ApiError ''NoSuchUpload''), s),
      c_CompleteMultipartUpload = \<lambda>_ _ _ _ s. (None, s),
      c_AbortMultipartUpload = \<lambda>_ _ _ s. (None, s)\<rparr>"

lemma bucket_client_simps [simp]:
  "c_DeleteObject bucket_client b key s = (None, s(key := None))"
  "c_HeadObject bucket_client b key s = (case s key of None \<Rightarrow> Inl (ApiError ''NotFound'') | Some n \<Rightarrow> Inr (Some n), s)"
  by (simp_all add: bucket_client_def)

lemma bucket_client_contract: "s3_contract bucket_client bucket dom"
  by (auto simp: s3_contract_def split: option.splits)

definition old_upload :: upload_row where
  "old_upload = \<lparr>u_storage_key = ''k'', u_owner_id = None, u_file_name = ''f'', u_size_bytes = 5,
     u_created_at = 0, u_delete_attempts = 0, u_last_delete_error = None\<rparr>"

definition old_db :: db where
  "old_db = empty_db\<lparr>uploads_t := [old_upload]\<rparr>"

lemma old_upload_simps [simp]:
  "u_storage_key old_upload = ''k''" "u_owner_id old_upload = None" "u_created_at old_upload = 0"
  "u_delete_attempts old_upload = 0" "u_size_bytes old_upload = 5" "u_file_name old_upload = ''f''"
  by (simp_all add: old_upload_def)

theorem retention_sweep_safe_witness:
  "\<exists>d' s'. snd (Retention_Run (live_retention bucket_client ''b'' Hour Hour) (2 * Hour) (old_db, [''k'' \<mapsto> 5])) = (d', s')
     \<and> dom s' \<subseteq> {''k''} \<and> upload_keys d' \<subseteq> {''k''}"
proof -
  obtain r d' s' where run: "Retention_Run (live_retention bucket_client ''b'' Hour Hour) (2 * Hour)
      (old_db, [''k'' \<mapsto> 5]) = (r, (d', s'))" by (metis prod.collapse)
  have "0 \<le> Hour" "Hour < 2 ^ 63" by (simp_all add: Hour_eq)
  from retention_sweep_safe [OF bucket_client_contract this this run] run show ?thesis
    by (simp add: upload_keys_def old_db_def)
qed

subsection \<open>What a sweep in good health does\<close>

definition s3_healthy :: "'s s3_client \<Rightarrow> string \<Rightarrow> ('s \<Rightarrow> string \<rightharpoonup> int) \<Rightarrow> bool" where
  "s3_healthy c bucket objs \<longleftrightarrow>
     (\<forall>key s. \<exists>s'. objs s' = objs s \<and> c_HeadObject c bucket key s =
        (case objs s key of None \<Rightarrow> Inl (ApiError ''NotFound'') | Some n \<Rightarrow> Inr (Some n), s')) \<and>
     (\<forall>key s. \<exists>s'. objs s' = (objs s)(key := None) \<and> c_DeleteObject c bucket key s = (None, s'))"

text \<open>The outcome of one row, and the audit entries it leaves.\<close>

definition swept_outcome :: "(string \<rightharpoonup> int) \<Rightarrow> upload_row \<Rightarrow> swept" where
  "swept_outcome objs u =
     (if objs (u_storage_key u) \<noteq> None \<or> 0 < u_delete_attempts u then Deleted else Dropped)"

definition sweep_audit :: "(string \<rightharpoonup> int) \<Rightarrow> share_row list \<Rightarrow> upload_row \<Rightarrow> audit_row list" where
  "sweep_audit objs shares u =
     (let entry = (\<lambda>n slugs. \<lparr>a_action = ''purge_upload'', a_subject = u_storage_key u,
                     a_detail = purged_upload_of (scanUpload u) n slugs\<rparr>)
      in case objs (u_storage_key u) of
           Some n \<Rightarrow> [entry n (map r_slug (filter (\<lambda>r. r_storage_key r = u_storage_key u) shares))]
         | None \<Rightarrow> if 0 < u_delete_attempts u then [entry (u_size_bytes u) []] else [])"

definition swept_db :: "(string \<rightharpoonup> int) \<Rightarrow> upload_row list \<Rightarrow> db \<Rightarrow> db" where
  "swept_db objs rows d =
     d\<lparr>uploads_t := filter (\<lambda>u. u_storage_key u \<notin> u_storage_key ` set rows) (uploads_t d),
       shares_t := filter (\<lambda>r. \<not> (r_storage_key r \<in> u_storage_key ` set rows
                                  \<and> objs (r_storage_key r) \<noteq> None)) (shares_t d),
       audit_t := audit_t d @ concat (map (sweep_audit objs (shares_t d)) rows)\<rparr>"

lemma healthy_head:
  assumes "s3_healthy c bucket objs"
  obtains s' where "objs s' = objs s" "S3_GetFileSize c bucket key s =
    (case objs s key of None \<Rightarrow> Inl ErrObjectNotFound | Some n \<Rightarrow> Inr n, s')"
proof -
  from assms obtain s' where "objs s' = objs s" "c_HeadObject c bucket key s =
        (case objs s key of None \<Rightarrow> Inl (ApiError ''NotFound'') | Some n \<Rightarrow> Inr (Some n), s')"
    unfolding s3_healthy_def by blast
  then show thesis
    by (intro that [of s']) (simp_all add: S3_GetFileSize_def wrapNotFound_def split: option.splits)
qed

lemma healthy_remove:
  assumes "s3_healthy c bucket objs"
  obtains s' where "objs s' = (objs s)(key := None)" "S3_DeleteFile c bucket key s = (None, s')"
proof -
  from assms obtain s' where "objs s' = (objs s)(key := None)" "c_DeleteObject c bucket key s = (None, s')"
    unfolding s3_healthy_def by blast
  then show thesis by (intro that [of s']) (simp_all add: S3_DeleteFile_def)
qed

lemma fair_worker_calls:
  assumes "weather d = []"
  shows "UploadStore_Delete key d =
      (None, d\<lparr>uploads_t := filter (\<lambda>u. u_storage_key u \<noteq> key) (uploads_t d)\<rparr>)"
    and "DBAuditor_Record action subject detail d =
      (None, d\<lparr>audit_t := audit_t d @ [\<lparr>a_action = action, a_subject = subject, a_detail = detail\<rparr>]\<rparr>)"
    and "ShareStore_DeleteByStorageKey key d =
      ((map r_slug (filter (\<lambda>r. r_storage_key r = key) (shares_t d)), None),
       d\<lparr>shares_t := filter (\<lambda>r. r_storage_key r \<noteq> key) (shares_t d)\<rparr>)"
  using assms by (simp_all add: UploadStore_Delete_def sql_delete_upload_def DBAuditor_Record_def
      sql_insert_audit_def ShareStore_DeleteByStorageKey_def sql_delete_shares_def)

lemma sweep_one_healthy:
  assumes "s3_healthy c bucket objs" "weather d = []"
  shows "\<exists>s'. objs s' = (objs s)(u_storage_key u := None)
    \<and> sweep_one (live_retention c bucket anon owned) (scanUpload u) (d, s)
      = (swept_outcome (objs s) u, (swept_db (objs s) [u] d, s'))"
proof -
  have key: "up_StorageKey (scanUpload u) = u_storage_key u"
    "up_DeleteAttempts (scanUpload u) = u_delete_attempts u"
    "up_SizeBytes (scanUpload u) = u_size_bytes u"
    by (simp_all add: scanUpload_def)
  obtain s1 where head: "objs s1 = objs s" "S3_GetFileSize c bucket (u_storage_key u) s =
    (case objs s (u_storage_key u) of None \<Rightarrow> Inl ErrObjectNotFound | Some n \<Rightarrow> Inr n, s1)"
    by (rule healthy_head [OF assms(1)])
  show ?thesis
  proof (cases "objs s (u_storage_key u)")
    case None
    with head have "objs s1 = (objs s)(u_storage_key u := None)" by auto
    moreover have "filter (\<lambda>r. \<not> (r_storage_key r = u_storage_key u \<and> (\<exists>y. objs s (r_storage_key r) = Some y))) (shares_t d) = shares_t d"
      using None by (simp add: filter_id_conv)
    ultimately show ?thesis using head None assms(2)
      by (intro exI [of _ s1]) (simp add: sweep_one_def sweep_absent_def key on_s3_def on_db_def
          fair_worker_calls swept_outcome_def swept_db_def sweep_audit_def)
  next
    case (Some n)
    obtain s2 where del: "objs s2 = (objs s1)(u_storage_key u := None)"
      "S3_DeleteFile c bucket (u_storage_key u) s1 = (None, s2)"
      by (rule healthy_remove [OF assms(1)])
    have "filter (\<lambda>r. \<not> (r_storage_key r = u_storage_key u \<and> (\<exists>y. objs s (r_storage_key r) = Some y))) (shares_t d)
        = filter (\<lambda>r. r_storage_key r \<noteq> u_storage_key u) (shares_t d)"
      using Some by (intro filter_cong) auto
    with head del Some assms(2) show ?thesis
      by (intro exI [of _ s2]) (simp add: sweep_one_def sweep_present_def key on_s3_def on_db_def
          fair_worker_calls swept_outcome_def swept_db_def sweep_audit_def)
  qed
qed

lemma swept_db_simps [simp]:
  "weather (swept_db objs rows d) = weather d"
  "uploads_t (swept_db objs rows d) = filter (\<lambda>u. u_storage_key u \<notin> u_storage_key ` set rows) (uploads_t d)"
  by (simp_all add: swept_db_def)

text \<open>Other rows neither depend on what happened to this one nor are touched by it.\<close>

lemma swept_db_Cons:
  assumes "u_storage_key u \<notin> u_storage_key ` set us"
  shows "swept_db (objs(u_storage_key u := None)) us (swept_db objs [u] d) = swept_db objs (u # us) d"
proof -
  have shares: "filter (\<lambda>r. \<not> (r_storage_key r \<in> u_storage_key ` set us
        \<and> (objs(u_storage_key u := None)) (r_storage_key r) \<noteq> None)) (shares_t (swept_db objs [u] d))
      = shares_t (swept_db objs (u # us) d)"
    using assms by (auto simp: swept_db_def intro!: filter_cong)
  have "sweep_audit (objs(u_storage_key u := None)) (shares_t (swept_db objs [u] d)) v
      = sweep_audit objs (shares_t d) v" if "v \<in> set us" for v
  proof -
    from assms that have "u_storage_key v \<noteq> u_storage_key u" by (metis imageI)
    then have "filter (\<lambda>r. r_storage_key r = u_storage_key v) (shares_t (swept_db objs [u] d))
        = filter (\<lambda>r. r_storage_key r = u_storage_key v) (shares_t d)"
      by (auto simp: swept_db_def intro!: filter_cong)
    with \<open>u_storage_key v \<noteq> u_storage_key u\<close> show ?thesis by (simp add: sweep_audit_def split: option.splits)
  qed
  then have audits: "map (sweep_audit (objs(u_storage_key u := None)) (shares_t (swept_db objs [u] d))) us
      = map (sweep_audit objs (shares_t d)) us" by simp
  show ?thesis
    unfolding swept_db_def [of "objs(u_storage_key u := None)"] shares audits
    by (simp add: swept_db_def conj_commute)
qed

lemma swept_outcome_other:
  "u_storage_key v \<noteq> k \<Longrightarrow> swept_outcome (objs(k := None)) v = swept_outcome objs v"
  by (simp add: swept_outcome_def)

lemma sweep_healthy:
  assumes "s3_healthy c bucket objs"
  shows "weather d = [] \<Longrightarrow> distinct (map u_storage_key rows) \<Longrightarrow>
    \<exists>s'. objs s' = objs s |` (- u_storage_key ` set rows)
      \<and> sweep (live_retention c bucket anon owned) (map scanUpload rows) (d, s)
        = (map (swept_outcome (objs s)) rows, (swept_db (objs s) rows d, s'))"
proof (induction rows arbitrary: d s)
  case Nil
  then show ?case by (intro exI [of _ s]) (simp add: swept_db_def)
next
  case (Cons u us)
  let ?key = "u_storage_key u"
  from Cons.prems have fresh: "?key \<notin> u_storage_key ` set us" and "distinct (map u_storage_key us)"
    by simp_all
  from sweep_one_healthy [OF assms Cons.prems(1)] obtain s1 where
    s1: "objs s1 = (objs s)(?key := None)" and
    one: "sweep_one (live_retention c bucket anon owned) (scanUpload u) (d, s)
      = (swept_outcome (objs s) u, (swept_db (objs s) [u] d, s1))" by blast
  from Cons.IH [of "swept_db (objs s) [u] d" s1] Cons.prems obtain s2 where
    s2: "objs s2 = objs s1 |` (- u_storage_key ` set us)" and
    rest: "sweep (live_retention c bucket anon owned) (map scanUpload us) (swept_db (objs s) [u] d, s1)
      = (map (swept_outcome (objs s1)) us, (swept_db (objs s1) us (swept_db (objs s) [u] d), s2))"
    by auto
  have "u_storage_key v \<noteq> ?key" if "v \<in> set us" for v using fresh that by (metis imageI)
  then have "map (swept_outcome (objs s1)) us = map (swept_outcome (objs s)) us"
    by (simp add: s1 swept_outcome_other)
  moreover have "objs s2 = objs s |` (- u_storage_key ` set (u # us))"
    by (auto simp: s2 s1 restrict_map_def fun_eq_iff)
  ultimately show ?case
    using one rest swept_db_Cons [OF fresh, of "objs s" d] s1 by (intro exI [of _ s2]) simp
qed

text \<open>One batch: the 200 oldest rows that are due, whatever else is due.\<close>

definition batch :: "(upload_row \<Rightarrow> bool) \<Rightarrow> db \<Rightarrow> upload_row list" where
  "batch due d = take 200 (sort_key u_created_at (filter due (uploads_t d)))"

lemma batch_rows:
  assumes "db_ok d"
  shows "distinct (map u_storage_key (batch due d))" "set (batch due d) \<subseteq> {u \<in> set (uploads_t d). due u}"
proof -
  from assms have "distinct (map u_storage_key (uploads_t d))" by (simp add: db_ok_def)
  then have "distinct (map u_storage_key (sort_key u_created_at (filter due (uploads_t d))))"
    by (auto simp: distinct_map inj_on_def intro: distinct_filter)
  then show "distinct (map u_storage_key (batch due d))"
    by (simp add: batch_def distinct_take flip: take_map)
  show "set (batch due d) \<subseteq> {u \<in> set (uploads_t d). due u}"
    by (auto simp: batch_def dest: in_set_takeD)
qed

lemma sweep_batch:
  fixes due :: "upload_row \<Rightarrow> bool"
  assumes "s3_healthy c bucket objs" "weather d = []" "db_ok d"
    and "due = past_window (now + wrap64 (- anon)) (now + wrap64 (- owned))"
  shows "\<exists>s'. objs s' = objs s |` (- u_storage_key ` set (batch due d))
    \<and> Retention_Run (live_retention c bucket anon owned) now (d, s)
      = ((None, map (swept_outcome (objs s)) (batch due d)), (swept_db (objs s) (batch due d) d, s'))"
proof -
  from sweep_healthy [OF assms(1,2) batch_rows(1) [OF assms(3), of due], of s anon owned] obtain s' where
    s': "objs s' = objs s |` (- u_storage_key ` set (batch due d))" and
    run: "sweep (live_retention c bucket anon owned) (map scanUpload (batch due d)) (d, s)
      = (map (swept_outcome (objs s)) (batch due d), (swept_db (objs s) (batch due d) d, s'))"
    by auto
  have list: "UploadStore_ListExpired (now + wrap64 (- anon)) (now + wrap64 (- owned)) sweepBatchSize d
      = ((map scanUpload (batch due d), None), d)"
    using assms(2)
    by (simp add: UploadStore_ListExpired_def sql_select_expired_uploads_def sweepBatchSize_def batch_def assms(4))
  with run s' show ?thesis by (auto simp: Retention_Run_def on_db_def)
qed

text \<open>
  C14. A sweep in good health does the whole job: with the database (unique keys) and S3 answering
  and no more than 200 rows due, it reports success and no failed row; the rows past their
  window are gone and all others kept; the objects of the removed rows are gone, with the
  shares of those objects, and all others kept, also the shares of a removed row that had no
  object; and the audit trail gains, oldest upload first, one entry per removed object with
  the size S3 held and the slugs of its shares, and one, with the size of the row, per
  removed row that had no object but a positive \<open>delete_attempts\<close>.
\<close>

theorem retention_sweep_exact:
  fixes now anon owned :: int
  defines "due \<equiv> past_window (now + wrap64 (- anon)) (now + wrap64 (- owned))"
  assumes "s3_healthy c bucket objs" "weather d = []" "db_ok d"
    and "length (filter due (uploads_t d)) \<le> 200"
  shows "\<exists>outs s' keys. keys = u_storage_key ` {u \<in> set (uploads_t d). due u}
    \<and> Retention_Run (live_retention c bucket anon owned) now (d, s) = ((None, outs),
        (d\<lparr>uploads_t := filter (\<lambda>u. \<not> due u) (uploads_t d),
           shares_t := filter (\<lambda>r. \<not> (r_storage_key r \<in> keys \<and> objs s (r_storage_key r) \<noteq> None)) (shares_t d),
           audit_t := audit_t d @ concat (map (sweep_audit (objs s) (shares_t d))
             (sort_key u_created_at (filter due (uploads_t d))))\<rparr>, s'))
    \<and> objs s' = objs s |` (- keys) \<and> Failed \<notin> set outs"
proof -
  let ?rows = "sort_key u_created_at (filter due (uploads_t d))"
  let ?keys = "u_storage_key ` {u \<in> set (uploads_t d). due u}"
  from assms(4) have dist: "distinct (map u_storage_key (uploads_t d))" by (simp add: db_ok_def)
  have all: "batch due d = ?rows" using assms(5) by (simp add: batch_def)
  from sweep_batch [OF assms(2-4) meta_eq_to_obj_eq [OF due_def], of s] obtain s' where
    s': "objs s' = objs s |` (- ?keys)" and
    run: "Retention_Run (live_retention c bucket anon owned) now (d, s)
      = ((None, map (swept_outcome (objs s)) ?rows), (swept_db (objs s) ?rows d, s'))"
    unfolding all by auto
  have "filter (\<lambda>u. u_storage_key u \<notin> ?keys) (uploads_t d) = filter (\<lambda>u. \<not> due u) (uploads_t d)"
    using dist by (intro filter_cong) (auto simp: distinct_map inj_on_def)
  then have "swept_db (objs s) ?rows d = d\<lparr>uploads_t := filter (\<lambda>u. \<not> due u) (uploads_t d),
      shares_t := filter (\<lambda>r. \<not> (r_storage_key r \<in> ?keys \<and> objs s (r_storage_key r) \<noteq> None)) (shares_t d),
      audit_t := audit_t d @ concat (map (sweep_audit (objs s) (shares_t d)) ?rows)\<rparr>"
    by (simp add: swept_db_def)
  with run s' show ?thesis
    by (intro exI [of _ "map (swept_outcome (objs s)) ?rows"] exI [of _ s'] exI [of _ ?keys])
      (auto simp: swept_outcome_def)
qed

lemma bucket_client_healthy: "s3_healthy bucket_client bucket (\<lambda>s. s)"
  by (simp add: s3_healthy_def)

theorem retention_sweep_exact_witness:
  "\<exists>outs s' keys. keys = {''k''}
    \<and> Retention_Run (live_retention bucket_client ''b'' Hour Hour) (2 * Hour) (old_db, [''k'' \<mapsto> 5]) = ((None, outs),
        (old_db\<lparr>uploads_t := [], shares_t := [],
           audit_t := sweep_audit [''k'' \<mapsto> 5] [] old_upload\<rparr>, s'))
    \<and> s' = [''k'' \<mapsto> 5] |` (- {''k''}) \<and> Failed \<notin> set outs"
proof -
  have due: "past_window (2 * Hour + wrap64 (- Hour)) (2 * Hour + wrap64 (- Hour)) old_upload"
    by (simp add: past_window_def pg_ts_def Hour_eq wrap64_def)
  have db: "weather old_db = []" "db_ok old_db" "uploads_t old_db = [old_upload]"
    "shares_t old_db = []" "audit_t old_db = []"
    by (simp_all add: old_db_def db_ok_def)
  have keys: "{u. u = old_upload \<and> past_window (2 * Hour + wrap64 (- Hour)) (2 * Hour + wrap64 (- Hour)) u} = {old_upload}"
    using due by auto
  show ?thesis
    using retention_sweep_exact [OF bucket_client_healthy db(1,2), where bucket = "''b''"
        and now = "2 * Hour" and anon = Hour and owned = Hour and s = "[''k'' \<mapsto> 5]"]
    by (simp add: db due keys)
qed

subsection \<open>An entry for a purge that never happened\<close>

lemma fair_MarkDeleteFailed:
  "weather d = [] \<Longrightarrow> UploadStore_MarkDeleteFailed key e d
     = (None, d\<lparr>uploads_t := map (bump key e) (uploads_t d)\<rparr>)"
  by (simp add: UploadStore_MarkDeleteFailed_def sql_mark_failed_def bump_def [abs_def])

lemma fair_ListExpired_one:
  "weather d = [] \<Longrightarrow> uploads_t d = [u] \<Longrightarrow> past_window a b u \<Longrightarrow>
   UploadStore_ListExpired a b sweepBatchSize d = (([scanUpload u], None), d)"
  by (simp add: UploadStore_ListExpired_def sql_select_expired_uploads_def sweepBatchSize_def)

text \<open>
  The audit trail can claim a purge that never happened: an upload that was announced and
  never made has no object; when the sweep's first \<open>HEAD\<close> for it fails (a timeout, say) the
  row is marked as tried, and the next sweep, told that there is no object, takes the mark
  for a deletion of its own and records \<open>purge_upload\<close> with the announced size. No object
  was ever deleted or even existed.
\<close>

theorem abandoned_upload_audited:
  fixes c :: "'s s3_client" and bucket :: string and now1 now2 anon owned :: int
  defines "job \<equiv> live_retention c bucket anon owned"
  assumes "weather d = []" "uploads_t d = [u]" "u_delete_attempts u = 0"
    and "past_window (now1 + wrap64 (- anon)) (now1 + wrap64 (- owned)) u"
    and "past_window (now2 + wrap64 (- anon)) (now2 + wrap64 (- owned)) u"
    and "c_HeadObject c bucket (u_storage_key u) s = (Inl (Fault m), s1)"
    and "c_HeadObject c bucket (u_storage_key u) s1 = (Inl (ApiError ''NotFound''), s2)"
  shows "snd (Retention_Run job now2 (snd (Retention_Run job now1 (d, s)))) =
    (d\<lparr>uploads_t := [],
       audit_t := audit_t d @ [\<lparr>a_action = ''purge_upload'', a_subject = u_storage_key u,
         a_detail = purged_upload_of (scanUpload u) (u_size_bytes u) []\<rparr>]\<rparr>, s2)"
proof -
  define e where "e = Wrapped (Sprintf ''sizing %q: %w'' [u_storage_key u]) (Fault m)"
  let ?u1 = "bump (u_storage_key u) e u"
  let ?d1 = "d\<lparr>uploads_t := [?u1]\<rparr>"
  have scan: "up_StorageKey (scanUpload v) = u_storage_key v" "up_DeleteAttempts (scanUpload v) = u_delete_attempts v"
    "up_SizeBytes (scanUpload v) = u_size_bytes v" for v
    by (simp_all add: scanUpload_def)
  have u1: "u_delete_attempts ?u1 = 1" "u_size_bytes ?u1 = u_size_bytes u"
    "purged_upload_of (scanUpload ?u1) n l = purged_upload_of (scanUpload u) n l" for n l
    using assms(4) by (simp_all add: bump_def purged_upload_of_def scanUpload_def)
  have "S3_GetFileSize c bucket (u_storage_key u) s = (Inl e, s1)"
    using assms(7) by (simp add: S3_GetFileSize_def wrapNotFound_def e_def)
  then have "sweep_one job (scanUpload u) (d, s) = (Failed, (?d1, s1))"
    using assms(2,3) by (simp add: sweep_one_def job_def on_s3_def on_db_def scan fair_MarkDeleteFailed e_def)
  then have first: "snd (Retention_Run job now1 (d, s)) = (?d1, s1)"
    using fair_ListExpired_one [OF assms(2,3,5)] by (simp add: Retention_Run_def job_def on_db_def)
  have "S3_GetFileSize c bucket (u_storage_key u) s1 = (Inl ErrObjectNotFound, s2)"
    using assms(8) by (simp add: S3_GetFileSize_def wrapNotFound_def)
  then have "sweep_one job (scanUpload ?u1) (?d1, s1) = (Deleted, (d\<lparr>uploads_t := [],
      audit_t := audit_t d @ [\<lparr>a_action = ''purge_upload'', a_subject = u_storage_key u,
         a_detail = purged_upload_of (scanUpload u) (u_size_bytes u) []\<rparr>]\<rparr>, s2))"
    using assms(2) by (simp add: sweep_one_def sweep_absent_def job_def on_s3_def on_db_def scan u1 fair_worker_calls)
  moreover have "past_window (now2 + wrap64 (- anon)) (now2 + wrap64 (- owned)) ?u1"
    using assms(6) by (simp add: past_window_def)
  ultimately show ?thesis
    using fair_ListExpired_one [of ?d1 ?u1] assms(2) unfolding first
    by (simp add: Retention_Run_def job_def on_db_def)
qed

text \<open>An empty bucket that times out on the first request.\<close>

definition flaky_client :: "nat s3_client" where
  "flaky_client =
     \<lparr>c_DeleteObject = \<lambda>_ _ s. (None, s),
      c_HeadObject = \<lambda>_ _ s. (Inl (if s = 0 then Fault ''timeout'' else ApiError ''NotFound''), Suc s),
      c_PresignPutObject = \<lambda>_ _ s. (Inr ''put'', s), c_PresignGetObject = \<lambda>_ _ s. (Inr ''get'', s),
      c_PresignUploadPart = \<lambda>_ _ _ _ _ s. (Inr ''part'', s),
      c_CreateMultipartUpload = \<lambda>_ _ _ s. (Inr (Some ''u''), s),
      c_ListParts = \<lambda>_ _ _ _ s. (Inl (ApiError ''NoSuchUpload''), s),
      c_CompleteMultipartUpload = \<lambda>_ _ _ _ s. (None, s),
      c_AbortMultipartUpload = \<lambda>_ _ _ s. (None, s)\<rparr>"

theorem abandoned_upload_audited_witness:
  "audit_t (fst (snd (Retention_Run (live_retention flaky_client ''b'' Hour Hour) (3 * Hour)
     (snd (Retention_Run (live_retention flaky_client ''b'' Hour Hour) (2 * Hour) (old_db, 0))))))
   = [\<lparr>a_action = ''purge_upload'', a_subject = ''k'',
       a_detail = purged_upload_of (scanUpload old_upload) 5 []\<rparr>]"
proof -
  have db: "weather old_db = []" "uploads_t old_db = [old_upload]" "audit_t old_db = []"
    by (simp_all add: old_db_def)
  have due: "past_window (2 * Hour + wrap64 (- Hour)) (2 * Hour + wrap64 (- Hour)) old_upload"
    "past_window (3 * Hour + wrap64 (- Hour)) (3 * Hour + wrap64 (- Hour)) old_upload"
    by (simp_all add: past_window_def pg_ts_def Hour_eq wrap64_def)
  have "snd (Retention_Run (live_retention flaky_client ''b'' Hour Hour) (3 * Hour)
     (snd (Retention_Run (live_retention flaky_client ''b'' Hour Hour) (2 * Hour) (old_db, 0)))) =
    (old_db\<lparr>uploads_t := [],
       audit_t := audit_t old_db @ [\<lparr>a_action = ''purge_upload'', a_subject = u_storage_key old_upload,
         a_detail = purged_upload_of (scanUpload old_upload) (u_size_bytes old_upload) []\<rparr>]\<rparr>, Suc (Suc 0))"
    by (rule abandoned_upload_audited [OF db(1,2) _ due, where ?s1.0 = "Suc 0" and m = "''timeout''"])
      (simp_all add: flaky_client_def)
  then show ?thesis by (simp add: db)
qed

end
