(* ===== verification/Lifetimes.thy ===== *)
theory Lifetimes
  imports ShareAccess Retention
begin

section \<open>Shares, files and the jobs that end them\<close>

text \<open>
  How the share handlers and the two periodic jobs fit together: a share is never promised
  for longer than its file is kept, and the purge removes expired shares only.
\<close>

subsection \<open>No share outlives its file\<close>

text \<open>\<open>calm u d\<close>: the database answers, and \<open>u\<close> is the upload row of its key.\<close>

definition calm :: "upload_row \<Rightarrow> db \<Rightarrow> bool" where
  "calm u d \<longleftrightarrow> weather d = [] \<and> filter (\<lambda>r. u_storage_key r = u_storage_key u) (uploads_t d) = [u]"

lemma calmI:
  assumes "weather d = []" "db_ok d" "u \<in> set (uploads_t d)"
  shows "calm u d"
proof -
  from assms(3) obtain xs ys where "uploads_t d = xs @ u # ys" by (auto dest: split_list)
  moreover from this assms(2) have "u_storage_key u \<notin> u_storage_key ` set (xs @ ys)"
    by (simp add: db_ok_def image_Un)
  moreover have none: "filter (\<lambda>r. u_storage_key r = u_storage_key u) l = []"
    if "u_storage_key u \<notin> u_storage_key ` set l" for l
    using that by (simp add: filter_empty_conv) (metis imageI)
  ultimately show ?thesis
    using assms(1) none [of xs] none [of ys] by (simp add: calm_def image_Un)
qed

lemma fair_GetByStorageKey:
  "weather d = [] \<Longrightarrow> snd (ShareStore_GetByStorageKey key d) = d"
  by (simp add: ShareStore_GetByStorageKey_def get_share_def sql_select_shares_def split: list.splits)

lemma fair_Create_calm:
  assumes "calm u d" "ShareStore_Create sh d = (r, d')"
  shows "calm u d'"
  using assms by (auto simp: calm_def ShareStore_Create_def sql_insert_share_def
      split: prod.splits sum.splits if_splits)

lemma live_files_frame:
  "os_GetFileSize (s3_files c bucket) key w = (g, w') \<Longrightarrow> fst w' = fst w"
  by (simp add: s3_files_def on_s3_eq)

definition deadline_of :: "'w share_handler \<Rightarrow> upload_row \<Rightarrow> time" where
  "deadline_of h u = u_created_at u + window_of (h_anonTTL h) (h_ownedTTL h) u"

lemma capToRetention_caps:
  assumes "wired c bucket h" "calm u (fst w)" "u_owner_id u \<noteq> Some []"
    and "0 < window_of (h_anonTTL h) (h_ownedTTL h) u"
    and "capToRetention h (u_storage_key u) s w = (s', w')"
  shows "fst w' = fst w \<and> sh_ExpiresAt s' \<le> deadline_of h u \<and> sh_StorageKey s' = sh_StorageKey s"
proof -
  have "db_upload_lookup (u_storage_key u) w = (Inr (scanUpload u), w)"
    using assms(2) by (cases w) (simp add: db_upload_lookup_def on_db_def UploadStore_GetByStorageKey_def calm_def)
  moreover have "up_OwnerID (scanUpload u) \<noteq> [] \<longleftrightarrow> u_owner_id u \<noteq> None"
    "up_CreatedAt (scanUpload u) = u_created_at u"
    using assms(3) by (auto simp: scanUpload_def from_null_def split: option.splits)
  ultimately show ?thesis
    using assms(1,4,5)
    by (auto simp: capToRetention_def wired_def deadline_of_def window_of_def Let_def split: if_splits)
qed

text \<open>The path of a successful rotation, and of a successful creation.\<close>

lemma rotateShare_Success:
  assumes "rotateShare h c s req now es w = Some (Success resp, es', w')"
  obtains n w1 s1 code s2 w2 where
    "os_GetFileSize (h_files h) (sh_StorageKey s) w = (Inr n, w1)"
    "Rotate (s\<lparr>sh_RecipientEmail := cq_RecipientEmail req\<rparr>) (ttl_of req) now es = Some (Inr (s1, code), es')"
    "capToRetention h (sh_StorageKey s1) s1 w1 = (s2, w2)"
    "ss_RotateCode (h_store h) s2 w2 = (None, w')" "resp = create_reply s2 code True"
proof -
  let ?s = "s\<lparr>sh_RecipientEmail := cq_RecipientEmail req\<rparr>"
  obtain g w1 where size: "os_GetFileSize (h_files h) (sh_StorageKey s) w = (g, w1)" by (rule prod.exhaust)
  with assms obtain n where n: "g = Inr n"
    by (cases g) (simp_all add: rotateShare_def Let_def split: if_splits)
  from assms obtain z es1 where rot: "Rotate ?s (ttl_of req) now es = Some (z, es1)"
    by (cases "Rotate ?s (ttl_of req) now es") (auto simp: rotateShare_def Let_def size n split: if_splits)
  with assms obtain s1 code where z: "z = Inr (s1, code)"
    by (cases z) (auto simp: rotateShare_def Let_def size n split: if_splits)
  obtain s2 w2 where cap: "capToRetention h (sh_StorageKey s1) s1 w1 = (s2, w2)" by (rule prod.exhaust)
  obtain x w3 where up: "ss_RotateCode (h_store h) s2 w2 = (x, w3)" by (rule prod.exhaust)
  from assms have "x = None \<and> es' = es1 \<and> w' = w3 \<and> resp = create_reply s2 code True"
    by (cases x) (simp_all add: rotateShare_def Let_def size n rot z cap up split: if_splits)
  with that [OF size [unfolded n] _ cap] rot z up show thesis by simp
qed

lemma create_new_Success:
  assumes "create_new h c req now now' es w = Some (Success resp, es', w')"
  obtains n w1 s s1 code es1 w2 where
    "os_GetFileSize (h_files h) (cq_StorageKey req) w = (Inr n, w1)"
    "capToRetention h (cq_StorageKey req) s w1 = (s1, w2)"
    "store_new h c req s1 code now' es1 w2 = Some (Success resp, es', w')"
proof -
  obtain g w1 where size: "os_GetFileSize (h_files h) (cq_StorageKey req) w = (g, w1)" by (rule prod.exhaust)
  with assms obtain n where n: "g = Inr n"
    by (cases g) (simp_all add: create_new_def split: if_splits)
  note run = assms [unfolded create_new_def size n Let_def, simplified]
  from run obtain s code es1 where "(case capToRetention h (cq_StorageKey req) s w1 of
      (s1, w2) \<Rightarrow> store_new h c req s1 code now' es1 w2) = Some (Success resp, es', w')"
    by (auto split: option.splits prod.splits sum.splits)
  with that size n show thesis by (cases "capToRetention h (cq_StorageKey req) s w1") simp
qed

lemma rotateShare_capped:
  assumes "wired c bucket h" "calm u (fst w)" "u_owner_id u \<noteq> Some []"
    and "0 < window_of (h_anonTTL h) (h_ownedTTL h) u" "sh_StorageKey s = u_storage_key u"
    and "rotateShare h ctx s req now es w = Some (Success resp, es', w')"
  shows "cr_ExpiresAt resp \<le> deadline_of h u"
proof -
  let ?s = "s\<lparr>sh_RecipientEmail := cq_RecipientEmail req\<rparr>"
  from assms(1,5) have files: "h_files h = s3_files c bucket" by (simp add: wired_def)
  show ?thesis
  proof (rule rotateShare_Success [OF assms(6)])
    fix n w1 s1 code s2 w2
    assume size: "os_GetFileSize (h_files h) (sh_StorageKey s) w = (Inr n, w1)"
      and rot: "Rotate ?s (ttl_of req) now es = Some (Inr (s1, code), es')"
      and cap: "capToRetention h (sh_StorageKey s1) s1 w1 = (s2, w2)"
      and resp: "resp = create_reply s2 code True"
    obtain salt where "sh_StorageKey s1 = sh_StorageKey s"
      by (rule Rotate_Inr [OF rot]) simp
    with cap live_files_frame [OF size [unfolded files]] assms(2,5)
      capToRetention_caps [OF assms(1) _ assms(3,4), of w1 s1 s2 w2]
    show ?thesis by (simp add: resp create_reply_def)
  qed
qed

lemma store_new_capped:
  assumes "wired c bucket h" "calm u (fst w)" "u_owner_id u \<noteq> Some []" "db_ok (fst w)"
    and "0 < window_of (h_anonTTL h) (h_ownedTTL h) u" "cq_StorageKey req = u_storage_key u"
    and "sh_ExpiresAt s \<le> deadline_of h u"
    and "store_new h ctx req s code now es w = Some (Success resp, es', w')"
  shows "cr_ExpiresAt resp \<le> deadline_of h u"
proof -
  obtain r w1 where create: "ss_Create db_share_store s w = (r, w1)" by (rule prod.exhaust)
  note calm1 = fair_Create_calm [OF assms(2) db_share_storeD(1) [OF create]]
  from ShareStore_Create_effect [OF assms(4) db_share_storeD(1) [OF create]] have ok1: "db_ok (fst w1)"
    by blast
  show ?thesis
  proof (cases r)
    case None
    with assms(1,7,8) create show ?thesis by (auto simp: store_new_def wired_def create_reply_def)
  next
    case (Some e)
    with assms(1,8) create obtain racer w2 where
      get: "ss_GetByStorageKey db_share_store (cq_StorageKey req) w1 = (Inr racer, w2)" and
      rot: "rotateShare h ctx racer req now es w2 = Some (Success resp, es', w')"
      by (auto simp: store_new_def wired_def split: prod.splits sum.splits)
    from ShareStore_GetByStorageKey_effect [OF ok1 db_share_storeD(3) [OF get]]
      fair_GetByStorageKey [of "fst w1" "cq_StorageKey req"] db_share_storeD(3) [OF get] calm1 assms(6)
    have "sh_StorageKey racer = u_storage_key u" "fst w2 = fst w1" by (simp_all add: calm_def)
    with rotateShare_capped [OF assms(1) _ assms(3,5) _ rot] calm1 show ?thesis by simp
  qed
qed

lemma CreateShare_capped:
  assumes "wired c bucket h" "calm u (fst w)" "u_owner_id u \<noteq> Some []" "db_ok (fst w)"
    and "0 < window_of (h_anonTTL h) (h_ownedTTL h) u" "cq_StorageKey req = u_storage_key u"
    and "CreateShare h ctx (Some req) now now' es w = Some (Success resp, es', w')"
  shows "cr_ExpiresAt resp \<le> deadline_of h u"
proof -
  obtain g w1 where get: "ss_GetByStorageKey db_share_store (u_storage_key u) w = (g, w1)"
    by (rule prod.exhaust)
  from ShareStore_GetByStorageKey_effect [OF assms(4) db_share_storeD(3) [OF get]]
  have key: "g = Inr s \<Longrightarrow> sh_StorageKey s = u_storage_key u" for s by auto
  have w1: "fst w1 = fst w"
    using fair_GetByStorageKey [of "fst w" "u_storage_key u"] db_share_storeD(3) [OF get] assms(2)
    by (simp add: calm_def)
  show ?thesis
  proof (cases g)
    case (Inr s)
    with assms(1,6,7) get have "rotateShare h ctx s req now es w1 = Some (Success resp, es', w')"
      by (auto simp: CreateShare_def ShouldBindJSON_def wired_def split: if_splits)
    from rotateShare_capped [OF assms(1) _ assms(3,5) key [OF Inr] this] w1 assms(2) show ?thesis by simp
  next
    case (Inl e)
    with assms(1,6,7) get have "create_new h ctx req now now' es w1 = Some (Success resp, es', w')"
      by (auto simp: CreateShare_def ShouldBindJSON_def wired_def split: if_splits)
    then show ?thesis
    proof (rule create_new_Success)
      fix n w2 s s1 code es1 w3
      assume size: "os_GetFileSize (h_files h) (cq_StorageKey req) w1 = (Inr n, w2)"
        and cap: "capToRetention h (cq_StorageKey req) s w2 = (s1, w3)"
        and store: "store_new h ctx req s1 code now' es1 w3 = Some (Success resp, es', w')"
      from assms(1) size have "fst w2 = fst w1" by (simp add: wired_def live_files_frame)
      with capToRetention_caps [OF assms(1) _ assms(3,5) cap [unfolded assms(6)]] w1 assms(2)
      have "fst w3 = fst w" "sh_ExpiresAt s1 \<le> deadline_of h u" by simp_all
      with store_new_capped [OF assms(1) _ assms(3) _ assms(5,6) _ store] assms(2,4)
      show ?thesis by simp
    qed
  qed
qed

text \<open>
  C13. A share never promises more than its file's life: for positive retention windows (below 292
  years), when the file has an upload row, whose owner if any has a non-empty id, and the
  database answers, the expiry a successful creation or rotation reports is at most the
  upload's time plus its owner's retention window. So whenever the retention sweep of the
  same configuration may delete the file, the reported expiry has already passed.
\<close>

theorem share_within_retention:
  assumes "wired c bucket h" "weather (fst w) = []" "db_ok (fst w)"
    and "0 < h_anonTTL h" "h_anonTTL h < 2 ^ 63" "0 < h_ownedTTL h" "h_ownedTTL h < 2 ^ 63"
    and "u \<in> set (uploads_t (fst w))" "u_storage_key u = cq_StorageKey req" "u_owner_id u \<noteq> Some []"
    and "CreateShare h ctx (Some req) t1 t2 es w = Some (Success resp, es', w')"
  shows "cr_ExpiresAt resp \<le> u_created_at u + window_of (h_anonTTL h) (h_ownedTTL h) u
    \<and> (\<forall>now. past_window (now + wrap64 (- h_anonTTL h)) (now + wrap64 (- h_ownedTTL h)) u
         \<longrightarrow> cr_ExpiresAt resp < now)"
proof -
  from assms(4,6) have "0 < window_of (h_anonTTL h) (h_ownedTTL h) u" by (simp add: window_of_def)
  from CreateShare_capped [OF assms(1) calmI [OF assms(2,3,8)] assms(10,3) this assms(9) [symmetric] assms(11)]
  have "cr_ExpiresAt resp \<le> u_created_at u + window_of (h_anonTTL h) (h_ownedTTL h) u"
    by (simp add: deadline_of_def)
  moreover have "u_created_at u + window_of (h_anonTTL h) (h_ownedTTL h) u < now"
    if "past_window (now + wrap64 (- h_anonTTL h)) (now + wrap64 (- h_ownedTTL h)) u" for now
    using past_window_since [OF that] assms(4-7) by simp
  ultimately show ?thesis by force
qed

text \<open>A file kept for one hour, shared for one hour seven microseconds later.\<close>

definition hour_handler :: "(db \<times> unit) share_handler" where
  "hour_handler = NewShareHandler db_share_store (s3_files two_page_client ''b'')
     (Some db_upload_lookup) Hour Hour"

definition tracked_upload :: upload_row where
  "tracked_upload = old_upload\<lparr>u_storage_key := Build sample_id ''page.txt''\<rparr>"

definition tracked_db :: db where
  "tracked_db = empty_db\<lparr>uploads_t := [tracked_upload]\<rparr>"

lemma hour_handler_simps [simp]:
  "h_store hour_handler = db_share_store" "h_files hour_handler = s3_files two_page_client ''b''"
  "h_uploads hour_handler = Some db_upload_lookup" "h_anonTTL hour_handler = Hour"
  "h_ownedTTL hour_handler = Hour"
  by (simp_all add: hour_handler_def NewShareHandler_def)

lemma tracked_backend:
  "ss_GetByStorageKey db_share_store key (tracked_db, s) = (Inl ErrNotFound, (tracked_db, s))"
  "db_upload_lookup (Build sample_id ''page.txt'') (tracked_db, s) = (Inr (scanUpload tracked_upload), (tracked_db, s))"
  by (simp_all add: db_share_store_def on_db_def ShareStore_GetByStorageKey_def get_share_def
      sql_select_shares_def db_upload_lookup_def UploadStore_GetByStorageKey_def tracked_db_def
      tracked_upload_def)

lemma tracked_created:
  "\<exists>w'. CreateShare hour_handler sample_ctx (Some sample_create) 7000 7000 sample_entropy (tracked_db, ()) =
     Some (Success (create_reply (sample_new\<lparr>sh_ExpiresAt := Hour\<rparr>) ''AAAAAA'' False), [], w')"
proof -
  let ?s = "sample_new\<lparr>sh_ExpiresAt := Hour\<rparr>"
  have "snd (Split (Build sample_id ''page.txt'')) = ''page.txt''"
    by (simp add: Split_Build [OF sample_id(2)])
  moreover have "create_tags sample_create"
    by (simp add: create_tags_def sample_create_def Build_def)
  moreover obtain d' where "ss_Create db_share_store ?s (tracked_db, ()) = (None, (d', ()))"
    by (simp add: db_share_store_def on_db_def ShareStore_Create_def sql_insert_share_def uuid_arg_def
        nullable_def sample_new_def tracked_db_def)
  moreover have "capToRetention hour_handler (Build sample_id ''page.txt'') sample_new (tracked_db, ())
      = (?s, (tracked_db, ()))"
    by (simp add: capToRetention_def tracked_backend scanUpload_def tracked_upload_def from_null_def
        old_upload_def sample_new_def Hour_eq)
  ultimately show ?thesis
    by (simp add: CreateShare_def create_new_def store_new_def ShouldBindJSON_def tracked_backend
        sample_backend sample_create_def sample_name(2) maxEmailLength_def sample_ctx_def
        ttl_of_def sample_NewShare Let_def)
qed

theorem share_within_retention_witness:
  "cr_ExpiresAt (create_reply (sample_new\<lparr>sh_ExpiresAt := Hour\<rparr>) ''AAAAAA'' False) \<le> 0 + Hour"
proof -
  obtain w' where run: "CreateShare hour_handler sample_ctx (Some sample_create) 7000 7000 sample_entropy (tracked_db, ()) =
     Some (Success (create_reply (sample_new\<lparr>sh_ExpiresAt := Hour\<rparr>) ''AAAAAA'' False), [], w')"
    using tracked_created by blast
  have "wired two_page_client ''b'' hour_handler" by (simp add: wired_def)
  from share_within_retention [OF this, of "(tracked_db, ())" tracked_upload sample_create, OF _ _ _ _ _ _ _ _ _ run]
  show ?thesis
    by (simp add: tracked_db_def tracked_upload_def old_upload_def db_ok_def sample_create_def
        window_of_def Hour_eq)
qed

subsection \<open>The share purge\<close>

lemma ShareStore_DeleteBySlug_effect:
  assumes "db_ok d" "ShareStore_DeleteBySlug slug d = (r, d')"
  shows "db_ok d' \<and> uploads_t d' = uploads_t d
    \<and> (share_view d' = share_view d \<and> r \<noteq> None \<or> share_view d' = (share_view d)(slug := None))"
proof -
  let ?stmt = "affected (sql_delete_shares (\<lambda>r. r_slug r = slug))"
  obtain x where x: "db_Exec ?stmt d = (x, d')" "r = None \<longleftrightarrow> (\<exists>n. x = Inr n)"
    using assms(2) by (auto simp: ShareStore_DeleteBySlug_def split: prod.splits sum.splits)
  have stmt: "db_ok d2 \<and> uploads_t d2 = uploads_t d \<and> share_view d2 = (share_view d)(slug := None)"
    if "same_tables d d1" "?stmt d1 = (y, d2)" for d1 y d2
  proof -
    from that(2) have d2: "d2 = d1\<lparr>shares_t := filter (\<lambda>r. r_slug r \<noteq> slug) (shares_t d1)\<rparr>"
      by (simp add: affected_def sql_delete_shares_def)
    have "sql_delete_shares (\<lambda>r. r_slug r = slug) d1 = (Inr (filter (\<lambda>r. r_slug r = slug) (shares_t d1)), d2)"
      by (simp add: sql_delete_shares_def d2)
    from sql_delete_shares_effect [OF _ this] same_tables_view [OF that(1)] assms(1)
    have "db_ok d2" "uploads_t d2 = uploads_t d1"
      and v: "share_view d2 a = (case share_view d1 a of None \<Rightarrow> None
       | Some s \<Rightarrow> if \<exists>r \<in> set (shares_t d1). r_slug r = a \<and> r_slug r = slug then None else Some s)" for a
      by auto
    have "share_view d2 = (share_view d1)(slug := None)"
    proof
      fix a show "share_view d2 a = ((share_view d1)(slug := None)) a"
        unfolding v using rows_view_SomeD [of "shares_t d1" a]
        by (auto simp: share_view_def split: option.splits)
    qed
    with \<open>db_ok d2\<close> \<open>uploads_t d2 = uploads_t d1\<close> same_tables_view [OF that(1)] same_tablesD(2) [OF that(1)]
    show ?thesis by simp
  qed
  have "(db_ok d' \<and> uploads_t d' = uploads_t d
      \<and> (share_view d' = share_view d \<or> share_view d' = (share_view d)(slug := None)))
    \<and> ((\<exists>n. x = Inr n) \<longrightarrow> share_view d' = (share_view d)(slug := None))"
    by (rule db_Exec_effect [OF x(1)]) (use assms(1) stmt same_tables_view same_tablesD(2) in \<open>blast+\<close>)
  with x(2) show ?thesis by auto
qed

lemma ShareStore_ListExpired_effect:
  assumes "ShareStore_ListExpired dbnow n d = ((l, r), d')"
  shows "same_tables d d' \<and> (\<forall>s \<in> set l. \<exists>row \<in> set (shares_t d). s = scanShare row \<and> r_expires_at row < dbnow)"
proof -
  let ?P = "\<lambda>rows. \<forall>row \<in> set rows. row \<in> set (shares_t d) \<and> r_expires_at row < dbnow"
  obtain x where x: "db_Query (sql_select_expired dbnow n) d = (x, d')"
      "l = [] \<or> (\<exists>got. x = Inr (got, r) \<and> l = map scanShare got)"
    using assms by (auto simp: ShareStore_ListExpired_def scanShares_def split: prod.splits sum.splits)
  have "same_tables d d' \<and> (\<forall>got err. x = Inr (got, err) \<longrightarrow>
      (\<exists>rows. ?P rows \<and> (\<exists>k. got = take k rows) \<and> (err = None \<longrightarrow> got = rows)))"
    by (rule db_Query_effect [OF x(1), where R = "\<lambda>rows d2. ?P rows"])
      (auto simp: sql_select_expired_def dest!: in_set_takeD dest: same_tablesD)
  with x(2) show ?thesis by (fastforce dest: in_set_takeD)
qed

text \<open>\<open>purged V d\<close>: of the shares \<open>V\<close>, \<open>d\<close> lacks only expired ones.\<close>

definition purged :: "time \<Rightarrow> (string \<Rightarrow> share option) \<Rightarrow> db \<Rightarrow> bool" where
  "purged dbnow V d \<longleftrightarrow> db_ok d \<and> (\<forall>slug. share_view d slug = V slug \<or>
     share_view d slug = None \<and> (\<exists>s. V slug = Some s \<and> sh_ExpiresAt s < dbnow))"

lemma purge_one_safe:
  assumes "purged dbnow V d" "V (sh_Slug s) = Some s" "sh_ExpiresAt s < dbnow"
  shows "purged dbnow V (purge_one (live_purge dbnow) s d) \<and> uploads_t (purge_one (live_purge dbnow) s d) = uploads_t d"
proof -
  obtain r d1 where del: "ShareStore_DeleteBySlug (sh_Slug s) d = (r, d1)" by (rule prod.exhaust)
  from assms(1) have "db_ok d" by (simp add: purged_def)
  note eff = ShareStore_DeleteBySlug_effect [OF this del]
  then have "\<forall>slug. share_view d1 slug = share_view d slug
      \<or> slug = sh_Slug s \<and> share_view d1 slug = None"
    by (auto split: if_splits)
  with eff assms have one: "purged dbnow V d1" "uploads_t d1 = uploads_t d"
    unfolding purged_def by metis+
  obtain a d2 where rec: "DBAuditor_Record ''purge_share'' (sh_Slug s) (purged_share_of s) d1 = (a, d2)"
    by (rule prod.exhaust)
  from DBAuditor_Record_effect [OF rec] have "shares_t d2 = shares_t d1" "uploads_t d2 = uploads_t d1"
    by simp_all
  with one have "purged dbnow V d2" "uploads_t d2 = uploads_t d"
    by (simp_all add: purged_def db_ok_def share_view_def)
  with one del rec show ?thesis by (cases r) (simp_all add: purge_one_def live_purge_def)
qed

lemma purge_fold_safe:
  "purged dbnow V d \<Longrightarrow> \<forall>s \<in> set l. V (sh_Slug s) = Some s \<and> sh_ExpiresAt s < dbnow \<Longrightarrow>
   purged dbnow V (fold (purge_one (live_purge dbnow)) l d)
   \<and> uploads_t (fold (purge_one (live_purge dbnow)) l d) = uploads_t d"
proof (induction l arbitrary: d)
  case (Cons s l)
  with purge_one_safe [of dbnow V d s] show ?case by simp
qed simp

text \<open>In good health a run is one deletion and one entry per expired share.\<close>

definition purge_audit :: "share_row \<Rightarrow> audit_row" where
  "purge_audit r = \<lparr>a_action = ''purge_share'', a_subject = r_slug r, a_detail = purged_share_of (scanShare r)\<rparr>"

lemma purge_fold_fair:
  "weather d = [] \<Longrightarrow> fold (purge_one (live_purge dbnow)) (map scanShare rows) d =
     d\<lparr>shares_t := filter (\<lambda>r. r_slug r \<notin> r_slug ` set rows) (shares_t d),
       audit_t := audit_t d @ map purge_audit rows\<rparr>"
proof (induction rows arbitrary: d)
  case (Cons r rows)
  then have "purge_one (live_purge dbnow) (scanShare r) d =
      d\<lparr>shares_t := filter (\<lambda>x. r_slug x \<noteq> r_slug r) (shares_t d), audit_t := audit_t d @ [purge_audit r]\<rparr>"
    by (simp add: purge_one_def live_purge_def ShareStore_DeleteBySlug_def affected_def
        sql_delete_shares_def fair_worker_calls purge_audit_def)
  with Cons show ?case by (simp add: conj_commute)
qed simp

lemma Purge_Run_purged:
  assumes "db_ok d" "Purge_Run (live_purge dbnow) d = (r, d')"
  shows "purged dbnow (share_view d) d' \<and> uploads_t d' = uploads_t d"
proof -
  obtain l e d1 where list: "ShareStore_ListExpired dbnow sweepBatchSize d = ((l, e), d1)"
    by (metis prod.collapse)
  from ShareStore_ListExpired_effect [OF list] have same: "same_tables d d1"
    and rows: "\<And>s. s \<in> set l \<Longrightarrow> \<exists>row \<in> set (shares_t d). s = scanShare row \<and> r_expires_at row < dbnow"
    by auto
  have start: "purged dbnow (share_view d) d1" "uploads_t d1 = uploads_t d"
    using assms(1) same_tables_view [OF same] same_tablesD(2) [OF same] by (simp_all add: purged_def)
  have listed: "\<forall>s \<in> set l. share_view d (sh_Slug s) = Some s \<and> sh_ExpiresAt s < dbnow"
  proof
    fix s assume "s \<in> set l"
    with rows obtain row where "row \<in> set (shares_t d)" "s = scanShare row" "r_expires_at row < dbnow"
      by blast
    with assms(1) show "share_view d (sh_Slug s) = Some s \<and> sh_ExpiresAt s < dbnow"
      by (auto simp: share_view_def db_ok_def intro!: rows_view_SomeI)
  qed
  show ?thesis
    using assms(2) list start purge_fold_safe [OF start(1) listed]
    by (cases e) (simp_all add: Purge_Run_def live_purge_def)
qed

text \<open>
  C28. The purge removes expired shares and nothing else: whatever calls fail, every share it
  removes had an expiry before the database's clock, every other share keeps its every
  field, and no upload row is touched; and when the database answers and at most 200
  shares are expired, all of them are removed, the earliest first, each with one audit
  entry that shows the share without its code.
\<close>

theorem purge_only_expired:
  assumes "db_ok d" "Purge_Run (live_purge dbnow) d = (r, d')"
  shows "(\<forall>slug. share_view d' slug = share_view d slug \<or>
       share_view d' slug = None \<and> (\<exists>s. share_view d slug = Some s \<and> sh_ExpiresAt s < dbnow))
    \<and> uploads_t d' = uploads_t d
    \<and> (weather d = [] \<and> length (filter (\<lambda>r. r_expires_at r < dbnow) (shares_t d)) \<le> 200 \<longrightarrow>
       r = None \<and>
       d' = d\<lparr>shares_t := filter (\<lambda>r. dbnow \<le> r_expires_at r) (shares_t d),
              audit_t := audit_t d @ map purge_audit
                (sort_key r_expires_at (filter (\<lambda>r. r_expires_at r < dbnow) (shares_t d)))\<rparr>)"
proof -
  note Purge_Run_purged [OF assms]
  moreover have "r = None \<and> d' = d\<lparr>shares_t := filter (\<lambda>r. dbnow \<le> r_expires_at r) (shares_t d),
              audit_t := audit_t d @ map purge_audit
                (sort_key r_expires_at (filter (\<lambda>r. r_expires_at r < dbnow) (shares_t d)))\<rparr>"
    if fair: "weather d = []" "length (filter (\<lambda>r. r_expires_at r < dbnow) (shares_t d)) \<le> 200"
  proof -
    let ?rows = "sort_key r_expires_at (filter (\<lambda>r. r_expires_at r < dbnow) (shares_t d))"
    have "ShareStore_ListExpired dbnow sweepBatchSize d = ((map scanShare ?rows, None), d)"
      using fair by (simp add: ShareStore_ListExpired_def sql_select_expired_def scanShares_def sweepBatchSize_def)
    moreover have "filter (\<lambda>r. r_slug r \<notin> r_slug ` set ?rows) (shares_t d)
        = filter (\<lambda>r. dbnow \<le> r_expires_at r) (shares_t d)"
      using assms(1) by (intro filter_cong) (auto simp: db_ok_def distinct_map inj_on_def)
    ultimately show ?thesis
      using assms(2) purge_fold_fair [OF fair(1), of dbnow ?rows]
      by (simp add: Purge_Run_def live_purge_def)
  qed
  ultimately show ?thesis by (simp add: purged_def)
qed

theorem purge_only_expired_witness:
  "snd (Purge_Run (live_purge (9 * Hour)) created_db) = created_db\<lparr>shares_t := [], audit_t := [purge_audit created_row]\<rparr>"
proof -
  obtain r d' where run: "Purge_Run (live_purge (9 * Hour)) created_db = (r, d')" by (rule prod.exhaust)
  have "db_ok created_db" by (simp add: created_db_def db_ok_def)
  from purge_only_expired [OF this run] run show ?thesis
    by (simp add: created_db_def created_row_def Hour_eq)
qed

end
