(* ===== verification/Migrate.thy ===== *)
theory Migrate
  imports Database "HOL-Library.Char_ord" "HOL-Library.List_Lexorder"
begin

section \<open>internal/migrate: applying the embedded migrations\<close>

text \<open>
  \<open>Run\<close> of \<open>migrate/migrate.go\<close> on one pooled connection. The state holds the versions in
  \<open>schema_migrations\<close> (\<open>None\<close> before the table exists), the schema the migrations build
  (an arbitrary type \<open>'a\<close>) and whether this session holds the advisory lock. What the SQL
  text of a migration does is Postgres' business, the parameter \<open>apply_sql\<close>; the embedded
  directory is the record \<open>embedded\<close>. As in \<open>Database\<close> every call may be refused, or take
  effect and lose its reply; either ends the session, which drops its lock and rolls back
  its transaction.
\<close>

subsection \<open>The database as the runner sees it\<close>

record 'a mdb =
  md_versions :: "string list option"
  md_schema :: 'a
  md_locked :: bool
  md_weather :: "outcome list"

record embedded =
  em_ReadDir :: "goerr + (string \<times> bool) list"   \<comment> \<open>name and IsDir\<close>
  em_ReadFile :: "string \<Rightarrow> goerr + string"

type_synonym ('a, 'b) mcall = "'a mdb \<Rightarrow> (goerr + 'b) \<times> 'a mdb"

definition conn :: "('a, 'b) mcall \<Rightarrow> ('a, 'b) mcall" where
  "conn stmt m =
     (case md_weather m of
        [] \<Rightarrow> stmt m
      | Fine # ws \<Rightarrow> stmt (m\<lparr>md_weather := ws\<rparr>)
      | Refused e # ws \<Rightarrow> (Inl (Fault e), m\<lparr>md_weather := ws, md_locked := False\<rparr>)
      | Broken k e # ws \<Rightarrow> (Inl (Fault e), (snd (stmt (m\<lparr>md_weather := ws\<rparr>)))\<lparr>md_locked := False\<rparr>))"

definition sql_lock :: "('a, unit) mcall" where
  "sql_lock m = (Inr (), m\<lparr>md_locked := True\<rparr>)"

definition sql_unlock :: "('a, unit) mcall" where
  "sql_unlock m = (Inr (), m\<lparr>md_locked := False\<rparr>)"

definition sql_ensure_table :: "('a, unit) mcall" where
  "sql_ensure_table m =
     (Inr (), m\<lparr>md_versions := (case md_versions m of None \<Rightarrow> Some [] | Some vs \<Rightarrow> Some vs)\<rparr>)"

definition sql_select_versions :: "('a, string list) mcall" where
  "sql_select_versions m =
     (case md_versions m of
        None \<Rightarrow> (Inl (Fault ''relation does not exist''), m) | Some vs \<Rightarrow> (Inr vs, m))"

definition sql_migration :: "(string \<Rightarrow> 'a \<Rightarrow> goerr + 'a) \<Rightarrow> string \<Rightarrow> ('a, unit) mcall" where
  "sql_migration apply_sql text m =
     (case apply_sql text (md_schema m) of
        Inl e \<Rightarrow> (Inl e, m) | Inr s \<Rightarrow> (Inr (), m\<lparr>md_schema := s\<rparr>))"

definition sql_insert_version :: "string \<Rightarrow> ('a, unit) mcall" where
  "sql_insert_version v m =
     (case md_versions m of
        None \<Rightarrow> (Inl (Fault ''relation does not exist''), m)
      | Some vs \<Rightarrow>
          if v \<in> set vs then (Inl (Fault ''duplicate key''), m)
          else (Inr (), m\<lparr>md_versions := Some (vs @ [v])\<rparr>))"

text \<open>
  A transaction works on its own copy of the tables; committing makes it the state,
  rolling back keeps the state from before \<open>Begin\<close>.
\<close>

definition rolled_back :: "'a mdb \<Rightarrow> 'a mdb \<Rightarrow> 'a mdb" where
  "rolled_back m t = snd (conn (\<lambda>x. (Inr (), x)) (m\<lparr>md_weather := md_weather t, md_locked := md_locked t\<rparr>))"

definition commit :: "'a mdb \<Rightarrow> 'a mdb \<Rightarrow> goerr option \<times> 'a mdb" where
  "commit m t =
     (case md_weather t of
        [] \<Rightarrow> (None, t)
      | Fine # ws \<Rightarrow> (None, t\<lparr>md_weather := ws\<rparr>)
      | Refused e # ws \<Rightarrow> (Some (Fault e), m\<lparr>md_weather := ws, md_locked := False\<rparr>)
      | Broken k e # ws \<Rightarrow> (Some (Fault e), t\<lparr>md_weather := ws, md_locked := False\<rparr>))"

subsection \<open>The code\<close>

definition failed :: "string \<Rightarrow> string list \<Rightarrow> goerr \<Rightarrow> goerr option" where
  "failed format args e = Some (Wrapped (Sprintf format args) e)"

lemma failed_Some [simp]: "failed format args e \<noteq> None" "None \<noteq> failed format args e"
  by (simp_all add: failed_def)

definition HasSuffix :: "string \<Rightarrow> string \<Rightarrow> bool" where
  "HasSuffix s suffix \<longleftrightarrow> length suffix \<le> length s \<and> drop (length s - length suffix) s = suffix"

definition migrationFiles :: "embedded \<Rightarrow> goerr + string list" where
  "migrationFiles fs =
     (case em_ReadDir fs of
        Inl e \<Rightarrow> Inl (Wrapped (Sprintf ''read migrations dir: %w'' []) e)
      | Inr entries \<Rightarrow>
          Inr (sort (map fst (filter (\<lambda>(name, isdir). \<not> isdir \<and> HasSuffix name ''.sql'') entries))))"

text \<open>One pass of the loop: a pending file in its own transaction.\<close>

definition apply_file ::
  "embedded \<Rightarrow> (string \<Rightarrow> 'a \<Rightarrow> goerr + 'a) \<Rightarrow> string \<Rightarrow> 'a mdb \<Rightarrow> goerr option \<times> 'a mdb" where
  "apply_file fs apply_sql name m =
     (case em_ReadFile fs (''migrations/'' @ name) of
        Inl e \<Rightarrow> (failed ''read %s: %w'' [name] e, m)
      | Inr text \<Rightarrow>
          (case conn (\<lambda>x. (Inr (), x)) m of
             (Inl e, m1) \<Rightarrow> (failed ''begin %s: %w'' [name] e, m1)
           | (Inr _, m1) \<Rightarrow>
               (case conn (sql_migration apply_sql text) m1 of
                  (Inl e, t) \<Rightarrow> (failed ''apply %s: %w'' [name] e, rolled_back m1 t)
                | (Inr _, t) \<Rightarrow>
                    (case conn (sql_insert_version name) t of
                       (Inl e, t1) \<Rightarrow> (failed ''record %s: %w'' [name] e, rolled_back m1 t1)
                     | (Inr _, t1) \<Rightarrow>
                         (case commit m1 t1 of
                            (Some e, m2) \<Rightarrow> (failed ''commit %s: %w'' [name] e, m2)
                          | (None, m2) \<Rightarrow> (None, m2))))))"

fun apply_pending ::
  "embedded \<Rightarrow> (string \<Rightarrow> 'a \<Rightarrow> goerr + 'a) \<Rightarrow> string list \<Rightarrow> string list \<Rightarrow> 'a mdb \<Rightarrow> goerr option \<times> 'a mdb" where
  "apply_pending fs apply_sql applied [] m = (None, m)"
| "apply_pending fs apply_sql applied (name # names) m =
     (if name \<in> set applied then apply_pending fs apply_sql applied names m
      else case apply_file fs apply_sql name m of
             (Some e, m1) \<Rightarrow> (Some e, m1)
           | (None, m1) \<Rightarrow> apply_pending fs apply_sql applied names m1)"

text \<open>What runs between taking the lock and the deferred unlock.\<close>

definition run_locked ::
  "embedded \<Rightarrow> (string \<Rightarrow> 'a \<Rightarrow> goerr + 'a) \<Rightarrow> 'a mdb \<Rightarrow> goerr option \<times> 'a mdb" where
  "run_locked fs apply_sql m =
     (case conn sql_ensure_table m of
        (Inl e, m1) \<Rightarrow> (failed ''ensure schema_migrations: %w'' [] e, m1)
      | (Inr _, m1) \<Rightarrow>
          (case conn sql_select_versions m1 of
             (Inl e, m2) \<Rightarrow> (failed ''read applied migrations: %w'' [] e, m2)
           | (Inr applied, m2) \<Rightarrow>
               (case migrationFiles fs of
                  Inl e \<Rightarrow> (Some e, m2)
                | Inr files \<Rightarrow> apply_pending fs apply_sql applied files m2)))"

definition Run ::
  "embedded \<Rightarrow> (string \<Rightarrow> 'a \<Rightarrow> goerr + 'a) \<Rightarrow> 'a mdb \<Rightarrow> goerr option \<times> 'a mdb" where
  "Run fs apply_sql m =
     (case conn (\<lambda>x. (Inr (), x)) m of
        (Inl e, m1) \<Rightarrow> (failed ''acquire connection: %w'' [] e, m1)
      | (Inr _, m1) \<Rightarrow>
          (case conn sql_lock m1 of
             (Inl e, m2) \<Rightarrow> (failed ''acquire migration lock: %w'' [] e, m2)
           | (Inr _, m2) \<Rightarrow>
               (case run_locked fs apply_sql m2 of
                  (r, m3) \<Rightarrow> (r, snd (conn sql_unlock m3)))))"

subsection \<open>Progress\<close>

text \<open>
  \<open>migrated fs apply_sql names m m'\<close>: \<open>m'\<close> is \<open>m\<close> with exactly the migrations \<open>names\<close>
  applied and recorded, in this order; locks and weather aside.
\<close>

definition versions :: "'a mdb \<Rightarrow> string list" where
  "versions m = (case md_versions m of None \<Rightarrow> [] | Some vs \<Rightarrow> vs)"

fun apply_all ::
  "embedded \<Rightarrow> (string \<Rightarrow> 'a \<Rightarrow> goerr + 'a) \<Rightarrow> string list \<Rightarrow> 'a \<Rightarrow> 'a option" where
  "apply_all fs apply_sql [] s = Some s"
| "apply_all fs apply_sql (name # names) s =
     (case em_ReadFile fs (''migrations/'' @ name) of
        Inl e \<Rightarrow> None
      | Inr text \<Rightarrow> (case apply_sql text s of Inl e \<Rightarrow> None | Inr s' \<Rightarrow> apply_all fs apply_sql names s'))"

definition migrated ::
  "embedded \<Rightarrow> (string \<Rightarrow> 'a \<Rightarrow> goerr + 'a) \<Rightarrow> string list \<Rightarrow> 'a mdb \<Rightarrow> 'a mdb \<Rightarrow> bool" where
  "migrated fs apply_sql names m m' \<longleftrightarrow> versions m' = versions m @ names
     \<and> apply_all fs apply_sql names (md_schema m) = Some (md_schema m')"

lemma apply_all_append:
  "apply_all fs apply_sql (as @ bs) s = Option.bind (apply_all fs apply_sql as s) (apply_all fs apply_sql bs)"
  by (induction as arbitrary: s) (auto split: sum.splits)

lemma migrated_trans:
  "migrated fs f as m m1 \<Longrightarrow> migrated fs f bs m1 m2 \<Longrightarrow> migrated fs f (as @ bs) m m2"
  by (simp add: migrated_def apply_all_append)

lemma migrated_same:
  "versions m' = versions m \<Longrightarrow> md_schema m' = md_schema m \<Longrightarrow> migrated fs f [] m m'"
  by (simp add: migrated_def)

text \<open>A call without effect on the tables keeps them whatever becomes of it.\<close>

lemma conn_cases:
  assumes "conn stmt m = (r, m')"
  obtains (ran) ws where "stmt (m\<lparr>md_weather := ws\<rparr>) = (r, m')"
  | (lost) ws e x m1 where "stmt (m\<lparr>md_weather := ws\<rparr>) = (x, m1)" "m' = m1\<lparr>md_locked := False\<rparr>" "r = Inl (Fault e)"
  | (refused) ws e where "m' = m\<lparr>md_weather := ws, md_locked := False\<rparr>" "r = Inl (Fault e)"
proof (cases "md_weather m")
  case Nil
  then have "m\<lparr>md_weather := []\<rparr> = m" by simp
  with Nil assms ran [of "[]"] show thesis by (simp add: conn_def)
next
  case (Cons w ws)
  obtain x m1 where st: "stmt (m\<lparr>md_weather := ws\<rparr>) = (x, m1)" by (rule prod.exhaust)
  show thesis
  proof (cases w)
    case Fine
    with Cons assms show thesis by (intro ran [of ws]) (simp add: conn_def)
  next
    case (Refused e)
    with Cons assms show thesis by (intro refused [of ws e]) (simp_all add: conn_def)
  next
    case (Broken k e)
    with Cons assms st show thesis by (intro lost [of ws x m1 e]) (simp_all add: conn_def)
  qed
qed

lemma conn_keeps:
  assumes "conn stmt m = (r, m')"
    and "\<And>ws x m1. stmt (m\<lparr>md_weather := ws\<rparr>) = (x, m1) \<Longrightarrow> versions m1 = versions m \<and> md_schema m1 = md_schema m"
  shows "versions m' = versions m \<and> md_schema m' = md_schema m"
  using assms(1)
proof (cases rule: conn_cases)
  case (lost ws e x m1)
  with assms(2) [OF lost(1)] show ?thesis by (simp add: versions_def)
qed (use assms(2) in \<open>auto simp: versions_def\<close>)

lemma quiet_stmts:
  "conn (\<lambda>x. (Inr (), x)) m = (r, m') \<Longrightarrow> versions m' = versions m \<and> md_schema m' = md_schema m"
  "conn sql_lock m = (r, m') \<Longrightarrow> versions m' = versions m \<and> md_schema m' = md_schema m"
  "conn sql_unlock m = (r, m') \<Longrightarrow> versions m' = versions m \<and> md_schema m' = md_schema m"
  "conn sql_ensure_table m = (r, m') \<Longrightarrow> versions m' = versions m \<and> md_schema m' = md_schema m"
  "conn sql_select_versions m = (v, m') \<Longrightarrow> versions m' = versions m \<and> md_schema m' = md_schema m"
      apply (erule conn_keeps, simp add: versions_def)
     apply (erule conn_keeps, simp add: sql_lock_def versions_def)
    apply (erule conn_keeps, simp add: sql_unlock_def versions_def)
   apply (erule conn_keeps, auto simp: sql_ensure_table_def versions_def split: option.splits)[1]
  apply (erule conn_keeps, auto simp: sql_select_versions_def versions_def split: option.splits)[1]
  done

subsection \<open>One file\<close>

text \<open>
  A file is applied as a whole or not at all, and success means it was applied: its text ran
  and its name was recorded in the same transaction.
\<close>

lemma rolled_back_keeps:
  "versions (rolled_back m t) = versions m \<and> md_schema (rolled_back m t) = md_schema m"
proof -
  let ?m = "m\<lparr>md_weather := md_weather t, md_locked := md_locked t\<rparr>"
  obtain r m1 where "conn (\<lambda>x. (Inr (), x)) ?m = (r, m1)" by (rule prod.exhaust)
  from quiet_stmts(1) [OF this] this show ?thesis by (simp add: rolled_back_def versions_def)
qed

lemma conn_Inr:
  assumes "conn stmt m = (Inr x, m')"
  obtains ws where "stmt (m\<lparr>md_weather := ws\<rparr>) = (Inr x, m')"
  using assms by (cases rule: conn_cases) auto

lemma commit_cases:
  assumes "commit m t = (r, m')"
  shows "versions m' = versions t \<and> md_schema m' = md_schema t
    \<or> r \<noteq> None \<and> versions m' = versions m \<and> md_schema m' = md_schema m"
  using assms by (auto simp: commit_def versions_def split: list.splits outcome.splits)

lemma apply_file_atomic:
  assumes "apply_file fs apply_sql name m = (r, m')"
  shows "r \<noteq> None \<and> migrated fs apply_sql [] m m' \<or> migrated fs apply_sql [name] m m'"
proof (cases "em_ReadFile fs (''migrations/'' @ name)")
  case (Inl e)
  with assms have "m' = m \<and> r = failed ''read %s: %w'' [name] e" by (simp add: apply_file_def)
  then show ?thesis by (simp add: migrated_same)
next
  case read: (Inr sql)
  obtain b m1 where begin_tx: "conn (\<lambda>x. (Inr (), x)) m = (b, m1)" by (rule prod.exhaust)
  note m1 = quiet_stmts(1) [OF begin_tx]
  have kept: "r \<noteq> None \<and> migrated fs apply_sql [] m m'"
    if "(m' = m1 \<or> m' = rolled_back m1 t) \<and> r = failed format args e" for t format args e
    using that rolled_back_keeps [of m1] m1 by (auto intro: migrated_same)
  show ?thesis
  proof (cases b)
    case Bad: (Inl e)
    with assms read begin_tx have "m' = m1 \<and> r = failed ''begin %s: %w'' [name] e"
      by (simp add: apply_file_def)
    with kept show ?thesis by blast
  next
    case (Inr u)
    then have ok: "b = Inr ()" by simp
    obtain x t where exec: "conn (sql_migration apply_sql sql) m1 = (x, t)" by (rule prod.exhaust)
    show ?thesis
    proof (cases x)
      case (Inl e)
      with assms read begin_tx ok exec have "m' = rolled_back m1 t \<and> r = failed ''apply %s: %w'' [name] e"
        by (simp add: apply_file_def)
      with kept show ?thesis by blast
    next
      case (Inr u')
      then have ran: "x = Inr ()" by simp
      obtain ws where "sql_migration apply_sql sql (m1\<lparr>md_weather := ws\<rparr>) = (Inr (), t)"
        by (rule conn_Inr [OF exec [unfolded ran]])
      then have s: "apply_sql sql (md_schema m1) = Inr (md_schema t)" "versions t = versions m1"
        by (auto simp: sql_migration_def versions_def split: sum.splits)
      obtain y t1 where ins: "conn (sql_insert_version name) t = (y, t1)" by (rule prod.exhaust)
      show ?thesis
      proof (cases y)
        case (Inl e)
        with assms read begin_tx ok exec ran ins
        have "m' = rolled_back m1 t1 \<and> r = failed ''record %s: %w'' [name] e"
          by (simp add: apply_file_def)
        with kept show ?thesis by blast
      next
        case (Inr u'')
        then have recd: "y = Inr ()" by simp
        obtain ws' where "sql_insert_version name (t\<lparr>md_weather := ws'\<rparr>) = (Inr (), t1)"
          by (rule conn_Inr [OF ins [unfolded recd]])
        then have t1: "versions t1 = versions t @ [name]" "md_schema t1 = md_schema t"
          by (auto simp: sql_insert_version_def versions_def split: option.splits if_splits)
        obtain z m2 where cm: "commit m1 t1 = (z, m2)" by (rule prod.exhaust)
        have "m' = m2 \<and> r = (case z of None \<Rightarrow> None | Some e \<Rightarrow> failed ''commit %s: %w'' [name] e)"
          using assms read begin_tx ok exec ran ins recd cm
          by (cases z) (simp_all add: apply_file_def)
        moreover have "migrated fs apply_sql [name] m t1"
          using s t1 m1 read by (simp add: migrated_def)
        ultimately show ?thesis using commit_cases [OF cm] m1
          by (cases z) (auto simp: migrated_def)
      qed
    qed
  qed
qed

subsection \<open>The run\<close>

definition pending :: "string list \<Rightarrow> 'a mdb \<Rightarrow> string list" where
  "pending files m = filter (\<lambda>name. name \<notin> set (versions m)) files"

lemma apply_pending_prefix:
  assumes "apply_pending fs apply_sql applied files m = (r, m')"
  shows "\<exists>k. migrated fs apply_sql (take k (filter (\<lambda>name. name \<notin> set applied) files)) m m'
    \<and> (r = None \<longrightarrow> k = length (filter (\<lambda>name. name \<notin> set applied) files))"
  using assms
proof (induction files arbitrary: m)
  case Nil
  then show ?case by (auto simp: migrated_same)
next
  case (Cons name files)
  show ?case
  proof (cases "name \<in> set applied")
    case True
    with Cons show ?thesis by simp
  next
    case False
    let ?rest = "filter (\<lambda>name. name \<notin> set applied) files"
    obtain x m1 where one: "apply_file fs apply_sql name m = (x, m1)" by (rule prod.exhaust)
    note atomic = apply_file_atomic [OF one]
    show ?thesis
    proof (cases x)
      case (Some e)
      with Cons.prems False one have r: "r = Some e" "m' = m1" by simp_all
      from atomic show ?thesis
      proof
        assume "x \<noteq> None \<and> migrated fs apply_sql [] m m1"
        with r False show ?thesis by (intro exI [of _ 0]) simp
      next
        assume "migrated fs apply_sql [name] m m1"
        with r False show ?thesis by (intro exI [of _ 1]) simp
      qed
    next
      case None
      with atomic have step: "migrated fs apply_sql [name] m m1" by simp
      from Cons.prems False one None Cons.IH [of m1] obtain k where
        k: "migrated fs apply_sql (take k ?rest) m1 m'" "r = None \<longrightarrow> k = length ?rest" by auto
      from migrated_trans [OF step k(1)] k(2) False show ?thesis
        by (intro exI [of _ "Suc k"]) simp
    qed
  qed
qed

lemma run_locked_prefix:
  assumes "run_locked fs apply_sql m = (r, m')" "migrationFiles fs = Inr files"
  shows "\<exists>k. migrated fs apply_sql (take k (pending files m)) m m'
    \<and> (r = None \<longrightarrow> k = length (pending files m))"
proof -
  obtain x m1 where ensure: "conn sql_ensure_table m = (x, m1)" by (rule prod.exhaust)
  note m1 = quiet_stmts(4) [OF ensure]
  show ?thesis
  proof (cases x)
    case (Inl e)
    with assms(1) ensure have "m' = m1 \<and> r = failed ''ensure schema_migrations: %w'' [] e"
      by (simp add: run_locked_def)
    with m1 show ?thesis by (intro exI [of _ 0]) (auto simp: migrated_same)
  next
    case (Inr u)
    then have ok: "x = Inr ()" by simp
    obtain y m2 where sel: "conn sql_select_versions m1 = (y, m2)" by (rule prod.exhaust)
    note m2 = quiet_stmts(5) [OF sel]
    show ?thesis
    proof (cases y)
      case (Inl e)
      with assms(1) ensure ok sel have "m' = m2 \<and> r = failed ''read applied migrations: %w'' [] e"
        by (simp add: run_locked_def)
      with m1 m2 show ?thesis by (intro exI [of _ 0]) (auto simp: migrated_same)
    next
      case (Inr applied)
      obtain ws where "sql_select_versions (m1\<lparr>md_weather := ws\<rparr>) = (Inr applied, m2)"
        by (rule conn_Inr [OF sel [unfolded Inr]])
      then have "applied = versions m1"
        by (auto simp: sql_select_versions_def versions_def split: option.splits)
      moreover have "apply_pending fs apply_sql applied files m2 = (r, m')"
        using assms ensure ok sel Inr by (simp add: run_locked_def)
      ultimately show ?thesis
        using apply_pending_prefix [of fs apply_sql applied files m2 r m'] m1 m2
        by (auto simp: pending_def migrated_def)
    qed
  qed
qed

lemma unlock_unlocks: "\<not> md_locked (snd (conn sql_unlock m))"
  by (auto simp: conn_def sql_unlock_def split: list.splits outcome.splits)

lemma Run_prefix:
  assumes "Run fs apply_sql m = (r, m')" "migrationFiles fs = Inr files"
  shows "\<exists>k. migrated fs apply_sql (take k (pending files m)) m m'
    \<and> (r = None \<longrightarrow> k = length (pending files m)) \<and> \<not> md_locked m'"
proof -
  obtain x m1 where acq: "conn (\<lambda>x. (Inr (), x)) m = (x, m1)" by (rule prod.exhaust)
  note m1 = quiet_stmts(1) [OF acq]
  have dead: "\<not> md_locked m1" if "x = Inl e" for e
    using acq that by (cases rule: conn_cases) auto
  show ?thesis
  proof (cases x)
    case (Inl e)
    with assms(1) acq have "m' = m1 \<and> r = failed ''acquire connection: %w'' [] e"
      by (simp add: Run_def)
    with m1 dead [OF Inl] show ?thesis by (intro exI [of _ 0]) (auto simp: migrated_same)
  next
    case (Inr u)
    then have ok: "x = Inr ()" by simp
    obtain y m2 where lock: "conn sql_lock m1 = (y, m2)" by (rule prod.exhaust)
    note m2 = quiet_stmts(2) [OF lock]
    have dead: "\<not> md_locked m2" if "y = Inl e" for e
      using lock that by (cases rule: conn_cases) (auto simp: sql_lock_def)
    show ?thesis
    proof (cases y)
      case (Inl e)
      with assms(1) acq ok lock have "m' = m2 \<and> r = failed ''acquire migration lock: %w'' [] e"
        by (simp add: Run_def)
      with m1 m2 dead [OF Inl] show ?thesis by (intro exI [of _ 0]) (auto simp: migrated_same)
    next
      case (Inr u')
      obtain r1 m3 where run: "run_locked fs apply_sql m2 = (r1, m3)" by (rule prod.exhaust)
      obtain z m4 where un: "conn sql_unlock m3 = (z, m4)" by (rule prod.exhaust)
      note m4 = quiet_stmts(3) [OF un]
      from assms(1) acq ok lock Inr run un have res: "r = r1 \<and> m' = m4" by (simp add: Run_def)
      from run_locked_prefix [OF run assms(2)] obtain k where
        k: "migrated fs apply_sql (take k (pending files m2)) m2 m3" "r1 = None \<longrightarrow> k = length (pending files m2)"
        by blast
      have "pending files m2 = pending files m" using m1 m2 by (simp add: pending_def)
      with k res m1 m2 m4 unlock_unlocks [of m3] un show ?thesis
        by (intro exI [of _ k]) (simp add: migrated_def)
    qed
  qed
qed

text \<open>
  C18. Migrations are applied whole, in order and once: whatever call fails or loses its reply, a
  run leaves behind the schema made by exactly the first \<open>k\<close> of the pending files, sorted by
  name, and exactly these are recorded; none is applied in part, skipped, or applied
  without being recorded; success means all of them. The advisory lock is free again in
  any case.
\<close>

theorem migrations_applied_in_order:
  assumes "Run fs apply_sql m = (r, m')" "em_ReadDir fs = Inr entries"
  shows "\<exists>files k. files = filter (\<lambda>name. name \<notin> set (versions m))
        (sort (map fst (filter (\<lambda>(name, isdir). \<not> isdir \<and> HasSuffix name ''.sql'') entries)))
    \<and> versions m' = versions m @ take k files
    \<and> apply_all fs apply_sql (take k files) (md_schema m) = Some (md_schema m')
    \<and> (r = None \<longrightarrow> k = length files) \<and> \<not> md_locked m'"
proof -
  have "migrationFiles fs = Inr (sort (map fst (filter (\<lambda>(name, isdir). \<not> isdir \<and> HasSuffix name ''.sql'') entries)))"
    using assms(2) by (simp add: migrationFiles_def)
  from Run_prefix [OF assms(1) this] show ?thesis
    unfolding migrated_def pending_def by blast
qed

text \<open>Two migrations that must run in order, on a directory that lists them backwards.\<close>

definition two_files :: embedded where
  "two_files = \<lparr>em_ReadDir = Inr [(''2.sql'', False), (''1.sql'', False), (''notes'', False)],
     em_ReadFile = \<lambda>path. Inr (if path = ''migrations/1.sql'' then ''create'' else ''alter'')\<rparr>"

definition toy_sql :: "string \<Rightarrow> string list \<Rightarrow> goerr + string list" where
  "toy_sql sql schema = (if sql = ''alter'' \<and> schema = [] then Inl (Fault ''no table'') else Inr (schema @ [sql]))"

definition blank :: "outcome list \<Rightarrow> string list mdb" where
  "blank ws = \<lparr>md_versions = None, md_schema = [], md_locked = False, md_weather = ws\<rparr>"

theorem migrations_applied_in_order_witness:
  "\<exists>k. versions (snd (Run two_files toy_sql (blank []))) = take k [''1.sql'', ''2.sql'']"
proof -
  obtain r m' where run: "Run two_files toy_sql (blank []) = (r, m')" by (rule prod.exhaust)
  have dir: "em_ReadDir two_files = Inr [(''2.sql'', False), (''1.sql'', False), (''notes'', False)]"
    by (simp add: two_files_def)
  have "sort [''2.sql'', ''1.sql''] = [''1.sql'', ''2.sql'']" by code_simp
  with migrations_applied_in_order [OF run dir] run show ?thesis
    by (auto simp: HasSuffix_def versions_def blank_def)
qed

subsection \<open>Coming back after a failure\<close>

text \<open>Runs one after the other, each in its own weather, whatever they report.\<close>

inductive runs ::
  "embedded \<Rightarrow> (string \<Rightarrow> 'a \<Rightarrow> goerr + 'a) \<Rightarrow> 'a mdb \<Rightarrow> 'a mdb \<Rightarrow> bool"
  for fs :: embedded and apply_sql :: "string \<Rightarrow> 'a \<Rightarrow> goerr + 'a" where
  start: "runs fs apply_sql m m"
| again: "runs fs apply_sql m m2"
    if "runs fs apply_sql m m1" and "Run fs apply_sql (m1\<lparr>md_weather := ws\<rparr>) = (r, m2)"

lemma pending_migrated:
  assumes "distinct files" "migrated fs apply_sql (take k (pending files m)) m m1"
  shows "pending files m1 = drop k (pending files m)"
proof -
  let ?p = "pending files m"
  have "distinct ?p" using assms(1) by (simp add: pending_def)
  then have "distinct (take k ?p @ drop k ?p)" by simp
  then have "set (take k ?p) \<inter> set (drop k ?p) = {}" unfolding distinct_append by blast
  have "pending files m1 = filter (\<lambda>n. n \<notin> set (take k ?p)) ?p"
    using assms(2) by (auto simp: pending_def migrated_def filter_filter intro!: filter_cong)
  also have "\<dots> = filter (\<lambda>n. n \<notin> set (take k ?p)) (take k ?p @ drop k ?p)" by simp
  also have "\<dots> = drop k ?p"
    using \<open>set (take k ?p) \<inter> set (drop k ?p) = {}\<close>
    by (simp only: filter_append) (auto simp: filter_empty_conv filter_id_conv)
  finally show ?thesis .
qed

lemma runs_prefix:
  assumes "runs fs apply_sql m m1" "migrationFiles fs = Inr files" "distinct files"
  shows "\<exists>k. migrated fs apply_sql (take k (pending files m)) m m1"
  using assms(1)
proof induction
  case (start m)
  show ?case by (intro exI [of _ 0]) (simp add: migrated_same)
next
  case (again m m1 ws r m2)
  from again.IH obtain k where k: "migrated fs apply_sql (take k (pending files m)) m m1" by blast
  let ?m1 = "m1\<lparr>md_weather := ws\<rparr>"
  have same: "pending files ?m1 = pending files m1" "migrated fs apply_sql ns ?m1 m2 = migrated fs apply_sql ns m1 m2" for ns
    by (simp_all add: pending_def versions_def migrated_def)
  from Run_prefix [OF again.hyps(2) assms(2)] obtain j where
    "migrated fs apply_sql (take j (pending files m1)) m1 m2" unfolding same by blast
  from migrated_trans [OF k this] show ?case
    unfolding pending_migrated [OF assms(3) k] by (metis take_add)
qed

text \<open>
  C19. A failed migration run can simply be repeated: after any number of runs that failed
  anywhere, a run that succeeds leaves exactly the schema and the records of a single
  successful run from the start, every pending file applied once and in order.
\<close>

theorem migrations_resume:
  assumes "runs fs apply_sql m m1" "Run fs apply_sql (m1\<lparr>md_weather := ws\<rparr>) = (None, m2)"
    and "migrationFiles fs = Inr files" "distinct files"
  shows "versions m2 = versions m @ filter (\<lambda>name. name \<notin> set (versions m)) files
    \<and> apply_all fs apply_sql (filter (\<lambda>name. name \<notin> set (versions m)) files) (md_schema m) = Some (md_schema m2)"
proof -
  from runs_prefix [OF assms(1,3,4)] obtain k where
    k: "migrated fs apply_sql (take k (pending files m)) m m1" by blast
  let ?m1 = "m1\<lparr>md_weather := ws\<rparr>"
  have same: "pending files ?m1 = pending files m1" "migrated fs apply_sql ns ?m1 m2 = migrated fs apply_sql ns m1 m2" for ns
    by (simp_all add: pending_def versions_def migrated_def)
  from Run_prefix [OF assms(2,3)] have "migrated fs apply_sql (pending files m1) m1 m2"
    unfolding same by auto
  from migrated_trans [OF k this] show ?thesis
    unfolding pending_migrated [OF assms(4) k] by (simp add: migrated_def pending_def)
qed

definition broken_run :: "string list mdb" where
  "broken_run = snd (Run two_files toy_sql (blank (replicate 11 Fine @ [Broken 0 ''reset''])))"

theorem migrations_resume_witness:
  "versions (snd (Run two_files toy_sql (broken_run\<lparr>md_weather := []\<rparr>))) = [''1.sql'', ''2.sql'']"
proof -
  let ?ws = "replicate 11 Fine @ [Broken 0 ''reset'']"
  have files: "migrationFiles two_files = Inr [''1.sql'', ''2.sql'']" by code_simp
  obtain r where run: "Run two_files toy_sql ((blank [])\<lparr>md_weather := ?ws\<rparr>) = (r, broken_run)"
    by (simp add: broken_run_def blank_def) (metis prod.collapse)
  have reach: "runs two_files toy_sql (blank []) broken_run"
    by (rule runs.again [OF runs.start run])
  have "fst (Run two_files toy_sql (broken_run\<lparr>md_weather := []\<rparr>)) = None" by code_simp
  then obtain m2 where last: "Run two_files toy_sql (broken_run\<lparr>md_weather := []\<rparr>) = (None, m2)"
    by (metis prod.collapse)
  from migrations_resume [OF reach last files] last show ?thesis
    by (simp add: versions_def blank_def)
qed

end
