(* ===== verification/JobFrames.thy ===== *)
theory JobFrames
  imports Workers
begin

section \<open>What a job keeps when each of its calls keeps it\<close>

text \<open>
  Both jobs reach the database through a handful of store methods. The interface
  \<open>job_frame\<close> lists what a relation between database states has to satisfy for each method,
  with the storage keys whose shares and those whose upload rows the method may remove as
  its parameters; the client is a whole run of either job. Theory \<open>Runner\<close> takes the job
  history for the relation, \<open>Upkeep\<close> the shares, \<open>Ledger\<close> trails and upload rows.
\<close>

locale job_frame =
  fixes R :: "string set \<Rightarrow> string set \<Rightarrow> db \<Rightarrow> db \<Rightarrow> bool"
  assumes R_refl: "R S U d d"
    and R_trans [trans]: "R S U d d1 \<Longrightarrow> R S U d1 d2 \<Longrightarrow> R S U d d2"
    and R_mono: "R S U d d1 \<Longrightarrow> S \<subseteq> S' \<Longrightarrow> U \<subseteq> U' \<Longrightarrow> R S' U' d d1"
    and dropped: "UploadStore_Delete key d = (r, d1) \<Longrightarrow> R S {key} d d1"
    and marked: "UploadStore_MarkDeleteFailed key e d = (r, d1) \<Longrightarrow> R S U d d1"
    and recorded: "DBAuditor_Record act subject detail d = (r, d1) \<Longrightarrow> R S U d d1"
    and due_listed: "UploadStore_ListExpired a b n d = (lr, d1) \<Longrightarrow> R S U d d1"
    and shares_listed: "ShareStore_ListExpired now n d = (sr, d1) \<Longrightarrow> R S U d d1"
    and unshared: "ShareStore_DeleteByStorageKey key d = (kr, d1) \<Longrightarrow> R {key} U d d1"
    and deleted: "ShareStore_DeleteBySlug slug d = (r, d1) \<Longrightarrow> R UNIV U d d1"
begin

text \<open>The methods as calls of the live retention job, on the pair of database and bucket.\<close>

lemma marked_R: "R S U (fst w) (fst (snd (on_db (UploadStore_MarkDeleteFailed key e) w)))"
  by (cases "UploadStore_MarkDeleteFailed key e (fst w)") (simp add: on_db_def marked)

lemma recorded_R: "R S U (fst w) (fst (snd (on_db (DBAuditor_Record act subj det) w)))"
  by (cases "DBAuditor_Record act subj det (fst w)") (simp add: on_db_def recorded)

lemma dropped_R: "on_db (UploadStore_Delete key) w = (e, w') \<Longrightarrow> R S {key} (fst w) (fst w')"
  by (auto simp: on_db_eq intro: dropped)

lemma unshared_R: "on_db (ShareStore_DeleteByStorageKey key) w = (x, w') \<Longrightarrow> R {key} U (fst w) (fst w')"
  by (auto simp: on_db_eq intro: unshared)

lemma sweep_absent_frame:
  assumes "sweep_absent (live_retention c bucket anon owned) up w = (out, w')"
  shows "R {up_StorageKey up} {up_StorageKey up} (fst w) (fst w')"
proof -
  let ?k = "up_StorageKey up"
  obtain e w2 where d: "on_db (UploadStore_Delete ?k) w = (e, w2)" by (rule prod.exhaust)
  from assms d have "w' = w2 \<or> (\<exists>x. w' = snd (on_db (UploadStore_MarkDeleteFailed ?k x) w2))
      \<or> (\<exists>act det. w' = snd (on_db (DBAuditor_Record act ?k det) w2))"
    by (cases e) (auto simp: sweep_absent_def split: if_splits)
  with dropped_R [OF d] marked_R recorded_R R_trans show ?thesis by blast
qed

lemma sweep_present_frame:
  assumes "sweep_present (live_retention c bucket anon owned) up n w = (out, w')"
  shows "R {up_StorageKey up} {up_StorageKey up} (fst w) (fst w')"
proof -
  let ?k = "up_StorageKey up"
  obtain e w2 where r: "on_s3 (S3_DeleteFile c bucket ?k) w = (e, w2)" by (rule prod.exhaust)
  then have w2: "fst w2 = fst w" by (simp add: on_s3_eq)
  show ?thesis
  proof (cases e)
    case (Some x)
    obtain y w3 where m: "on_db (UploadStore_MarkDeleteFailed ?k x) w2 = (y, w3)" by (rule prod.exhaust)
    with assms r Some have "\<exists>act det. w' = snd (on_db (DBAuditor_Record act ?k det) w3)"
      by (auto simp: sweep_present_def)
    moreover have "R {?k} {?k} (fst w2) (fst w3)" using marked_R [of "{?k}" "{?k}" w2 ?k x] by (simp add: m)
    ultimately show ?thesis using recorded_R R_trans unfolding w2 by blast
  next
    case None
    obtain slugs err w3 where u: "on_db (ShareStore_DeleteByStorageKey ?k) w2 = ((slugs, err), w3)"
      by (metis prod.collapse)
    obtain e2 w4 where d: "on_db (UploadStore_Delete ?k) w3 = (e2, w4)" by (rule prod.exhaust)
    from assms r None u d have "(\<exists>x. w' = snd (on_db (UploadStore_MarkDeleteFailed ?k x) w4))
        \<or> (\<exists>act det. w' = snd (on_db (DBAuditor_Record act ?k det) w4))"
      by (cases e2) (auto simp: sweep_present_def)
    moreover have "R {?k} {?k} (fst w2) (fst w4)"
      using unshared_R [OF u] dropped_R [OF d] by (rule R_trans)
    ultimately show ?thesis using marked_R recorded_R R_trans unfolding w2 by blast
  qed
qed

lemma sweep_one_frame:
  assumes "sweep_one (live_retention c bucket anon owned) up w = (out, w')"
  shows "R {up_StorageKey up} {up_StorageKey up} (fst w) (fst w')"
proof -
  obtain g w1 where head: "on_s3 (S3_GetFileSize c bucket (up_StorageKey up)) w = (g, w1)" by (rule prod.exhaust)
  then have w1: "fst w1 = fst w" by (simp add: on_s3_eq)
  show ?thesis
  proof (cases g)
    case (Inr n)
    with assms head have "sweep_present (live_retention c bucket anon owned) up n w1 = (out, w')"
      by (simp add: sweep_one_def)
    from sweep_present_frame [OF this] show ?thesis by (simp add: w1)
  next
    case (Inl e)
    with assms head have "sweep_absent (live_retention c bucket anon owned) up w1 = (out, w')
        \<or> w' = snd (on_db (UploadStore_MarkDeleteFailed (up_StorageKey up) e) w1)"
      by (auto simp: sweep_one_def split: if_splits)
    with sweep_absent_frame marked_R w1 show ?thesis by metis
  qed
qed

lemma sweep_frame:
  "up_StorageKey ` set ups \<subseteq> K \<Longrightarrow>
   R K K (fst w) (fst (snd (sweep (live_retention c bucket anon owned) ups w)))"
proof (induction ups arbitrary: w)
  case (Cons up ups)
  obtain o1 w1 where one: "sweep_one (live_retention c bucket anon owned) up w = (o1, w1)" by (rule prod.exhaust)
  have "R K K (fst w) (fst w1)"
    using R_mono [OF sweep_one_frame [OF one]] Cons.prems by simp
  also have "R K K (fst w1) (fst (snd (sweep (live_retention c bucket anon owned) ups w1)))"
    using Cons by simp
  finally show ?case
    by (cases "sweep (live_retention c bucket anon owned) ups w1") (simp add: one)
qed (simp add: R_refl)

text \<open>A run of the retention job, when the keys it lists are in \<open>K\<close>.\<close>

lemma Retention_Run_frame:
  assumes "\<And>l e d1. UploadStore_ListExpired (now + wrap64 (- anon)) (now + wrap64 (- owned)) sweepBatchSize (fst w)
      = ((l, e), d1) \<Longrightarrow> up_StorageKey ` set l \<subseteq> K"
  shows "R K K (fst w) (fst (snd (Retention_Run (live_retention c bucket anon owned) now w)))"
proof -
  let ?a = "now + wrap64 (- anon)" and ?b = "now + wrap64 (- owned)"
  obtain l e d1 where list: "UploadStore_ListExpired ?a ?b sweepBatchSize (fst w) = ((l, e), d1)"
    by (metis prod.collapse)
  have d1: "R K K (fst w) d1" by (rule due_listed [OF list])
  from assms [OF list] have "R K K d1 (fst (snd (sweep (live_retention c bucket anon owned) l (d1, snd w))))"
    using sweep_frame [where ups = l and K = K and w = "(d1, snd w)"] by simp
  with d1 R_trans have "R K K (fst w) (fst (snd (sweep (live_retention c bucket anon owned) l (d1, snd w))))" by blast
  with d1 list show ?thesis
    by (cases e; cases "sweep (live_retention c bucket anon owned) l (d1, snd w)")
      (simp_all add: Retention_Run_def on_db_def)
qed

text \<open>A run of the share purge.\<close>

lemma purge_one_frame: "R UNIV {} d (purge_one (live_purge now) s d)"
proof -
  obtain e d1 where del: "ShareStore_DeleteBySlug (sh_Slug s) d = (e, d1)" by (rule prod.exhaust)
  obtain r d2 where rec: "DBAuditor_Record ''purge_share'' (sh_Slug s) (purged_share_of s) d1 = (r, d2)"
    by (rule prod.exhaust)
  from deleted [OF del] R_trans [OF deleted [OF del] recorded [OF rec]] del rec show ?thesis
    by (cases e) (simp_all add: purge_one_def live_purge_def)
qed

lemma Purge_Run_frame:
  assumes "Purge_Run (live_purge now) d = (r, d')"
  shows "R UNIV {} d d'"
proof -
  obtain l e d1 where list: "ShareStore_ListExpired now sweepBatchSize d = ((l, e), d1)"
    by (metis prod.collapse)
  have fold: "R UNIV {} d0 (fold (purge_one (live_purge now)) ss d0)" for ss d0
  proof (induction ss arbitrary: d0)
    case (Cons s ss)
    from R_trans [OF purge_one_frame Cons.IH] show ?case by simp
  qed (simp add: R_refl)
  have d1: "R UNIV {} d d1" by (rule shares_listed [OF list])
  from assms list have "d' = d1 \<or> d' = fold (purge_one (live_purge now)) l d1"
    by (cases e) (simp_all add: Purge_Run_def live_purge_def)
  with d1 R_trans [OF d1 fold] show ?thesis by auto
qed

end

end
