(* ===== verification/Runner.thy ===== *)
theory Runner
  imports JobFrames
begin

section \<open>internal/worker/worker.go: the runner and its jobs side by side\<close>

text \<open>
  \<open>Runner.Start\<close> gives every job a goroutine of its own, \<open>Wait\<close> blocks until the counter of
  the wait group is zero. Theory \<open>Workers\<close> has a goroutine's pass (\<open>runOnce\<close>); here the
  goroutines of one runner share the world and a context, their passes in any order. A pass
  is one step: what two passes do to each other halfway is the subject of theories
  \<open>Overlaps\<close> and \<open>Races\<close>.
\<close>

subsection \<open>Jobs and the runner\<close>

record 'w job =
  jb_Name :: string
  jb_Interval :: duration
  jb_Run :: "job_ctx \<Rightarrow> time \<Rightarrow> 'w job_body"     \<comment> \<open>with its context and the clock it reads\<close>

record 'w runner =
  rn_jobs :: "'w job list"
  rn_record :: "'w record_hook option"

definition Runner_New :: "'w record_hook option \<Rightarrow> 'w job list \<Rightarrow> 'w runner" where
  "Runner_New record_fn jobs = \<lparr>rn_jobs = jobs, rn_record = record_fn\<rparr>"

text \<open>The two jobs over the database and S3. Neither panics.\<close>

definition PurgeExpiredShares :: "(db \<times> 's) job" where
  "PurgeExpiredShares =
     \<lparr>jb_Name = ''purge-expired-shares'', jb_Interval = sweepInterval,
      jb_Run = \<lambda>ctx now w. (case Purge_Run (purge_in ctx (live_purge now)) (fst w) of (e, d) \<Rightarrow> (Inr e, (d, snd w)))\<rparr>"

definition PurgeExpiredUploads :: "(db \<times> 's) retention_job \<Rightarrow> (db \<times> 's) job" where
  "PurgeExpiredUploads j =
     \<lparr>jb_Name = ''purge-expired-uploads'', jb_Interval = sweepInterval,
      jb_Run = \<lambda>ctx now w. (case Retention_Run (retention_in ctx j) now w of ((e, _), w') \<Rightarrow> (Inr e, w'))\<rparr>"

definition record_run :: "(db \<times> 's) record_hook" where
  "record_run ctx name start fin err w =
     (case ctx of Live \<Rightarrow> (DBRunRecorder_Record name start fin err (fst w), snd w) | Over e \<Rightarrow> w)"

definition live_runner :: "'s s3_client \<Rightarrow> string \<Rightarrow> duration \<Rightarrow> duration \<Rightarrow> (db \<times> 's) runner" where
  "live_runner c bucket anon owned =
     Runner_New (Some record_run)
       [PurgeExpiredShares, PurgeExpiredUploads (live_retention c bucket anon owned)]"

lemma live_runner_simps [simp]:
  "rn_record (live_runner c bucket anon owned) = Some record_run"
  "rn_jobs (live_runner c bucket anon owned)
     = [PurgeExpiredShares, PurgeExpiredUploads (live_retention c bucket anon owned)]"
  by (simp_all add: live_runner_def Runner_New_def)

subsection \<open>Goroutines\<close>

text \<open>
  A goroutine has not run yet, or it waits in the \<open>select\<close>, or it has returned. One that waits
  knows when its ticker was made, when it last received a tick (at first the same time) and
  since when it waits. Ticks come at multiples of the interval after the ticker was made; the
  ticker keeps the first one after the last receipt and drops the others. \<open>rs_cancelled\<close> is
  the context the goroutines share, with the time of its cancellation. When it is cancelled
  and a tick is there as well, the \<open>select\<close> may take either; a goroutine that waits does not
  wait on for a tick that is still to come.
\<close>

datatype phase = Fresh | Waiting time time time | Stopped

record 'w running =
  rs_phases :: "phase list"
  rs_wg :: int                   \<comment> \<open>the counter of the wait group\<close>
  rs_cancelled :: "time option"
  rs_world :: 'w

definition start_job :: "'w running \<Rightarrow> 'w job \<Rightarrow> 'w running" where
  "start_job x j = x\<lparr>rs_wg := rs_wg x + 1, rs_phases := rs_phases x @ [Fresh]\<rparr>"

definition Runner_Start :: "'w runner \<Rightarrow> 'w \<Rightarrow> 'w running" where
  "Runner_Start r w =
     foldl start_job \<lparr>rs_phases = [], rs_wg = 0, rs_cancelled = None, rs_world = w\<rparr> (rn_jobs r)"

lemma foldl_start_job:
  "foldl start_job x js = x\<lparr>rs_wg := rs_wg x + int (length js), rs_phases := rs_phases x @ replicate (length js) Fresh\<rparr>"
  by (induction js arbitrary: x) (simp_all add: start_job_def algebra_simps)

lemma Runner_Start_eq:
  "Runner_Start r w = \<lparr>rs_phases = replicate (length (rn_jobs r)) Fresh, rs_wg = int (length (rn_jobs r)),
     rs_cancelled = None, rs_world = w\<rparr>"
  by (simp add: Runner_Start_def foldl_start_job)

definition Wait_returns :: "'w running \<Rightarrow> bool" where
  "Wait_returns x \<longleftrightarrow> rs_wg x = 0"

text \<open>
  A turn is a pass of one goroutine: its tick (for the first pass, the time its ticker is made)
  and the clock at its begin, at its first call and at its end.
\<close>

record turn =
  tn_job :: nat
  tn_tick :: time
  tn_start :: time
  tn_now :: time
  tn_fin :: time

datatype runner_event = Turn turn | Leave nat | Cancel time

definition run_turn :: "'w runner \<Rightarrow> job_ctx \<Rightarrow> turn \<Rightarrow> 'w \<Rightarrow> 'w" where
  "run_turn r ctx t =
     runOnce (rn_record r) (jb_Name (rn_jobs r ! tn_job t)) (\<lambda>run_ctx. jb_Run (rn_jobs r ! tn_job t) run_ctx (tn_now t))
       ctx (tn_start t) (tn_now t) (tn_fin t)"

definition shared_ctx :: "'w running \<Rightarrow> job_ctx" where
  "shared_ctx x = (case rs_cancelled x of None \<Rightarrow> Live | Some c \<Rightarrow> Over ''context canceled'')"

definition next_tick :: "duration \<Rightarrow> time \<Rightarrow> time \<Rightarrow> time" where
  "next_tick interval made received = made + interval * ((received - made) div interval + 1)"

text \<open>Whether a goroutine in a phase may take the turn: the begin of \<open>loop\<close>, or its \<open>select\<close>.\<close>

definition due :: "duration \<Rightarrow> time option \<Rightarrow> phase \<Rightarrow> turn \<Rightarrow> bool" where
  "due interval cancelled p t \<longleftrightarrow>
     (case p of
        Fresh \<Rightarrow> True
      | Waiting m received since \<Rightarrow>
          tn_tick t = next_tick interval m received \<and> since \<le> tn_start t
          \<and> (\<forall>c. cancelled = Some c \<longrightarrow> tn_tick t \<le> max since c)
      | Stopped \<Rightarrow> False)"

fun after_turn :: "phase \<Rightarrow> turn \<Rightarrow> phase" where
  "after_turn (Waiting m received since) t = Waiting m (tn_start t) (tn_fin t)"
| "after_turn p t = Waiting (tn_tick t) (tn_tick t) (tn_fin t)"

inductive runner_step :: "'w runner \<Rightarrow> 'w running \<Rightarrow> runner_event \<Rightarrow> 'w running \<Rightarrow> bool" for r where
  turn: "tn_job t < length (rn_jobs r) \<Longrightarrow> 0 < jb_Interval (rn_jobs r ! tn_job t)
    \<Longrightarrow> due (jb_Interval (rn_jobs r ! tn_job t)) (rs_cancelled x) (rs_phases x ! tn_job t) t
    \<Longrightarrow> tn_tick t \<le> tn_start t \<Longrightarrow> tn_start t \<le> tn_now t \<Longrightarrow> tn_now t \<le> tn_fin t
    \<Longrightarrow> (\<And>c. rs_cancelled x = Some c \<Longrightarrow> c \<le> tn_start t)
    \<Longrightarrow> runner_step r x (Turn t)
          (x\<lparr>rs_phases := (rs_phases x)[tn_job t := after_turn (rs_phases x ! tn_job t) t],
             rs_world := run_turn r (shared_ctx x) t (rs_world x)\<rparr>)"
| leave: "i < length (rn_jobs r) \<Longrightarrow> rs_cancelled x = Some c \<Longrightarrow> rs_phases x ! i = Waiting m received since
    \<Longrightarrow> runner_step r x (Leave i) (x\<lparr>rs_phases := (rs_phases x)[i := Stopped], rs_wg := rs_wg x - 1\<rparr>)"
| cancel: "rs_cancelled x = None \<Longrightarrow> (\<And>m received since. Waiting m received since \<in> set (rs_phases x) \<Longrightarrow> received \<le> c)
    \<Longrightarrow> runner_step r x (Cancel c) (x\<lparr>rs_cancelled := Some c\<rparr>)"

inductive_cases runner_turnE: "runner_step r x (Turn t) y"
inductive_cases runner_leaveE: "runner_step r x (Leave i) y"
inductive_cases runner_cancelE: "runner_step r x (Cancel c) y"

inductive runner_runs :: "'w runner \<Rightarrow> 'w running \<Rightarrow> runner_event list \<Rightarrow> 'w running \<Rightarrow> bool" for r x where
  start: "runner_runs r x [] x"
| more: "runner_runs r x es y \<Longrightarrow> runner_step r y e z \<Longrightarrow> runner_runs r x (es @ [e]) z"

lemma runs_appendE:
  assumes "runner_runs r x (es @ fs) z"
  obtains y where "runner_runs r x es y" "runner_runs r y fs z"
  using assms
proof (induction fs arbitrary: z thesis rule: rev_induct)
  case Nil
  then show ?case by (auto intro: runner_runs.start)
next
  case (snoc f fs)
  from snoc.prems(2) obtain y where y: "runner_runs r x (es @ fs) y" "runner_step r y f z"
    by (cases rule: runner_runs.cases) (auto simp flip: append_assoc)
  from snoc.IH [OF _ y(1)] obtain v where "runner_runs r x es v" "runner_runs r v fs y" by blast
  with y(2) snoc.prems(1) show ?case by (blast intro: runner_runs.more)
qed

fun turns :: "runner_event list \<Rightarrow> turn list" where
  "turns [] = []"
| "turns (Turn t # es) = t # turns es"
| "turns (e # es) = turns es"

lemma turns_append [simp]: "turns (es @ fs) = turns es @ turns fs"
  by (induction es rule: turns.induct) simp_all

definition cancelled_in :: "runner_event list \<Rightarrow> bool" where
  "cancelled_in es \<longleftrightarrow> (\<exists>c. Cancel c \<in> set es)"

text \<open>The passes of a run, each with the context the runner has when it begins.\<close>

fun passes :: "job_ctx \<Rightarrow> runner_event list \<Rightarrow> (job_ctx \<times> turn) list" where
  "passes ctx [] = []"
| "passes ctx (Turn t # es) = (ctx, t) # passes ctx es"
| "passes ctx (Leave i # es) = passes ctx es"
| "passes ctx (Cancel c # es) = passes (Over ''context canceled'') es"

lemma passes_append:
  "passes ctx (es @ fs) = passes ctx es @ passes (if cancelled_in es then Over ''context canceled'' else ctx) fs"
  by (induction ctx es rule: passes.induct) (auto simp: cancelled_in_def)

lemma runs_ctx: "runner_runs r (Runner_Start r w) es y \<Longrightarrow>
    rs_cancelled y \<noteq> None \<longleftrightarrow> cancelled_in es"
  by (induction rule: runner_runs.induct) (auto simp: Runner_Start_eq cancelled_in_def elim: runner_step.cases)

lemma runs_length: "runner_runs r x es y \<Longrightarrow> length (rs_phases y) = length (rs_phases x)"
  by (induction rule: runner_runs.induct) (auto elim: runner_step.cases)

text \<open>The counter of the wait group counts the goroutines that have not returned.\<close>

definition at_work :: "phase list \<Rightarrow> int" where
  "at_work ps = int (length (filter (\<lambda>p. p \<noteq> Stopped) ps))"

lemma at_work_update:
  "i < length ps \<Longrightarrow> ps ! i \<noteq> Stopped \<Longrightarrow>
     at_work (ps[i := p]) = at_work ps - (if p = Stopped then 1 else 0)"
proof (induction ps arbitrary: i)
  case (Cons q ps)
  then show ?case by (cases i) (auto simp: at_work_def)
qed simp

lemma step_counts:
  assumes "runner_step r x e y" "length (rs_phases x) = length (rn_jobs r)" "rs_wg x = at_work (rs_phases x)"
  shows "rs_wg y = at_work (rs_phases y)"
  using assms(1)
proof cases
  case (turn t)
  with assms(2,3) show ?thesis
    by (cases "rs_phases x ! tn_job t") (auto simp: at_work_update due_def)
qed (use assms(2,3) in \<open>auto simp: at_work_update\<close>)

lemma runs_counts:
  assumes "runner_runs r (Runner_Start r w) es y"
  shows "length (rs_phases y) = length (rn_jobs r)" "rs_wg y = at_work (rs_phases y)"
proof -
  from assms show "length (rs_phases y) = length (rn_jobs r)"
    using runs_length [OF assms] by (simp add: Runner_Start_eq)
  from assms have "length (rs_phases y) = length (rn_jobs r) \<and> rs_wg y = at_work (rs_phases y)"
  proof (induction rule: runner_runs.induct)
    case start
    show ?case by (simp add: Runner_Start_eq at_work_def)
  next
    case (more es y e z)
    with step_counts [OF more.hyps(2)] show ?case by (auto elim: runner_step.cases)
  qed
  then show "rs_wg y = at_work (rs_phases y)" ..
qed

lemma Wait_returns_iff:
  assumes "runner_runs r (Runner_Start r w) es y"
  shows "Wait_returns y \<longleftrightarrow> (\<forall>p \<in> set (rs_phases y). p = Stopped)"
  using runs_counts(2) [OF assms] by (auto simp: Wait_returns_def at_work_def filter_empty_conv)

subsection \<open>The ticker bounds the runs\<close>

lemma next_tick_bounds:
  assumes "(0::int) < k"
  shows "r < next_tick k m r" "next_tick k m r - k \<le> r"
proof -
  define q e where "q = (r - m) div k" and "e = (r - m) mod k"
  then have "r - m = k * q + e" "0 \<le> e" "e < k" using assms by simp_all
  moreover have "next_tick k m r = m + k * q + k" by (simp add: next_tick_def q_def algebra_simps)
  ultimately show "r < next_tick k m r" "next_tick k m r - k \<le> r" by simp_all
qed

lemma next_tick_last:
  assumes "(0::int) < k" "m + k * q \<le> s"
  shows "m + k * q \<le> next_tick k m s - k"
proof -
  from assms(2) have "k * q \<le> s - m" by simp
  then have "k * q div k \<le> (s - m) div k" using assms(1) by (intro zdiv_mono1)
  then have "q \<le> (s - m) div k" using assms(1) by simp
  then have "k * q \<le> k * ((s - m) div k)" using assms(1) by simp
  then show ?thesis by (simp add: next_tick_def algebra_simps)
qed

lemma next_tick_shift:
  assumes "(0::int) < k"
  shows "next_tick k (m + k * q) s = next_tick k m s"
proof -
  have "(s - (m + k * q)) div k = (s - m + k * (- q)) div k" by (simp add: algebra_simps)
  also have "\<dots> = (s - m) div k - q" using assms by (subst div_mult_self2) simp_all
  finally have "next_tick k (m + k * q) s = m + k * q + k * ((s - m) div k - q + 1)" by (simp only: next_tick_def)
  then show ?thesis by (simp add: next_tick_def algebra_simps)
qed

definition job_turns :: "nat \<Rightarrow> runner_event list \<Rightarrow> turn list" where
  "job_turns i es = filter (\<lambda>t. tn_job t = i) (turns es)"

lemma job_turns_simps [simp]:
  "job_turns i [] = []" "job_turns i (es @ fs) = job_turns i es @ job_turns i fs"
  "job_turns i [Turn t] = (if tn_job t = i then [t] else [])"
  "job_turns i [Leave n] = []" "job_turns i [Cancel c] = []"
  by (simp_all add: job_turns_def)

definition follows :: "duration \<Rightarrow> turn \<Rightarrow> turn \<Rightarrow> bool" where
  "follows k a b \<longleftrightarrow> tn_fin a \<le> tn_start b \<and> tn_tick a + k \<le> tn_tick b"

definition spaced :: "duration \<Rightarrow> phase \<Rightarrow> turn list \<Rightarrow> bool" where
  "spaced k p ts \<longleftrightarrow> sorted_wrt (follows k) ts \<and> (\<forall>t \<in> set ts. tn_tick t \<le> tn_start t)
     \<and> (p = Fresh \<longrightarrow> ts = [])
     \<and> (\<forall>m received since. p = Waiting m received since \<longrightarrow>
          (\<forall>t \<in> set ts. tn_fin t \<le> since \<and> tn_tick t \<le> next_tick k m received - k))"

lemma spaced_turn:
  assumes "spaced k p ts" "(0::int) < k" "due k cancelled p t" "tn_tick t \<le> tn_start t" "tn_start t \<le> tn_fin t"
  shows "spaced k (after_turn p t) (ts @ [t])"
proof (cases p)
  case Fresh
  have "next_tick k (tn_tick t) (tn_tick t) - k = tn_tick t" by (simp add: next_tick_def)
  with assms Fresh show ?thesis by (simp add: spaced_def)
next
  case (Waiting m received since)
  from assms(3) Waiting have t: "tn_tick t = next_tick k m received" "since \<le> tn_start t" by (simp_all add: due_def)
  have old: "tn_fin u \<le> since \<and> tn_tick u + k \<le> tn_tick t" if "u \<in> set ts" for u
    using assms(1) that Waiting t(1) by (fastforce simp: spaced_def)
  obtain q where "tn_tick t = m + k * q" using t(1) by (auto simp: next_tick_def)
  with next_tick_last [OF assms(2), of m q "tn_start t"] assms(4) have last: "tn_tick t \<le> next_tick k m (tn_start t) - k" by simp
  have "tn_tick u \<le> tn_tick t" if "u \<in> set ts" for u using old [OF that] assms(2) by simp
  with old last t(2) assms Waiting show ?thesis
    by (fastforce simp: spaced_def sorted_wrt_append follows_def)
qed (use assms in \<open>simp add: due_def\<close>)

lemma runs_spaced:
  assumes "runner_runs r (Runner_Start r w) es y" "i < length (rn_jobs r)"
  shows "spaced (jb_Interval (rn_jobs r ! i)) (rs_phases y ! i) (job_turns i es)"
  using assms(1)
proof (induction rule: runner_runs.induct)
  case start
  with assms(2) show ?case by (simp add: spaced_def Runner_Start_eq)
next
  case (more es y e z)
  have len: "length (rs_phases y) = length (rn_jobs r)" by (rule runs_counts(1) [OF more.hyps(1)])
  from more.hyps(2) show ?case
  proof cases
    case (turn t)
    show ?thesis
    proof (cases "tn_job t = i")
      case True
      with spaced_turn [OF more.IH _ _ turn(6), of "rs_cancelled y"] turn len show ?thesis by simp
    qed (use turn more.IH in simp)
  next
    case (leave j c m received since)
    with more.IH len show ?thesis by (cases "j = i") (simp_all add: spaced_def)
  next
    case (cancel c)
    with more.IH show ?thesis by simp
  qed
qed

subsection \<open>What the runs leave in the history\<close>

text \<open>
  \<open>silent\<close>: the history of runs is as before, and good weather stays good. Both jobs are
  silent, whatever their calls meet; the runner's hook adds its row, or nothing when the
  call fails.
\<close>

definition silent :: "db \<Rightarrow> db \<Rightarrow> bool" where
  "silent d d' \<longleftrightarrow> job_runs_t d' = job_runs_t d \<and> (weather d = [] \<longrightarrow> weather d' = [])"

lemma silent_trans: "silent d d1 \<Longrightarrow> silent d1 d2 \<Longrightarrow> silent d d2"
  by (simp add: silent_def)

lemma silent_outcome: "next_outcome d = (w, d1) \<Longrightarrow> silent d d1 \<and> (weather d = [] \<longrightarrow> w = Fine)"
  by (auto simp: next_outcome_def silent_def split: list.splits)

lemma silent_Exec: "(\<And>d1. silent d1 (snd (stmt d1))) \<Longrightarrow> silent d (snd (db_Exec stmt d))"
  using silent_outcome [of d] silent_trans
  by (fastforce simp: db_Exec_def split: prod.splits outcome.splits)

lemma silent_Query: "(\<And>d1. silent d1 (snd (q d1))) \<Longrightarrow> silent d (snd (db_Query q d))"
  using silent_outcome [of d] silent_trans
  by (fastforce simp: db_Query_def split: prod.splits outcome.splits sum.splits)

lemma silent_same [simp]:
  "silent d d" "silent d (d\<lparr>shares_t := ss\<rparr>)" "silent d (d\<lparr>uploads_t := us\<rparr>)" "silent d (d\<lparr>audit_t := as\<rparr>)"
  by (simp_all add: silent_def)

interpretation silence: job_frame "\<lambda>_ _. silent"
proof unfold_locales
  show "silent d d1" if "UploadStore_Delete key d = (r, d1)" for key d r d1
    using that silent_Exec [of "sql_delete_upload key" d]
    by (auto simp: UploadStore_Delete_def sql_delete_upload_def split: prod.splits sum.splits)
  show "silent d d1" if "UploadStore_MarkDeleteFailed key e d = (r, d1)" for key e d r d1
    using that silent_Exec [of "sql_mark_failed key e" d]
    by (auto simp: UploadStore_MarkDeleteFailed_def sql_mark_failed_def split: prod.splits sum.splits)
  show "silent d d1" if "DBAuditor_Record act subject detail d = (r, d1)" for act subject detail d r d1
    using that silent_Exec [of "sql_insert_audit act subject detail" d]
    by (auto simp: DBAuditor_Record_def sql_insert_audit_def split: prod.splits sum.splits)
  show "silent d d1" if "UploadStore_ListExpired a b n d = (lr, d1)" for a b n d lr d1
    using that silent_Query [of "sql_select_expired_uploads a b n" d]
    by (auto simp: UploadStore_ListExpired_def sql_select_expired_uploads_def split: prod.splits sum.splits)
  show "silent d d1" if "ShareStore_ListExpired now n d = (sr, d1)" for now n d sr d1
    using that silent_Query [of "sql_select_expired now n" d]
    by (auto simp: ShareStore_ListExpired_def sql_select_expired_def split: prod.splits sum.splits)
  show "silent d d1" if "ShareStore_DeleteByStorageKey key d = (kr, d1)" for key d kr d1
    using that silent_Query [of "sql_delete_shares (\<lambda>s. r_storage_key s = key)" d]
    by (auto simp: ShareStore_DeleteByStorageKey_def sql_delete_shares_def split: prod.splits sum.splits)
  show "silent d d1" if "ShareStore_DeleteBySlug slug d = (r, d1)" for slug d r d1
    using that silent_Exec [of "affected (sql_delete_shares (\<lambda>s. r_slug s = slug))" d]
    by (auto simp: ShareStore_DeleteBySlug_def affected_def sql_delete_shares_def split: prod.splits sum.splits)
qed (auto intro: silent_trans)

definition silent_job :: "(db \<times> 's) job \<Rightarrow> bool" where
  "silent_job j \<longleftrightarrow> (\<forall>ctx now w. silent (fst w) (fst (snd (jb_Run j ctx now w))))"

lemma purge_silent: "silent_job PurgeExpiredShares"
proof -
  have "silent d (snd (Purge_Run (purge_in ctx (live_purge now)) d))" for ctx now d
  proof (cases ctx)
    case Live
    then show ?thesis by (cases "Purge_Run (live_purge now) d") (simp add: silence.Purge_Run_frame)
  next
    case (Over m)
    with Purge_Run_over [of m now d] show ?thesis by auto
  qed
  then show ?thesis by (simp add: silent_job_def PurgeExpiredShares_def case_prod_beta)
qed

lemma live_jobs_silent: "\<forall>j \<in> set (rn_jobs (live_runner c bucket anon owned)). silent_job j"
proof -
  have "silent (fst w) (fst (snd (Retention_Run (retention_in ctx (live_retention c bucket anon owned)) now w)))" for ctx now w
  proof (cases ctx)
    case Live
    then show ?thesis by simp (rule silence.Retention_Run_frame [where K = UNIV], simp)
  next
    case (Over m)
    with Retention_Run_over [of m c bucket anon owned now w] show ?thesis by auto
  qed
  then have "silent_job (PurgeExpiredUploads (live_retention c bucket anon owned))"
    by (simp add: silent_job_def PurgeExpiredUploads_def case_prod_beta)
  with purge_silent show ?thesis by simp
qed

definition pass_result :: "'w runner \<Rightarrow> job_ctx \<Rightarrow> turn \<Rightarrow> 'w \<Rightarrow> goerr option \<times> 'w" where
  "pass_result r ctx t w =
     safeRun (jb_Run (rn_jobs r ! tn_job t) (WithTimeout ctx (tn_start t) perRunTimeout (tn_now t)) (tn_now t)) w"

text \<open>
  The row a pass should leave: who, from when to when, and how it ended. There is none only when
  the runner's context was over already or the database did not run the insert.
\<close>

definition insert_refused :: "db \<Rightarrow> bool" where
  "insert_refused d = (case fst (next_outcome d) of Refused m \<Rightarrow> True | _ \<Rightarrow> False)"

definition pass_row :: "(db \<times> 's) runner \<Rightarrow> job_ctx \<Rightarrow> turn \<Rightarrow> db \<times> 's \<Rightarrow> job_row list" where
  "pass_row r ctx t w =
     (case pass_result r ctx t w of (err, w1) \<Rightarrow>
        if ctx \<noteq> Live \<or> insert_refused (fst w1) then []
        else [\<lparr>j_job = jb_Name (rn_jobs r ! tn_job t), j_started_at = pg_ts (tn_start t),
               j_finished_at = pg_ts (tn_fin t),
               j_status = (if err = None then ''ok'' else ''error''), j_error = err\<rparr>])"

fun job_rows :: "(db \<times> 's) runner \<Rightarrow> (job_ctx \<times> turn) list \<Rightarrow> db \<times> 's \<Rightarrow> job_row list" where
  "job_rows r [] w = []"
| "job_rows r ((ctx, t) # ps) w = pass_row r ctx t w @ job_rows r ps (run_turn r ctx t w)"

lemma job_rows_append:
  "job_rows r (ps @ qs) w = job_rows r ps w @ job_rows r qs (fold (\<lambda>(ctx, t). run_turn r ctx t) ps w)"
  by (induction r ps w rule: job_rows.induct) simp_all

lemma runs_shared_ctx:
  assumes "runner_runs r (Runner_Start r w) es y"
  shows "shared_ctx y = (if cancelled_in es then Over ''context canceled'' else Live)"
  using runs_ctx [OF assms] by (auto simp: shared_ctx_def)

lemma runs_world:
  assumes "runner_runs r (Runner_Start r w) es y"
  shows "rs_world y = fold (\<lambda>(ctx, t). run_turn r ctx t) (passes Live es) w"
  using assms
proof (induction rule: runner_runs.induct)
  case start
  show ?case by (simp add: Runner_Start_eq)
next
  case (more es y e z)
  from more.hyps(2) more.IH runs_shared_ctx [OF more.hyps(1)] show ?case
    by (cases rule: runner_step.cases) (simp_all add: passes_append)
qed

lemma run_turn_history:
  assumes "rn_record r = Some record_run" "silent_job (rn_jobs r ! tn_job t)"
  shows "job_runs_t (fst (run_turn r ctx t w)) = job_runs_t (fst w) @ pass_row r ctx t w"
    and "weather (fst w) = [] \<Longrightarrow> weather (fst (run_turn r ctx t w)) = [] \<and> (ctx = Live \<longrightarrow> length (pass_row r ctx t w) = 1)"
    and "length (pass_row r ctx t w) \<le> 1"
proof -
  obtain err w1 where res: "pass_result r ctx t w = (err, w1)" by (rule prod.exhaust)
  obtain x w2 where body: "jb_Run (rn_jobs r ! tn_job t) (WithTimeout ctx (tn_start t) perRunTimeout (tn_now t)) (tn_now t) w = (x, w2)"
    by (rule prod.exhaust)
  have "w2 = w1" using res unfolding pass_result_def safeRun_def body by (cases x) simp_all
  have "silent (fst w) (fst (snd (x, w2)))" using assms(2) unfolding silent_job_def body [symmetric] by blast
  with \<open>w2 = w1\<close> have "silent (fst w) (fst w1)" by simp
  then have w1: "job_runs_t (fst w1) = job_runs_t (fst w)" "weather (fst w) = [] \<Longrightarrow> weather (fst w1) = []"
    by (simp_all add: silent_def)
  have run: "run_turn r ctx t w = record_run ctx (jb_Name (rn_jobs r ! tn_job t)) (tn_start t) (tn_fin t) err w1"
    using res unfolding run_turn_def runOnce_def pass_result_def assms(1) by (simp only: prod.case option.case)
  obtain out d1 where out: "next_outcome (fst w1) = (out, d1)" by (rule prod.exhaust)
  from silent_outcome [OF out] have d1: "job_runs_t d1 = job_runs_t (fst w1)"
    "weather (fst w1) = [] \<Longrightarrow> weather d1 = [] \<and> out = Fine" by (simp_all add: silent_def)
  let ?row = "\<lparr>j_job = jb_Name (rn_jobs r ! tn_job t), j_started_at = pg_ts (tn_start t), j_finished_at = pg_ts (tn_fin t),
      j_status = (if err = None then ''ok'' else ''error''), j_error = err\<rparr>"
  have row: "pass_row r ctx t w = (if ctx \<noteq> Live \<or> (\<exists>m. out = Refused m) then [] else [?row])"
    unfolding pass_row_def res insert_refused_def out prod.case fst_conv by (cases out) simp_all
  have here: "fst (run_turn r ctx t w) = (if ctx = Live then snd (db_Exec (sql_insert_job_run ?row) (fst w1)) else fst w1)"
    unfolding run record_run_def DBRunRecorder_Record_def by (cases ctx) simp_all
  have exec: "job_runs_t (snd (db_Exec (sql_insert_job_run ?row) (fst w1)))
        = job_runs_t d1 @ (if \<exists>m. out = Refused m then [] else [?row])"
    "weather (snd (db_Exec (sql_insert_job_run ?row) (fst w1))) = weather d1"
    by (cases out; simp add: db_Exec_def out sql_insert_job_run_def)+
  show "job_runs_t (fst (run_turn r ctx t w)) = job_runs_t (fst w) @ pass_row r ctx t w"
    unfolding here row using exec(1) w1(1) d1(1) by (cases "ctx = Live") simp_all
  show "weather (fst (run_turn r ctx t w)) = [] \<and> (ctx = Live \<longrightarrow> length (pass_row r ctx t w) = 1)" if "weather (fst w) = []"
    unfolding here row using exec(2) w1(2) [OF that] d1(2) by (cases "ctx = Live") simp_all
  show "length (pass_row r ctx t w) \<le> 1" by (simp add: pass_row_def case_prod_beta)
qed

lemma runs_history:
  assumes "runner_runs r (Runner_Start r w) es y"
    and "rn_record r = Some record_run" "\<forall>j \<in> set (rn_jobs r). silent_job j"
  shows "job_runs_t (fst (rs_world y)) = job_runs_t (fst w) @ job_rows r (passes Live es) w
    \<and> (weather (fst w) = [] \<longrightarrow> weather (fst (rs_world y)) = []
        \<and> (\<not> cancelled_in es \<longrightarrow> length (job_rows r (passes Live es) w) = length (turns es)))"
  using assms(1)
proof (induction rule: runner_runs.induct)
  case start
  show ?case by (simp add: Runner_Start_eq)
next
  case (more es y e z)
  from more.hyps(2) show ?case
  proof cases
    case (turn t)
    from turn(3) assms(3) have job: "silent_job (rn_jobs r ! tn_job t)" by simp
    note pass = run_turn_history [OF assms(2) job, where ctx = "shared_ctx y" and w = "rs_world y"]
    note world = runs_world [OF more.hyps(1)] and ctx = runs_shared_ctx [OF more.hyps(1)]
    from turn more.IH pass world ctx show ?thesis
      by (auto simp: passes_append job_rows_append cancelled_in_def)
  next
    case (leave i c m received since)
    with more.IH show ?thesis by (simp add: passes_append cancelled_in_def)
  next
    case (cancel c)
    with more.IH show ?thesis by (simp add: passes_append cancelled_in_def)
  qed
qed

text \<open>A goroutine that has not returned can make a pass, at any later time, until the context is cancelled.\<close>

lemma pass_possible:
  assumes "i < length (rn_jobs r)" "0 < jb_Interval (rn_jobs r ! i)" "rs_phases x ! i \<noteq> Stopped"
    and "rs_cancelled x = None \<or> rs_phases x ! i = Fresh"
  shows "\<exists>t z. tn_job t = i \<and> now \<le> tn_start t \<and> runner_step r x (Turn t) z"
proof -
  let ?k = "jb_Interval (rn_jobs r ! i)" and ?c = "case rs_cancelled x of None \<Rightarrow> now | Some c \<Rightarrow> c"
  obtain tick since where due: "\<And>t. tn_tick t = tick \<Longrightarrow> since \<le> tn_start t \<Longrightarrow> due ?k (rs_cancelled x) (rs_phases x ! i) t"
  proof (cases "rs_phases x ! i")
    case Fresh
    then show thesis by (intro that [of now now]) (simp add: due_def)
  next
    case (Waiting m received since)
    with assms(4) show thesis by (intro that [of "next_tick ?k m received" since]) (simp add: due_def)
  qed (use assms(3) in simp)
  let ?s = "max (max now ?c) (max tick since)"
  let ?t = "\<lparr>tn_job = i, tn_tick = tick, tn_start = ?s, tn_now = ?s, tn_fin = ?s\<rparr>"
  have "runner_step r x (Turn ?t) (x\<lparr>rs_phases := (rs_phases x)[tn_job ?t := after_turn (rs_phases x ! tn_job ?t) ?t],
      rs_world := run_turn r (shared_ctx x) ?t (rs_world x)\<rparr>)"
    using assms(1,2) due [of ?t] by (intro runner_step.turn) (simp_all add: max.coboundedI1)
  then show ?thesis by (intro exI [of _ ?t]) auto
qed


definition panicking_job :: "(db \<times> 's) job" where
  "panicking_job = \<lparr>jb_Name = ''boom'', jb_Interval = Hour, jb_Run = \<lambda>ctx now w. (Inl ''nil map'', w)\<rparr>"

definition sample_runner :: "(db \<times> unit) runner" where
  "sample_runner = Runner_New (Some record_run) [panicking_job, PurgeExpiredShares]"

definition sample_turn :: turn where
  "sample_turn = \<lparr>tn_job = 0, tn_tick = 0, tn_start = 0, tn_now = 1000, tn_fin = 2000\<rparr>"

lemma sample_jobs:
  "rn_record sample_runner = Some record_run" "rn_jobs sample_runner = [panicking_job, PurgeExpiredShares]"
  "\<forall>j \<in> set (rn_jobs sample_runner). silent_job j \<and> 0 < jb_Interval j"
proof -
  show "rn_record sample_runner = Some record_run" and jobs: "rn_jobs sample_runner = [panicking_job, PurgeExpiredShares]"
    by (simp_all add: sample_runner_def Runner_New_def)
  have "silent_job panicking_job" "0 < jb_Interval panicking_job" "0 < jb_Interval PurgeExpiredShares"
    by (simp_all add: silent_job_def panicking_job_def PurgeExpiredShares_def sweepInterval_def Hour_eq)
  with purge_silent show "\<forall>j \<in> set (rn_jobs sample_runner). silent_job j \<and> 0 < jb_Interval j"
    by (simp add: jobs)
qed

lemma sample_turned:
  "\<exists>y. runner_runs sample_runner (Runner_Start sample_runner (empty_db, ())) [Turn sample_turn] y
     \<and> rs_phases y = [Waiting 0 0 2000, Fresh]"
proof -
  let ?x = "Runner_Start sample_runner (empty_db, ())"
  let ?y = "?x\<lparr>rs_phases := (rs_phases ?x)[tn_job sample_turn := after_turn (rs_phases ?x ! tn_job sample_turn) sample_turn],
         rs_world := run_turn sample_runner (shared_ctx ?x) sample_turn (rs_world ?x)\<rparr>"
  have "runner_step sample_runner ?x (Turn sample_turn) ?y"
    using sample_jobs(2,3)
    by (intro runner_step.turn) (simp_all add: sample_turn_def due_def Runner_Start_eq)
  with runner_runs.start have "runner_runs sample_runner ?x ([] @ [Turn sample_turn]) ?y"
    by (rule runner_runs.more)
  moreover have "rs_phases ?y = [Waiting 0 0 2000, Fresh]"
    by (simp add: sample_turn_def Runner_Start_eq sample_jobs(2))
  ultimately show ?thesis by auto
qed


subsection \<open>Stopping\<close>

lemma stopped_cancelled:
  assumes "runner_runs r (Runner_Start r w) es y"
  shows "Stopped \<in> set (rs_phases y) \<Longrightarrow> cancelled_in es"
proof -
  from assms have "Stopped \<in> set (rs_phases y) \<longrightarrow> rs_cancelled y \<noteq> None"
  proof (induction rule: runner_runs.induct)
    case start
    show ?case by (simp add: Runner_Start_eq)
  next
    case (more es y e z)
    from more.hyps(2) show ?case
    proof cases
      case (turn t)
      have "after_turn (rs_phases y ! tn_job t) t \<noteq> Stopped" by (cases "rs_phases y ! tn_job t") simp_all
      then have "Stopped \<in> set (rs_phases z) \<longrightarrow> Stopped \<in> set (rs_phases y)"
        using turn(2) set_update_subset_insert by fastforce
      with more.IH turn(2) show ?thesis by simp
    qed (use more.IH in simp_all)
  qed
  with runs_ctx [OF assms] show "Stopped \<in> set (rs_phases y) \<Longrightarrow> cancelled_in es" by blast
qed

text \<open>
  How many steps a goroutine may still take once the context is cancelled: its first pass, one
  pass for a tick that is there already, and its return.
\<close>

definition steps_left :: "duration \<Rightarrow> time \<Rightarrow> phase \<Rightarrow> nat" where
  "steps_left k c p =
     (case p of
        Fresh \<Rightarrow> 3
      | Waiting m received since \<Rightarrow> if next_tick k m received \<le> max since c then 2 else 1
      | Stopped \<Rightarrow> 0)"

lemma steps_left_turn:
  assumes "due k (Some c) p t" "0 < k" "c \<le> tn_start t" "tn_fin t < next_tick k (tn_tick t) (tn_start t)"
  shows "steps_left k c (after_turn p t) < steps_left k c p"
proof (cases p)
  case (Waiting m received since)
  with assms(1) have tick: "tn_tick t = next_tick k m received" "next_tick k m received \<le> max since c" by (simp_all add: due_def)
  have "next_tick k (tn_tick t) (tn_start t) = next_tick k m (tn_start t)"
    using next_tick_shift [OF assms(2), of m "(received - m) div k + 1"] by (simp add: tick(1) next_tick_def)
  moreover have "tn_start t < next_tick k m (tn_start t)" using next_tick_bounds(1) [OF assms(2)] .
  ultimately show ?thesis using assms(3,4) tick(2) Waiting by (simp add: steps_left_def)
qed (use assms(1) in \<open>simp_all add: steps_left_def due_def\<close>)

lemma steps_left_update:
  assumes "i < length ps" "f p < f (ps ! i)"
  shows "sum_list (map f (ps[i := p])) < (sum_list (map f ps) :: nat)"
  using assms
proof (induction ps arbitrary: i)
  case (Cons q ps)
  then show ?case by (cases i) auto
qed simp

lemma cancelled_run:
  assumes "runner_runs r x es y" "rs_cancelled x = Some c" "length (rs_phases x) = length (rn_jobs r)"
    and "0 < k" "\<forall>j \<in> set (rn_jobs r). jb_Interval j = k"
  shows "rs_cancelled y = Some c \<and> length (rs_phases y) = length (rn_jobs r)
    \<and> ((\<forall>u \<in> set (turns es). tn_fin u < next_tick k (tn_tick u) (tn_start u)) \<longrightarrow>
         sum_list (map (steps_left k c) (rs_phases y)) + length es \<le> sum_list (map (steps_left k c) (rs_phases x)))"
  using assms(1)
proof (induction rule: runner_runs.induct)
  case start
  with assms show ?case by simp
next
  case (more es y e z)
  then have y: "rs_cancelled y = Some c" "length (rs_phases y) = length (rn_jobs r)" by simp_all
  from more.hyps(2) have ctx: "rs_cancelled z = Some c" "length (rs_phases z) = length (rn_jobs r)"
    using y by (auto elim: runner_step.cases)
  have "sum_list (map (steps_left k c) (rs_phases z)) < sum_list (map (steps_left k c) (rs_phases y))"
    if fin: "\<forall>u \<in> set (turns (es @ [e])). tn_fin u < next_tick k (tn_tick u) (tn_start u)"
    using more.hyps(2)
  proof cases
    case (turn t)
    from turn(3) assms(5) have "jb_Interval (rn_jobs r ! tn_job t) = k" by simp
    with turn y fin assms(4) have "steps_left k c (after_turn (rs_phases y ! tn_job t) t) < steps_left k c (rs_phases y ! tn_job t)"
      by (intro steps_left_turn) simp_all
    with turn y show ?thesis by (simp add: steps_left_update)
  next
    case (leave i c' m received since)
    then have "steps_left k c Stopped < steps_left k c (rs_phases y ! i)" by (simp add: steps_left_def)
    with leave y show ?thesis by (simp add: steps_left_update)
  next
    case (cancel c')
    with y show ?thesis by simp
  qed
  with more.IH ctx show ?case by fastforce
qed

lemma steps_left_bound: "sum_list (map (steps_left k c) ps) \<le> 3 * length ps"
  by (induction ps) (auto simp: steps_left_def split: phase.split)

text \<open>Passes of the two jobs in a context that is over change nothing.\<close>

lemma over_turn:
  assumes "tn_job t < 2"
  shows "run_turn (live_runner c bucket anon owned) (Over m) t w = w"
proof -
  obtain e where e: "Purge_Run (purge_in (Over m) (live_purge (tn_now t))) (fst w) = (Some e, fst w)"
    using Purge_Run_over by blast
  obtain e' where e': "Retention_Run (retention_in (Over m) (live_retention c bucket anon owned)) (tn_now t) w = ((Some e', []), w)"
    using Retention_Run_over by blast
  have "WithTimeout (Over m) (tn_start t) perRunTimeout (tn_now t) = Over m" by (simp add: WithTimeout_def)
  moreover from assms have "tn_job t = 0 \<or> tn_job t = 1" by auto
  ultimately show ?thesis
    by (auto simp: run_turn_def runOnce_def safeRun_def PurgeExpiredShares_def PurgeExpiredUploads_def
        record_run_def e e')
qed

lemma cancelled_world:
  assumes "runner_runs (live_runner c bucket anon owned) x es y" "rs_cancelled x \<noteq> None"
  shows "rs_cancelled y \<noteq> None \<and> rs_world y = rs_world x"
  using assms(1)
proof (induction rule: runner_runs.induct)
  case start
  with assms(2) show ?case by simp
next
  case (more es y e z)
  from more.hyps(2) show ?case
  proof cases
    case (turn t)
    with more.IH have "shared_ctx y = Over ''context canceled''" by (auto simp: shared_ctx_def)
    with turn more.IH show ?thesis by (simp add: over_turn)
  qed (use more.IH in simp_all)
qed

lemma cancelled_can_stop:
  assumes "length (rs_phases y) = length (rn_jobs r)" "rs_cancelled y \<noteq> None" "\<forall>j \<in> set (rn_jobs r). 0 < jb_Interval j"
    and "\<exists>p \<in> set (rs_phases y). p \<noteq> Stopped"
  shows "\<exists>e z. runner_step r y e z"
proof -
  from assms(1,4) obtain i where i: "i < length (rn_jobs r)" "rs_phases y ! i \<noteq> Stopped" by (metis in_set_conv_nth)
  show ?thesis
  proof (cases "rs_phases y ! i")
    case Fresh
    with pass_possible [OF i(1), of y] assms(3) i show ?thesis by fastforce
  next
    case (Waiting m received since)
    with assms(2) i(1) show ?thesis by (blast intro: runner_step.leave)
  qed (use i in simp)
qed

lemma stopped_no_turn:
  assumes "length (rs_phases y) = length (rn_jobs r)" "\<forall>p \<in> set (rs_phases y). p = Stopped"
  shows "\<not> runner_step r y (Turn t) z"
proof
  assume "runner_step r y (Turn t) z"
  then show False
  proof (rule runner_turnE)
    assume t: "tn_job t < length (rn_jobs r)"
      and due: "due (jb_Interval (rn_jobs r ! tn_job t)) (rs_cancelled y) (rs_phases y ! tn_job t) t"
    from t assms have "rs_phases y ! tn_job t = Stopped" by simp
    with due show False by (simp add: due_def)
  qed
qed

text \<open>
  C31. The server's runner stops when its context is cancelled, and only then. In every run of the
  two jobs: no goroutine returns before the cancellation; \<open>Wait\<close> returns exactly when every
  goroutine has returned, and no pass is made after that. From the cancellation on, the passes
  still made leave the database and the bucket as they were (each fails at once), the
  goroutines take at most six steps in all, provided such a pass is over before its
  ticker's next tick, and they are never stuck: until \<open>Wait\<close> returns some goroutine can take
  a step.
\<close>

theorem runner_stops:
  assumes "runner_runs (live_runner c bucket anon owned) (Runner_Start (live_runner c bucket anon owned) w) es z"
  shows "(Stopped \<in> set (rs_phases z) \<longrightarrow> cancelled_in es)
    \<and> (Wait_returns z \<longleftrightarrow> (\<forall>p \<in> set (rs_phases z). p = Stopped))
    \<and> (Wait_returns z \<longrightarrow> (\<forall>t z'. \<not> runner_step (live_runner c bucket anon owned) z (Turn t) z'))
    \<and> (\<forall>es1 at es2. es = es1 @ Cancel at # es2 \<longrightarrow>
         (\<exists>y. runner_runs (live_runner c bucket anon owned) (Runner_Start (live_runner c bucket anon owned) w) es1 y
            \<and> rs_world z = rs_world y)
         \<and> ((\<forall>u \<in> set (turns es2). tn_fin u < next_tick sweepInterval (tn_tick u) (tn_start u)) \<longrightarrow> length es2 \<le> 6)
         \<and> (Wait_returns z \<or> (\<exists>e z'. runner_step (live_runner c bucket anon owned) z e z')))"
proof -
  let ?r = "live_runner c bucket anon owned"
  have hour: "0 < sweepInterval" by (simp add: sweepInterval_def Hour_eq)
  have jobs: "\<forall>j \<in> set (rn_jobs ?r). jb_Interval j = sweepInterval"
    by (simp add: PurgeExpiredShares_def PurgeExpiredUploads_def)
  note wait = Wait_returns_iff [OF assms]
  have no_turn: "\<not> runner_step ?r z (Turn t) z'" if "Wait_returns z" for t z'
    using that wait stopped_no_turn [OF runs_counts(1) [OF assms]] by blast
  have after: "(\<exists>y. runner_runs ?r (Runner_Start ?r w) es1 y \<and> rs_world z = rs_world y)
      \<and> ((\<forall>u \<in> set (turns es2). tn_fin u < next_tick sweepInterval (tn_tick u) (tn_start u)) \<longrightarrow> length es2 \<le> 6)
      \<and> (Wait_returns z \<or> (\<exists>e z'. runner_step ?r z e z'))" if es: "es = es1 @ Cancel at # es2" for es1 at es2
  proof -
    from assms es have "runner_runs ?r (Runner_Start ?r w) ((es1 @ [Cancel at]) @ es2) z" by simp
    then obtain x where x: "runner_runs ?r (Runner_Start ?r w) (es1 @ [Cancel at]) x" "runner_runs ?r x es2 z"
      by (rule runs_appendE)
    from x(1) obtain y where y: "runner_runs ?r (Runner_Start ?r w) es1 y" "runner_step ?r y (Cancel at) x"
      by (cases rule: runner_runs.cases) auto
    from y(2) have at: "rs_cancelled x = Some at" "rs_world x = rs_world y" by (auto elim: runner_cancelE)
    note len = runs_counts(1) [OF x(1)]
    note left = cancelled_run [OF x(2) at(1) len hour jobs]
    have "sum_list (map (steps_left sweepInterval at) (rs_phases x)) \<le> 6"
      using steps_left_bound [of sweepInterval at "rs_phases x"] len by simp
    with left have bound: "(\<forall>u \<in> set (turns es2). tn_fin u < next_tick sweepInterval (tn_tick u) (tn_start u)) \<longrightarrow> length es2 \<le> 6"
      by linarith
    have world: "rs_world z = rs_world y" using cancelled_world [OF x(2)] at by simp
    have "\<exists>e z'. runner_step ?r z e z'" if "\<not> Wait_returns z"
      using that wait left jobs hour by (intro cancelled_can_stop) auto
    with bound world y(1) show ?thesis by blast
  qed
  show ?thesis using stopped_cancelled [OF assms] wait no_turn after by blast
qed

definition stopping_turn :: turn where
  "stopping_turn = \<lparr>tn_job = 0, tn_tick = 5, tn_start = 5, tn_now = 5, tn_fin = 6\<rparr>"

lemma stopping_run:
  "\<exists>z. runner_runs (live_runner c bucket anon owned) (Runner_Start (live_runner c bucket anon owned) w)
         [Cancel 5, Turn stopping_turn, Leave 0] z \<and> rs_phases z = [Stopped, Fresh]"
proof -
  let ?r = "live_runner c bucket anon owned"
  let ?x = "Runner_Start ?r w"
  let ?x1 = "?x\<lparr>rs_cancelled := Some 5\<rparr>"
  let ?x2 = "?x1\<lparr>rs_phases := (rs_phases ?x1)[tn_job stopping_turn := after_turn (rs_phases ?x1 ! tn_job stopping_turn) stopping_turn],
      rs_world := run_turn ?r (shared_ctx ?x1) stopping_turn (rs_world ?x1)\<rparr>"
  let ?x3 = "?x2\<lparr>rs_phases := (rs_phases ?x2)[0 := Stopped], rs_wg := rs_wg ?x2 - 1\<rparr>"
  have "runner_step ?r ?x (Cancel 5) ?x1" by (rule runner_step.cancel) (simp_all add: Runner_Start_eq)
  moreover have "runner_step ?r ?x1 (Turn stopping_turn) ?x2"
    by (rule runner_step.turn)
      (simp_all add: stopping_turn_def Runner_Start_eq due_def PurgeExpiredShares_def sweepInterval_def Hour_eq)
  moreover have "runner_step ?r ?x2 (Leave 0) ?x3"
    by (rule runner_step.leave [where m = 5 and received = 5 and since = 6])
      (simp_all add: stopping_turn_def Runner_Start_eq)
  ultimately have "runner_runs ?r ?x ((([] @ [Cancel 5]) @ [Turn stopping_turn]) @ [Leave 0]) ?x3"
    by (intro runner_runs.more [OF runner_runs.more [OF runner_runs.more [OF runner_runs.start]]])
  moreover have "rs_phases ?x3 = [Stopped, Fresh]" by (simp add: stopping_turn_def Runner_Start_eq)
  ultimately show ?thesis by auto
qed

theorem runner_stops_witness:
  "\<exists>z. runner_runs (live_runner two_page_client ''b'' Hour Hour)
         (Runner_Start (live_runner two_page_client ''b'' Hour Hour) (empty_db, ())) [Cancel 5, Turn stopping_turn, Leave 0] z
     \<and> \<not> Wait_returns z \<and> rs_world z = (empty_db, ())
     \<and> (\<exists>e z'. runner_step (live_runner two_page_client ''b'' Hour Hour) z e z')"
proof -
  let ?r = "live_runner two_page_client ''b'' Hour Hour :: (db \<times> unit) runner"
  obtain z where z: "runner_runs ?r (Runner_Start ?r (empty_db, ())) [Cancel 5, Turn stopping_turn, Leave 0] z"
    "rs_phases z = [Stopped, Fresh]" using stopping_run by blast
  note all = runner_stops [OF z(1)]
  from all z(2) have going: "\<not> Wait_returns z" by simp
  from all obtain y where "runner_runs ?r (Runner_Start ?r (empty_db, ())) [] y" "rs_world z = rs_world y"
    by (metis append_Nil)
  then have "rs_world z = (empty_db, ())" by (auto simp: Runner_Start_eq elim: runner_runs.cases)
  moreover have "\<exists>e z'. runner_step ?r z e z'" using all going by (metis append_Nil)
  ultimately show ?thesis using z(1) going by blast
qed

end
