(* ===== verification/Server.thy ===== *)
theory Server
  imports Routes Multipart Lifetimes Migrate Runner
begin

section \<open>internal/server/server.go and cmd: start-up, wiring and shutdown\<close>

text \<open>
  \<open>New\<close> decides which parts of the service exist, \<open>Start\<close> runs it and takes it down. What
  these functions call outside the repository (the S3 configuration, the connection pool,
  the key set, the HTTP server, signals) is the record \<open>startup\<close> and the argument \<open>life\<close>;
  the migrations and the verifier are the models of their packages. Both commands of \<open>cmd\<close>
  exit with the error they are given.
\<close>

subsection \<open>Start-up\<close>

text \<open>
  \<open>NewS3Storage\<close> (\<open>storage/s3.go\<close>): what it asks the SDK to load, region, static
  credentials and an HTTP client with its limits, and the options it sets on the client,
  path style and the base endpoint. \<open>load\<close> is the SDK's \<open>LoadDefaultConfig\<close>. The client
  itself is the parameter of theory \<open>ObjectStore\<close>; here are its settings.
\<close>

record aws_settings =
  aw_Timeout :: duration
  aw_MaxIdleConns :: int
  aw_MaxIdleConnsPerHost :: int
  aw_IdleConnTimeout :: duration
  aw_Region :: string
  aw_AccessKeyID :: string
  aw_SecretAccessKey :: string

record s3_storage =
  so_aws :: aws_settings
  so_UsePathStyle :: bool
  so_BaseEndpoint :: "string option"
  so_bucketName :: string

definition aws_settings_of :: "s3_config \<Rightarrow> aws_settings" where
  "aws_settings_of cfg =
     \<lparr>aw_Timeout = 10 * Minute, aw_MaxIdleConns = 100, aw_MaxIdleConnsPerHost = 20,
      aw_IdleConnTimeout = 90 * Second, aw_Region = s3_Region cfg,
      aw_AccessKeyID = s3_AccessKeyID cfg, aw_SecretAccessKey = s3_SecretAccessKey cfg\<rparr>"

definition NewS3Storage :: "(aws_settings \<Rightarrow> goerr option) \<Rightarrow> s3_config \<Rightarrow> goerr + s3_storage" where
  "NewS3Storage load cfg =
     (case load (aws_settings_of cfg) of
        Some e \<Rightarrow> Inl (Wrapped (Sprintf ''loading AWS config: %w'' []) e)
      | None \<Rightarrow>
          Inr \<lparr>so_aws = aws_settings_of cfg,
               so_UsePathStyle = s3_ForcePathStyle cfg,
               so_BaseEndpoint =
                 (if s3_Endpoint cfg \<noteq> []
                  then Some ((if \<not> s3_UseSSL cfg then ''http://'' else ''https://'') @ s3_Endpoint cfg)
                  else None),
               so_bucketName = s3_BucketName cfg\<rparr>)"

record 'a startup =
  st_LoadAWS :: "aws_settings \<Rightarrow> goerr option"
  st_NewPool :: "string \<Rightarrow> goerr option"
  st_Ping :: "string \<Rightarrow> goerr option"
  st_Migrations :: embedded
  st_ApplySQL :: "string \<Rightarrow> 'a \<Rightarrow> goerr + 'a"
  st_FetchJWKS :: "string \<Rightarrow> goerr + jwks_answer"
  st_Keyfunc :: "string \<Rightarrow> goerr + jwt_parser"

text \<open>
  With a database the stores and the runner are all set, without one none is: \<open>sv_Database\<close>
  stands for them. The runner's jobs are the share purge and the retention job with the two
  windows.
\<close>

record server =
  sv_Config :: config
  sv_Storage :: s3_storage
  sv_Database :: bool
  sv_Verifier :: "verifier option"
  sv_Windows :: "(duration \<times> duration) option"

definition window :: "int \<Rightarrow> duration" where
  "window hours = wrap64 (hours * Hour)"

definition open_database ::
  "'a startup \<Rightarrow> string \<Rightarrow> 'a mdb \<Rightarrow> goerr option \<times> 'a mdb" where
  "open_database st url m =
     (case st_NewPool st url of
        Some e \<Rightarrow> (failed ''connecting to database: %w'' [] e, m)
      | None \<Rightarrow>
          (case st_Ping st url of
             Some e \<Rightarrow> (failed ''pinging database: %w'' [] e, m)
           | None \<Rightarrow>
               (case Run (st_Migrations st) (st_ApplySQL st) m of
                  (Some e, m1) \<Rightarrow> (failed ''running migrations: %w'' [] e, m1)
                | (None, m1) \<Rightarrow> (None, m1))))"

definition New :: "'a startup \<Rightarrow> config \<Rightarrow> 'a mdb \<Rightarrow> (goerr + server) \<times> 'a mdb" where
  "New st cfg m =
     (case NewS3Storage (st_LoadAWS st) (cf_S3 cfg) of
        Inl e \<Rightarrow> (Inl (Wrapped (Sprintf ''initializing storage: %w'' []) e), m)
      | Inr storage \<Rightarrow>
          (case (if cf_DatabaseURL cfg \<noteq> [] then open_database st (cf_DatabaseURL cfg) m else (None, m)) of
             (Some e, m1) \<Rightarrow> (Inl e, m1)
           | (None, m1) \<Rightarrow>
               (let db = (cf_DatabaseURL cfg \<noteq> []);
                    auth = cf_Auth cfg;
                    verifier = (if ac_JWKSURL auth \<noteq> []
                      then (case NewVerifier (st_FetchJWKS st) (st_Keyfunc st) (ac_JWKSURL auth)
                                   (ac_Issuer auth) (ac_Audience auth) of
                              Inl e \<Rightarrow> None | Inr v \<Rightarrow> Some v)
                      else None)
                in (Inr \<lparr>sv_Config = cfg, sv_Storage = storage, sv_Database = db, sv_Verifier = verifier,
                        sv_Windows = (if db then Some (window (rc_AnonHours (cf_Retention cfg)),
                                                       window (rc_OwnedHours (cf_Retention cfg)))
                                      else None)\<rparr>, m1))))"

text \<open>What \<open>Start\<close> hands to \<open>SetupRoutes\<close>, and the share handler made there.\<close>

definition route_deps :: "server \<Rightarrow> deps" where
  "route_deps s = \<lparr>dp_Multipart = True, dp_Shares = sv_Database s, dp_Verifier = sv_Verifier s,
     dp_Config = cf_Server (sv_Config s)\<rparr>"

definition server_share_handler :: "'s s3_client \<Rightarrow> server \<Rightarrow> (db \<times> 's) share_handler option" where
  "server_share_handler c s =
     (if sv_Database s
      then Some (NewShareHandler db_share_store (s3_files c (so_bucketName (sv_Storage s)))
             (Some db_upload_lookup) (window (rc_AnonHours (cf_Retention (sv_Config s))))
             (window (rc_OwnedHours (cf_Retention (sv_Config s)))))
      else None)"

definition server_retention :: "'s s3_client \<Rightarrow> server \<Rightarrow> (db \<times> 's) retention_job option" where
  "server_retention c s =
     map_option (\<lambda>(anon, owned). live_retention c (so_bucketName (sv_Storage s)) anon owned) (sv_Windows s)"

text \<open>The runner with its two jobs, made when there is a database.\<close>

definition server_runner :: "'s s3_client \<Rightarrow> server \<Rightarrow> (db \<times> 's) runner option" where
  "server_runner c s =
     map_option (\<lambda>(anon, owned). live_runner c (so_bucketName (sv_Storage s)) anon owned) (sv_Windows s)"

subsection \<open>Running and shutting down\<close>

text \<open>
  What happens around a running server: gin knows the mode or \<open>SetMode\<close> panics, the proxies are accepted or not, the listener fails
  or a signal arrives, \<open>Shutdown\<close> drains in time or not, the workers stop in time or not,
  each a function of what \<open>Start\<close> hands it. The result of \<open>Start\<close> lists what it did to
  the workers and the pool, in order.
\<close>

record http_server =
  hs_Addr :: string
  hs_ReadTimeout :: duration
  hs_WriteTimeout :: duration
  hs_IdleTimeout :: duration

definition seconds :: "int \<Rightarrow> duration" where
  "seconds n = wrap64 (n * Second)"

definition http_server_of :: "server_config \<Rightarrow> http_server" where
  "http_server_of cfg =
     \<lparr>hs_Addr = '':'' @ itoa (sc_Port cfg),
      hs_ReadTimeout = seconds (sc_ReadTimeout cfg),
      hs_WriteTimeout = seconds (sc_WriteTimeout cfg),
      hs_IdleTimeout = seconds (sc_IdleTimeout cfg)\<rparr>"

record life =
  lf_SetMode :: "string \<Rightarrow> string option"          \<comment> \<open>the message of its panic\<close>
  lf_SetTrustedProxies :: "string list \<Rightarrow> goerr option"
  lf_Listen :: "http_server \<Rightarrow> goerr option"     \<comment> \<open>\<open>None\<close>: the signal came first\<close>
  lf_Shutdown :: "duration \<Rightarrow> goerr option"
  lf_WorkersStop :: "duration \<Rightarrow> bool"

datatype action = WorkersStarted | HttpDown | WorkersCancelled | WorkersDone | WorkersLate | PoolClosed

text \<open>How a function of the main goroutine ends; a panic there ends the process.\<close>

datatype ending = Returned "goerr option" | Panicked string

definition Start :: "server \<Rightarrow> life \<Rightarrow> ending \<times> action list" where
  "Start s lf =
     (case lf_SetMode lf (lc_Mode (cf_Logging (sv_Config s))) of
        Some msg \<Rightarrow> (Panicked msg, [])
      | None \<Rightarrow>
     (case lf_SetTrustedProxies lf (sc_TrustedProxies (cf_Server (sv_Config s))) of
        Some e \<Rightarrow> (Returned (failed ''setting trusted proxies: %w'' [] e), [])
      | None \<Rightarrow>
          (let started = (if sv_Database s then [WorkersStarted] else []);
               shutdownTimeout = seconds (sc_ShutdownTimeout (cf_Server (sv_Config s)))
           in case lf_Listen lf (http_server_of (cf_Server (sv_Config s))) of
                Some e \<Rightarrow> (Returned (Some e), started @ [WorkersCancelled])
              | None \<Rightarrow>
                  (case lf_Shutdown lf shutdownTimeout of
                     Some e \<Rightarrow> (Returned (failed ''shutting down: %w'' [] e), started @ [WorkersCancelled])
                   | None \<Rightarrow>
                       (Returned None, started @ [HttpDown, WorkersCancelled]
                          @ (if sv_Database s
                             then [if lf_WorkersStop lf shutdownTimeout then WorkersDone else WorkersLate, PoolClosed]
                             else []))))))"

text \<open>
  The pool is closed only under a server that has stopped answering and whose workers have
  been told to stop; no return leaves started workers uncancelled, and nothing starts
  when the mode or the proxies are refused.
\<close>

lemma Start_shuts_down:
  assumes "Start s lf = (r, acts)"
  shows "(PoolClosed \<in> set acts \<longleftrightarrow> r = Returned None \<and> sv_Database s)
    \<and> (WorkersStarted \<in> set acts \<longrightarrow> WorkersCancelled \<in> set acts)
    \<and> (PoolClosed \<in> set acts \<longrightarrow> (\<exists>x \<in> {WorkersDone, WorkersLate}.
         acts = [WorkersStarted, HttpDown, WorkersCancelled, x, PoolClosed]))
    \<and> (\<forall>msg. r = Panicked msg \<longrightarrow> acts = [])"
  using assms by (auto simp: Start_def Let_def failed_def split: option.splits if_splits)

text \<open>\<open>cmd/main.go\<close>: \<open>Returned None\<close> when the process ends regularly.\<close>

definition main :: "'a startup \<Rightarrow> env \<Rightarrow> life \<Rightarrow> 'a mdb \<Rightarrow> ending" where
  "main st env lf m =
     (case New st (fst (Load env)) m of
        (Inl e, m1) \<Rightarrow> Returned (failed ''failed to start: %v'' [] e)
      | (Inr srv, m1) \<Rightarrow>
          (case fst (Start srv lf) of
             Panicked msg \<Rightarrow> Panicked msg
           | Returned (Some e) \<Rightarrow> Returned (failed ''server error: %v'' [] e)
           | Returned None \<Rightarrow> Returned None))"

text \<open>\<open>cmd/migrate/main.go\<close>.\<close>

definition migrate_main :: "'a startup \<Rightarrow> env \<Rightarrow> 'a mdb \<Rightarrow> goerr option \<times> 'a mdb" where
  "migrate_main st env m =
     (let url = env ''DATABASE_URL''
      in if url = [] then (Some (Fault ''DATABASE_URL is required''), m)
         else case st_NewPool st url of
           Some e \<Rightarrow> (failed ''connect: %v'' [] e, m)
         | None \<Rightarrow>
             (case Run (st_Migrations st) (st_ApplySQL st) m of
                (Some e, m1) \<Rightarrow> (failed ''migrate: %v'' [] e, m1)
              | (None, m1) \<Rightarrow> (None, m1)))"

subsection \<open>What a server that started is\<close>

lemma open_database_ok:
  assumes "open_database st url m = (None, m')"
  shows "st_NewPool st url = None \<and> st_Ping st url = None
    \<and> Run (st_Migrations st) (st_ApplySQL st) m = (None, m')"
  using assms by (auto simp: open_database_def failed_def split: option.splits prod.splits)

lemma NewVerifier_settings:
  "NewVerifier fetch keyfunc url iss aud = Inr v \<Longrightarrow> v_issuer v = iss \<and> v_audience v = aud"
  by (auto simp: NewVerifier_def split: if_splits option.splits sum.splits)

lemma NewS3Storage_bucket:
  "NewS3Storage load cfg = Inr s \<Longrightarrow> so_bucketName s = s3_BucketName cfg"
  by (auto simp: NewS3Storage_def split: option.splits)

lemma New_fields:
  assumes "New st cfg m = (Inr srv, m')"
  shows "sv_Config srv = cfg" "NewS3Storage (st_LoadAWS st) (cf_S3 cfg) = Inr (sv_Storage srv)" "sv_Database srv \<longleftrightarrow> cf_DatabaseURL cfg \<noteq> []"
    "sv_Windows srv = (if sv_Database srv then Some (window (rc_AnonHours (cf_Retention cfg)),
        window (rc_OwnedHours (cf_Retention cfg))) else None)"
    "sv_Database srv \<Longrightarrow> Run (st_Migrations st) (st_ApplySQL st) m = (None, m')"
    "\<not> sv_Database srv \<Longrightarrow> m' = m"
    "sv_Verifier srv = Some v \<Longrightarrow> ac_JWKSURL (cf_Auth cfg) \<noteq> [] \<and> v_issuer v = ac_Issuer (cf_Auth cfg)
       \<and> v_audience v = ac_Audience (cf_Auth cfg)"
proof -
  let ?db = "if cf_DatabaseURL cfg \<noteq> [] then open_database st (cf_DatabaseURL cfg) m else (None, m)"
  obtain e m1 where db: "?db = (e, m1)" by (rule prod.exhaust)
  obtain storage where s3: "NewS3Storage (st_LoadAWS st) (cf_S3 cfg) = Inr storage"
    using assms by (auto simp: New_def split: sum.splits)
  have e: "e = None" using assms s3 db by (cases e) (simp_all add: New_def split: if_splits)
  from assms s3 db e have srv: "m' = m1" "sv_Config srv = cfg"
    "NewS3Storage (st_LoadAWS st) (cf_S3 cfg) = Inr (sv_Storage srv)" "sv_Database srv \<longleftrightarrow> cf_DatabaseURL cfg \<noteq> []"
    "sv_Windows srv = (if sv_Database srv then Some (window (rc_AnonHours (cf_Retention cfg)),
        window (rc_OwnedHours (cf_Retention cfg))) else None)"
    "sv_Verifier srv = (if ac_JWKSURL (cf_Auth cfg) \<noteq> []
       then (case NewVerifier (st_FetchJWKS st) (st_Keyfunc st) (ac_JWKSURL (cf_Auth cfg))
                    (ac_Issuer (cf_Auth cfg)) (ac_Audience (cf_Auth cfg)) of
               Inl e \<Rightarrow> None | Inr v \<Rightarrow> Some v) else None)"
    by (auto simp: New_def Let_def split: if_splits)
  then show "sv_Config srv = cfg" "NewS3Storage (st_LoadAWS st) (cf_S3 cfg) = Inr (sv_Storage srv)" "sv_Database srv \<longleftrightarrow> cf_DatabaseURL cfg \<noteq> []"
    "sv_Windows srv = (if sv_Database srv then Some (window (rc_AnonHours (cf_Retention cfg)),
        window (rc_OwnedHours (cf_Retention cfg))) else None)"
    by simp_all
  show "sv_Database srv \<Longrightarrow> Run (st_Migrations st) (st_ApplySQL st) m = (None, m')"
    using db e srv(1,4) open_database_ok [of st "cf_DatabaseURL cfg" m m1] by simp
  show "\<not> sv_Database srv \<Longrightarrow> m' = m" using db srv(1,4) by simp
  show "sv_Verifier srv = Some v \<Longrightarrow> ac_JWKSURL (cf_Auth cfg) \<noteq> [] \<and> v_issuer v = ac_Issuer (cf_Auth cfg)
       \<and> v_audience v = ac_Audience (cf_Auth cfg)"
    using srv(6) NewVerifier_settings by (fastforce split: if_splits sum.splits)
qed

text \<open>
  C29. A server that starts is wired consistently: with a database every pending migration has
  been applied before it serves, the share handler and the retention job of its runner work with
  the same two windows on the same bucket, and the handler has the backends its properties assume;
  without one it has neither shares nor jobs and never touched a database. Only the tokens
  of the configured issuer and audience are accepted, and a broken key set never keeps the
  server from starting.
\<close>

theorem server_wiring:
  assumes "New st cfg m = (Inr srv, m')" "migrationFiles (st_Migrations st) = Inr files"
  shows "(if cf_DatabaseURL cfg \<noteq> [] then
      versions m' = versions m @ filter (\<lambda>name. name \<notin> set (versions m)) files
      \<and> (\<exists>h j. server_share_handler c srv = Some h \<and> server_retention c srv = Some j
           \<and> wired c (s3_BucketName (cf_S3 cfg)) h
           \<and> j = live_retention c (s3_BucketName (cf_S3 cfg)) (h_anonTTL h) (h_ownedTTL h)
           \<and> map_option rn_jobs (server_runner c srv) = Some [PurgeExpiredShares, PurgeExpiredUploads j])
    else m' = m \<and> server_share_handler c srv = None \<and> server_runner c srv = None)
    \<and> (\<forall>v. dp_Verifier (route_deps srv) = Some v \<longrightarrow>
         v_issuer v = ac_Issuer (cf_Auth cfg) \<and> v_audience v = ac_Audience (cf_Auth cfg))
    \<and> (dp_Shares (route_deps srv) \<longleftrightarrow> cf_DatabaseURL cfg \<noteq> [])
    \<and> (\<forall>auth. isl (fst (New st (cfg\<lparr>cf_Auth := auth\<rparr>) m)) = False)"
proof -
  note fields = New_fields [OF assms(1)]
  have auth: "isl (fst (New st (cfg\<lparr>cf_Auth := a\<rparr>) m)) = False" for a
  proof -
    let ?db = "if cf_DatabaseURL cfg \<noteq> [] then open_database st (cf_DatabaseURL cfg) m else (None, m)"
    obtain e m1 where db: "?db = (e, m1)" by (rule prod.exhaust)
    obtain storage where s3: "NewS3Storage (st_LoadAWS st) (cf_S3 cfg) = Inr storage"
      using assms(1) by (auto simp: New_def split: sum.splits)
    have "e = None" using assms(1) s3 db by (cases e) (simp_all add: New_def split: if_splits)
    with s3 db show ?thesis by (simp add: New_def Let_def split: if_splits)
  qed
  have database: "versions m' = versions m @ filter (\<lambda>name. name \<notin> set (versions m)) files"
    if "cf_DatabaseURL cfg \<noteq> []"
  proof -
    from that fields(3,5) have "Run (st_Migrations st) (st_ApplySQL st) m = (None, m')" by simp
    from Run_prefix [OF this assms(2)] show ?thesis by (auto simp: migrated_def pending_def)
  qed
  have bucket: "so_bucketName (sv_Storage srv) = s3_BucketName (cf_S3 cfg)"
    using fields(2) by (rule NewS3Storage_bucket)
  have handler: "\<exists>h j. server_share_handler c srv = Some h \<and> server_retention c srv = Some j
           \<and> wired c (s3_BucketName (cf_S3 cfg)) h
           \<and> j = live_retention c (s3_BucketName (cf_S3 cfg)) (h_anonTTL h) (h_ownedTTL h)
           \<and> map_option rn_jobs (server_runner c srv) = Some [PurgeExpiredShares, PurgeExpiredUploads j]"
    if "cf_DatabaseURL cfg \<noteq> []"
    using that fields(1-4) bucket
    by (simp add: server_share_handler_def server_retention_def server_runner_def live_runner_def Runner_New_def wired_new)
      (simp add: NewShareHandler_def)
  have none: "m' = m \<and> server_share_handler c srv = None \<and> server_runner c srv = None"
    if "cf_DatabaseURL cfg = []"
    using that fields by (simp add: server_share_handler_def server_runner_def)
  show ?thesis
    using database handler none auth fields(3,7) by (auto simp: route_deps_def)
qed

definition sample_startup :: "string list startup" where
  "sample_startup = \<lparr>st_LoadAWS = \<lambda>_. None, st_NewPool = \<lambda>_. None, st_Ping = \<lambda>_. None,
     st_Migrations = two_files, st_ApplySQL = toy_sql, st_FetchJWKS = \<lambda>_. Inl (Fault ''timeout''),
     st_Keyfunc = \<lambda>_. Inl (Fault ''timeout'')\<rparr>"

definition sample_env :: env where
  "sample_env key = (if key = ''DATABASE_URL'' then ''postgres://db'' else [])"

theorem server_wiring_witness:
  "\<exists>srv m'. New sample_startup (fst (Load sample_env)) (blank []) = (Inr srv, m')
     \<and> versions m' = [''1.sql'', ''2.sql''] \<and> dp_Shares (route_deps srv)"
proof -
  have files: "migrationFiles (st_Migrations sample_startup) = Inr [''1.sql'', ''2.sql'']"
    unfolding sample_startup_def by code_simp
  have url: "cf_DatabaseURL (fst (Load sample_env)) = ''postgres://db''"
    by (simp add: Load_def sample_env_def getEnv_def Let_def)
  have run: "fst (Run two_files toy_sql (blank [])) = None" by code_simp
  then obtain m1 where m1: "Run two_files toy_sql (blank []) = (None, m1)" by (metis prod.collapse)
  have "open_database sample_startup ''postgres://db'' (blank []) = (None, m1)"
    "st_LoadAWS sample_startup x = None" for x
    using m1 by (simp_all add: open_database_def sample_startup_def)
  then obtain srv m' where new: "New sample_startup (fst (Load sample_env)) (blank []) = (Inr srv, m')"
    by (simp add: New_def NewS3Storage_def url Let_def)
  from server_wiring [OF new files] url new show ?thesis
    by (auto simp: versions_def blank_def)
qed

end
