(* ===== verification/Sweeps.thy ===== *)
theory Sweeps
  imports Retention Multipart
begin

section \<open>Sweep after sweep\<close>

text \<open>
  The runner calls the retention job again every hour. A single sweep handles at most 200
  rows; here is what a series of sweeps achieves, and what no later sweep makes good: a
  multipart upload that is completed after its row was dropped.
\<close>

fun sweeps :: "'w retention_job \<Rightarrow> time list \<Rightarrow> 'w \<Rightarrow> 'w" where
  "sweeps j [] w = w"
| "sweeps j (t # ts) w = sweeps j ts (snd (Retention_Run j t w))"

subsection \<open>The backlog drains\<close>

definition due_at :: "duration \<Rightarrow> duration \<Rightarrow> time \<Rightarrow> upload_row \<Rightarrow> bool" where
  "due_at anon owned t = past_window (t + wrap64 (- anon)) (t + wrap64 (- owned))"

lemma due_at_mono: "due_at anon owned t u \<Longrightarrow> t \<le> t' \<Longrightarrow> due_at anon owned t' u"
  using pg_ts_mono [of "t + wrap64 (- anon)" "t' + wrap64 (- anon)"]
    pg_ts_mono [of "t + wrap64 (- owned)" "t' + wrap64 (- owned)"]
  by (auto simp: due_at_def past_window_def)

lemma swept_db_ok: "db_ok d \<Longrightarrow> db_ok (swept_db objs rows d)"
  by (simp add: db_ok_def swept_db_def distinct_map_filter)

lemma sweep_step:
  fixes due :: "upload_row \<Rightarrow> bool"
  assumes "s3_healthy c bucket objs" "weather d = []" "db_ok d" "due = due_at anon owned t"
  obtains d1 s1 where "snd (Retention_Run (live_retention c bucket anon owned) t (d, s)) = (d1, s1)"
    "weather d1 = []" "db_ok d1" "objs s1 = objs s |` (- u_storage_key ` set (batch due d))"
    "set (uploads_t d1) = set (uploads_t d) - set (batch due d)"
    "length (uploads_t d1) + length (batch due d) = length (uploads_t d)"
proof -
  let ?B = "batch due d"
  from sweep_batch [OF assms(1-3) assms(4) [unfolded due_at_def], of s] obtain s1 where
    s1: "objs s1 = objs s |` (- u_storage_key ` set ?B)" and
    run: "snd (Retention_Run (live_retention c bucket anon owned) t (d, s)) = (swept_db (objs s) ?B d, s1)"
    by auto
  note B = batch_rows [OF assms(3), of due]
  from assms(3) have keys: "distinct (map u_storage_key (uploads_t d))" by (simp add: db_ok_def)
  then have same: "u_storage_key u \<in> u_storage_key ` set ?B \<longleftrightarrow> u \<in> set ?B" if "u \<in> set (uploads_t d)" for u
    using that B(2) by (auto simp: distinct_map inj_on_def)
  then have up: "uploads_t (swept_db (objs s) ?B d) = filter (\<lambda>u. u \<notin> set ?B) (uploads_t d)"
    by (auto intro: filter_cong)
  have dist: "distinct (uploads_t d)" "distinct ?B" using keys B(1) by (simp_all add: distinct_map)
  have "{u \<in> set (uploads_t d). u \<in> set ?B} = set ?B" using B(2) by auto
  then have "length (filter (\<lambda>u. u \<in> set ?B) (uploads_t d)) = length ?B"
    using dist by (metis distinct_card distinct_filter set_filter)
  with sum_length_filter_compl [of "\<lambda>u. u \<in> set ?B" "uploads_t d"]
  have "length (filter (\<lambda>u. u \<notin> set ?B) (uploads_t d)) + length ?B = length (uploads_t d)" by simp
  with run s1 up assms(2) swept_db_ok [OF assms(3)] show thesis
    by (intro that [of "swept_db (objs s) ?B d" s1]) auto
qed

text \<open>A batch is full, or everything that is due is in it.\<close>

lemma batch_full:
  assumes "length (batch due d) \<noteq> 200"
  shows "set (batch due d) = {u \<in> set (uploads_t d). due u}"
  using assms by (auto simp: batch_def min_def split: if_splits)

lemma drained:
  assumes "s3_healthy c bucket objs" "weather d = []" "db_ok d" "\<forall>t \<in> set ts. t0 \<le> t"
    and "length (uploads_t d) \<le> 200 * length ts \<or> (\<forall>u \<in> set (uploads_t d). \<not> due_at anon owned t0 u)"
  shows "\<exists>d' s'. sweeps (live_retention c bucket anon owned) ts (d, s) = (d', s')
    \<and> set (uploads_t d') \<subseteq> set (uploads_t d) \<and> (\<forall>u \<in> set (uploads_t d'). \<not> due_at anon owned t0 u)
    \<and> (\<forall>key. objs s' key \<noteq> None \<longrightarrow> objs s' key = objs s key)
    \<and> (\<forall>u \<in> set (uploads_t d) - set (uploads_t d'). objs s' (u_storage_key u) = None)
    \<and> (\<forall>u \<in> set (uploads_t d). (\<forall>t \<in> set ts. \<not> due_at anon owned t u) \<longrightarrow>
         u \<in> set (uploads_t d') \<and> objs s' (u_storage_key u) = objs s (u_storage_key u))"
  using assms(2-5)
proof (induction ts arbitrary: d s)
  case Nil
  then show ?case by auto
next
  case (Cons t ts)
  let ?due = "due_at anon owned t"
  obtain d1 s1 where run: "snd (Retention_Run (live_retention c bucket anon owned) t (d, s)) = (d1, s1)"
    and d1: "weather d1 = []" "db_ok d1" "set (uploads_t d1) = set (uploads_t d) - set (batch ?due d)"
      "length (uploads_t d1) + length (batch ?due d) = length (uploads_t d)"
    and s1: "objs s1 = objs s |` (- u_storage_key ` set (batch ?due d))"
    by (rule sweep_step [OF assms(1) Cons.prems(1,2) refl])
  have goal: "length (uploads_t d1) \<le> 200 * length ts \<or> (\<forall>u \<in> set (uploads_t d1). \<not> due_at anon owned t0 u)"
  proof (cases "length (batch ?due d) = 200")
    case True
    with Cons.prems(4) d1(3,4) show ?thesis by auto
  next
    case False
    from batch_full [OF this] Cons.prems(3) d1(3) due_at_mono [of anon owned t0 _ t] show ?thesis by auto
  qed
  from Cons.IH [OF d1(1,2) _ goal, of s1] Cons.prems(3) obtain d' s' where
    IH: "sweeps (live_retention c bucket anon owned) ts (d1, s1) = (d', s')"
      "set (uploads_t d') \<subseteq> set (uploads_t d1)" "\<forall>u \<in> set (uploads_t d'). \<not> due_at anon owned t0 u"
      "\<forall>key. objs s' key \<noteq> None \<longrightarrow> objs s' key = objs s1 key"
      "\<forall>u \<in> set (uploads_t d1) - set (uploads_t d'). objs s' (u_storage_key u) = None"
      "\<forall>u \<in> set (uploads_t d1). (\<forall>t \<in> set ts. \<not> due_at anon owned t u) \<longrightarrow>
         u \<in> set (uploads_t d') \<and> objs s' (u_storage_key u) = objs s1 (u_storage_key u)"
    by auto
  note B = batch_rows(2) [OF Cons.prems(2), of ?due]
  have gone: "objs s' (u_storage_key u) = None" if "u \<in> set (batch ?due d)" for u
  proof -
    from that s1 have "objs s1 (u_storage_key u) = None" by (simp add: restrict_map_def)
    with IH(4) show ?thesis by metis
  qed
  have kept: "u \<in> set (uploads_t d1) \<and> objs s1 (u_storage_key u) = objs s (u_storage_key u)"
    if "u \<in> set (uploads_t d)" "\<not> ?due u" for u
  proof -
    from that B have out: "u \<notin> set (batch ?due d)" by auto
    from Cons.prems(2) have "distinct (map u_storage_key (uploads_t d))" by (simp add: db_ok_def)
    with that(1) B out have "u_storage_key u \<notin> u_storage_key ` set (batch ?due d)"
      by (auto simp: distinct_map inj_on_def)
    with out that(1) d1(3) s1 show ?thesis by simp
  qed
  have "objs s' key = objs s key" if "objs s' key \<noteq> None" for key
    using IH(4) that s1 by (metis restrict_in restrict_out)
  then have shrink: "\<forall>key. objs s' key \<noteq> None \<longrightarrow> objs s' key = objs s key" by blast
  have sub: "set (uploads_t d') \<subseteq> set (uploads_t d)" using IH(2) d1(3) by blast
  have lost: "\<forall>u \<in> set (uploads_t d) - set (uploads_t d'). objs s' (u_storage_key u) = None"
    using gone IH(5) d1(3) by blast
  have stay: "u \<in> set (uploads_t d') \<and> objs s' (u_storage_key u) = objs s (u_storage_key u)"
    if "u \<in> set (uploads_t d)" "\<forall>t \<in> set (t # ts). \<not> due_at anon owned t u" for u
    using kept [OF that(1)] that(2) IH(6) by simp
  have "sweeps (live_retention c bucket anon owned) (t # ts) (d, s) = (d', s')" using run IH(1) by simp
  with IH(3) shrink sub lost stay show ?case by blast
qed

text \<open>
  C35. The backlog drains: with S3 and the database answering, one sweep per 200 upload rows is
  enough to remove every upload that was past its window when the series began, object
  and row, however many there are and although every sweep takes at most 200; an upload
  within its window at every sweep keeps both.
\<close>

theorem repeated_sweeps_drain:
  assumes "s3_healthy c bucket objs" "weather d = []" "db_ok d" "\<forall>t \<in> set ts. t0 \<le> t"
    and "length (uploads_t d) \<le> 200 * length ts"
  shows "\<exists>d' s'. sweeps (live_retention c bucket anon owned) ts (d, s) = (d', s')
    \<and> (\<forall>u \<in> set (uploads_t d). due_at anon owned t0 u \<longrightarrow>
         u \<notin> set (uploads_t d') \<and> objs s' (u_storage_key u) = None)
    \<and> (\<forall>u \<in> set (uploads_t d). (\<forall>t \<in> set ts. \<not> due_at anon owned t u) \<longrightarrow>
         u \<in> set (uploads_t d') \<and> objs s' (u_storage_key u) = objs s (u_storage_key u))"
proof -
  from drained [OF assms(1-4), of anon owned s] assms(5) obtain d' s' where
    d': "sweeps (live_retention c bucket anon owned) ts (d, s) = (d', s')"
      "\<forall>u \<in> set (uploads_t d'). \<not> due_at anon owned t0 u"
      "\<forall>u \<in> set (uploads_t d) - set (uploads_t d'). objs s' (u_storage_key u) = None"
      "\<forall>u \<in> set (uploads_t d). (\<forall>t \<in> set ts. \<not> due_at anon owned t u) \<longrightarrow>
         u \<in> set (uploads_t d') \<and> objs s' (u_storage_key u) = objs s (u_storage_key u)"
    by blast
  then show ?thesis by blast
qed

theorem repeated_sweeps_drain_witness:
  "\<exists>d' s'. sweeps (live_retention bucket_client ''b'' Hour Hour) [2 * Hour] (old_db, [''k'' \<mapsto> 5]) = (d', s')
     \<and> old_upload \<notin> set (uploads_t d') \<and> s' ''k'' = None"
proof -
  have due: "due_at Hour Hour (2 * Hour) old_upload"
    by (simp add: due_at_def past_window_def pg_ts_def Hour_eq wrap64_def)
  have db: "weather old_db = []" "db_ok old_db" "uploads_t old_db = [old_upload]"
    by (simp_all add: old_db_def db_ok_def)
  show ?thesis
    using repeated_sweeps_drain [OF bucket_client_healthy db(1,2), where bucket = "''b''"
        and ts = "[2 * Hour]" and ?t0.0 = "2 * Hour" and anon = Hour and owned = Hour and s = "[''k'' \<mapsto> 5]"]
    by (auto simp: db(3) due)
qed

subsection \<open>An upload resumed too late\<close>

lemma on_s3_frame [simp]: "fst (snd (on_s3 f w)) = fst w"
  by (simp add: on_s3_def split: prod.splits)

lemma Complete_frame:
  assumes "Complete (live_multipart c bucket maxBytes) body w = Some (r, w')"
  shows "fst w' = fst w"
  using assms
  by (auto simp: Complete_def s3_multipart_def on_s3_eq Let_def split: option.splits sum.splits prod.splits if_splits)

lemma sweep_untracked:
  assumes "s3_contract c bucket objects" "key \<notin> upload_keys (fst w)"
  shows "key \<notin> upload_keys (fst (sweeps (live_retention c bucket anon owned) ts w))
    \<and> (key \<in> objects (snd w) \<longrightarrow> key \<in> objects (snd (sweeps (live_retention c bucket anon owned) ts w)))"
  using assms(2)
proof (induction ts arbitrary: w)
  case (Cons t ts)
  let ?w = "snd (Retention_Run (live_retention c bucket anon owned) t w)"
  have "live_sweep.swept_to c bucket objects
      (due_uploads (t + wrap64 (- anon)) (t + wrap64 (- owned)) (fst w)) w ?w"
    using live_sweep.Run_safe [OF assms(1), where w = w and now = t and anon = anon and owned = owned] by simp
  moreover have "due_uploads a b (fst w) \<subseteq> upload_keys (fst w)" for a b
    by (auto simp: due_uploads_def upload_keys_def)
  ultimately have "key \<notin> upload_keys (fst ?w)" "key \<in> objects (snd w) \<longrightarrow> key \<in> objects (snd ?w)"
    using Cons.prems unfolding live_sweep.swept_to_def by blast+
  with Cons.IH [of ?w] show ?case by simp
qed simp

text \<open>
  A multipart upload that is resumed too late is never deleted: once a sweep has dropped the
  row of an unfinished upload (there is no object yet, so it counts as abandoned), the
  session in S3 lives on, \<open>Complete\<close> still succeeds, the row does not come back, and no
  later sweep, however many there are, removes the object or even sees it.
\<close>

theorem late_completion_never_deleted:
  assumes "s3_contract c bucket objects"
    and "Retention_Run (live_retention c bucket anon owned) t (d, s) = (r, (d1, s1))"
    and "mr_StorageKey req \<in> upload_keys d" "mr_StorageKey req \<notin> upload_keys d1"
    and "Complete (live_multipart c bucket maxBytes) (Some req) (d1, s2) = Some (Success resp, w3)"
  shows "mr_StorageKey req \<notin> objects s1 \<and> fst w3 = d1
    \<and> (let w4 = sweeps (live_retention c bucket anon owned) ts w3
       in mr_StorageKey req \<notin> upload_keys (fst w4)
          \<and> (mr_StorageKey req \<in> objects (snd w3) \<longrightarrow> mr_StorageKey req \<in> objects (snd w4)))"
proof -
  have "live_sweep.swept_to c bucket objects
      (due_uploads (t + wrap64 (- anon)) (t + wrap64 (- owned)) d) (d, s) (d1, s1)"
    using live_sweep.Run_safe [OF assms(1), where w = "(d, s)" and now = t and anon = anon and owned = owned] assms(2)
    by simp
  with assms(3,4) have "mr_StorageKey req \<notin> objects s1"
    unfolding live_sweep.swept_to_def by auto
  moreover have w3: "fst w3 = d1" using Complete_frame [OF assms(5)] by simp
  moreover from w3 assms(4) have "mr_StorageKey req \<notin> upload_keys (fst w3)" by simp
  note sweep_untracked [OF assms(1) this, of anon owned ts]
  ultimately show ?thesis by (simp add: Let_def)
qed

text \<open>A bucket with a pending session for every key: completing it makes the object.\<close>

definition session_client :: "(string \<rightharpoonup> int) s3_client" where
  "session_client = bucket_client\<lparr>
     c_ListParts := \<lambda>_ _ _ _ s. (Inr \<lparr>pg_Parts = [sample_sdk_part 1], pg_IsTruncated = Some False,
        pg_NextPartNumberMarker = None\<rparr>, s),
     c_CompleteMultipartUpload := \<lambda>_ key _ _ s. (None, s(key \<mapsto> 9))\<rparr>"

lemma session_client_contract: "s3_contract session_client bucket dom"
  using bucket_client_contract [of bucket] by (simp add: s3_contract_def session_client_def)

definition late_complete :: complete_request where
  "late_complete = \<lparr>mr_StorageKey = ''k'', mr_UploadID = ''u'',
     mc_Parts = [\<lparr>p_PartNumber = 1, p_ETag = ''e'', p_Size = 9\<rparr>]\<rparr>"

lemma late_dropped:
  "Retention_Run (live_retention session_client ''b'' Hour Hour) (2 * Hour) (old_db, Map.empty)
     = ((None, [Dropped]), (old_db\<lparr>uploads_t := []\<rparr>, Map.empty))"
proof -
  have due: "past_window (2 * Hour + wrap64 (- Hour)) (2 * Hour + wrap64 (- Hour)) old_upload"
    by (simp add: past_window_def pg_ts_def Hour_eq wrap64_def)
  have db: "weather old_db = []" "uploads_t old_db = [old_upload]" by (simp_all add: old_db_def)
  have "sweep_one (live_retention session_client ''b'' Hour Hour) (scanUpload old_upload) (old_db, Map.empty)
      = (Dropped, (old_db\<lparr>uploads_t := []\<rparr>, Map.empty))"
    by (simp add: sweep_one_def sweep_absent_def on_s3_def on_db_def S3_GetFileSize_def wrapNotFound_def
        session_client_def bucket_client_def scanUpload_def fair_worker_calls db)
  with fair_ListExpired_one [OF db due] show ?thesis
    by (simp add: Retention_Run_def on_db_def)
qed

lemma late_completed:
  "Complete (live_multipart session_client ''b'' 100) (Some late_complete) (d, s)
     = Some (Success \<lparr>mcr_StorageKey = ''k'', mcr_ID = fst (Split ''k''), mcr_Name = snd (Split ''k'')\<rparr>, (d, s(''k'' \<mapsto> 9)))"
proof -
  have "validKey ''k''" by code_simp
  moreover have "S3_ListParts session_client ''b'' ''k'' ''u'' s = Some (Inr [to_part (sample_sdk_part 1)], s)"
    unfolding S3_ListParts_def
    by (subst list_parts_loop.simps) (simp add: session_client_def Let_def)
  ultimately show ?thesis
    by (simp add: Complete_def ShouldBindJSON_def complete_tags_def ref_tags_def late_complete_def
        s3_multipart_def on_s3_def S3_CompleteMultipartUpload_def total_size_def to_part_def
        sample_sdk_part_def wrap64_def session_client_def)
qed

theorem late_completion_never_deleted_witness:
  "\<forall>ts. \<exists>d' s'. sweeps (live_retention session_client ''b'' Hour Hour) ts (old_db\<lparr>uploads_t := []\<rparr>, [''k'' \<mapsto> 9]) = (d', s')
     \<and> ''k'' \<notin> upload_keys d' \<and> ''k'' \<in> dom s'"
proof
  fix ts
  have "mr_StorageKey late_complete \<in> upload_keys old_db"
    "mr_StorageKey late_complete \<notin> upload_keys (old_db\<lparr>uploads_t := []\<rparr>)"
    by (simp_all add: late_complete_def upload_keys_def old_db_def)
  note late = late_completion_never_deleted [OF session_client_contract late_dropped this late_completed [where s = Map.empty], where ts = ts]
  have key: "mr_StorageKey late_complete = ''k''" by (simp add: late_complete_def)
  obtain d' s' where w4: "sweeps (live_retention session_client ''b'' Hour Hour) ts (old_db\<lparr>uploads_t := []\<rparr>, [''k'' \<mapsto> 9]) = (d', s')"
    by (rule prod.exhaust)
  with late show "\<exists>d' s'. sweeps (live_retention session_client ''b'' Hour Hour) ts (old_db\<lparr>uploads_t := []\<rparr>, [''k'' \<mapsto> 9]) = (d', s')
     \<and> ''k'' \<notin> upload_keys d' \<and> ''k'' \<in> dom s'"
    by (simp add: key Let_def)
qed

end
