(* ===== verification/Upkeep.thy ===== *)
theory Upkeep
  imports Lifetimes Sweeps JobFrames
begin

section \<open>What uploads and jobs do to the shares\<close>

text \<open>
  Everything that is not the share API, seen from the shares table: the upload handlers leave
  it alone, the jobs only remove rows. \<open>loses K d d'\<close>: on the way from \<open>d\<close> to \<open>d'\<close> only
  shares of files in \<open>K\<close> were removed, and the constraints still hold.
\<close>

definition loses :: "string set \<Rightarrow> db \<Rightarrow> db \<Rightarrow> bool" where
  "loses K d d' \<longleftrightarrow> uuid_in d' = uuid_in d
     \<and> (\<exists>P. shares_t d' = filter P (shares_t d) \<and> (\<forall>r \<in> set (shares_t d). \<not> P r \<longrightarrow> r_storage_key r \<in> K))
     \<and> (distinct (map u_storage_key (uploads_t d)) \<longrightarrow> distinct (map u_storage_key (uploads_t d')))"

named_theorems upkeep "operations that lose nothing but what they should"

lemma loses_kept:
  assumes "uuid_in d' = uuid_in d" "shares_t d' = shares_t d"
    and "distinct (map u_storage_key (uploads_t d)) \<Longrightarrow> distinct (map u_storage_key (uploads_t d'))"
  shows "loses K d d'"
  using assms by (auto simp: loses_def intro!: exI [of _ "\<lambda>_. True"])

lemma loses_refl [simp]: "loses K d d"
  by (simp add: loses_kept)

lemma loses_mono: "loses K d d' \<Longrightarrow> K \<subseteq> K' \<Longrightarrow> loses K' d d'"
  unfolding loses_def by blast

lemma loses_trans [trans]:
  assumes "loses K d d1" "loses K d1 d2"
  shows "loses K d d2"
proof -
  from assms obtain P Q where P: "shares_t d1 = filter P (shares_t d)"
      "\<forall>r \<in> set (shares_t d). \<not> P r \<longrightarrow> r_storage_key r \<in> K"
    and Q: "shares_t d2 = filter Q (shares_t d1)" "\<forall>r \<in> set (shares_t d1). \<not> Q r \<longrightarrow> r_storage_key r \<in> K"
    unfolding loses_def by blast
  then have "shares_t d2 = filter (\<lambda>r. P r \<and> Q r) (shares_t d)"
    "\<forall>r \<in> set (shares_t d). \<not> (P r \<and> Q r) \<longrightarrow> r_storage_key r \<in> K" by auto
  with assms show ?thesis by (auto simp: loses_def)
qed

lemma loses_same: "same_tables d d' \<Longrightarrow> loses K d d'"
  by (rule loses_kept) (auto simp: same_tables_def)

lemma loses_Exec:
  assumes "db_Exec stmt d = (r, d')" "\<And>d1 x d2. stmt d1 = (x, d2) \<Longrightarrow> loses K d1 d2"
  shows "loses K d d'"
  using assms(1)
  by (cases rule: db_Exec_cases) (meson assms(2) loses_same loses_trans)+

lemma loses_Query:
  assumes "db_Query stmt d = (r, d')" "\<And>d1 x d2. stmt d1 = (x, d2) \<Longrightarrow> loses K d1 d2"
  shows "loses K d d'"
  using assms(1)
  by (cases rule: db_Query_cases) (meson assms(2) loses_same loses_trans)+

subsection \<open>The store methods\<close>

lemma loses_methods [upkeep]:
  "UploadStore_Create up d = (r, d') \<Longrightarrow> loses K d d'"
  "UploadStore_Delete key d = (r, d') \<Longrightarrow> loses K d d'"
  "UploadStore_MarkDeleteFailed key e d = (r, d') \<Longrightarrow> loses K d d'"
  "DBAuditor_Record act subject detail d = (r, d') \<Longrightarrow> loses K d d'"
  "UploadStore_ListExpired a b n d = (lr, d') \<Longrightarrow> loses K d d'"
  "ShareStore_ListExpired now n d = (sr, d') \<Longrightarrow> loses K d d'"
  "ShareStore_DeleteByStorageKey key d = (kr, d') \<Longrightarrow> loses {key} d d'"
  "ShareStore_DeleteBySlug slug d = (r, d') \<Longrightarrow> loses UNIV d d'"
proof -
  show "loses K d d'" if "UploadStore_Create up d = (r, d')"
  proof -
    from that obtain x where "db_Exec (sql_insert_upload up) d = (x, d')"
      by (auto simp: UploadStore_Create_def split: prod.splits sum.splits)
    then show ?thesis
    proof (rule loses_Exec)
      show "loses K d1 d2" if "sql_insert_upload up d1 = (x, d2)" for d1 x d2
        using that by (cases rule: sql_insert_upload_cases) (auto simp: upload_values_def intro!: loses_kept)
    qed
  qed
  show "loses K d d'" if "UploadStore_Delete key d = (r, d')"
  proof -
    from that obtain x where "db_Exec (sql_delete_upload key) d = (x, d')"
      by (auto simp: UploadStore_Delete_def split: prod.splits sum.splits)
    then show ?thesis
      by (rule loses_Exec) (auto simp: sql_delete_upload_def distinct_map_filter intro!: loses_kept)
  qed
  show "loses K d d'" if "UploadStore_MarkDeleteFailed key e d = (r, d')"
  proof -
    from that obtain x where "db_Exec (sql_mark_failed key e) d = (x, d')"
      by (auto simp: UploadStore_MarkDeleteFailed_def split: prod.splits sum.splits)
    then show ?thesis
    proof (rule loses_Exec)
      show "loses K d1 d2" if "sql_mark_failed key e d1 = (x, d2)" for d1 x d2
      proof -
        from that have "d2 = d1\<lparr>uploads_t := map (bump key e) (uploads_t d1)\<rparr>"
          by (auto simp: sql_mark_failed_def bump_def [abs_def])
        moreover have "map u_storage_key (map (bump key e) us) = map u_storage_key us" for us by simp
        ultimately show ?thesis
          by (simp add: loses_kept del: map_map)
      qed
    qed
  qed
  show "loses K d d'" if "DBAuditor_Record act subject detail d = (r, d')"
  proof -
    from that obtain x where "db_Exec (sql_insert_audit act subject detail) d = (x, d')"
      by (auto simp: DBAuditor_Record_def split: prod.splits sum.splits)
    then show ?thesis
      by (rule loses_Exec) (auto simp: sql_insert_audit_def intro!: loses_kept)
  qed
  show "loses K d d'" if "UploadStore_ListExpired a b n d = (lr, d')"
    using that UploadStore_ListExpired_effect [of a b n d "fst lr" "snd lr" d'] by (simp add: loses_same)
  show "loses K d d'" if "ShareStore_ListExpired now n d = (sr, d')"
    using that ShareStore_ListExpired_effect [of now n d "fst sr" "snd sr" d'] by (simp add: loses_same)
  have removed: "loses L d1 d2" if "sql_delete_shares p d1 = (x, d2)" "\<And>r. p r \<Longrightarrow> r_storage_key r \<in> L" for p L d1 x d2
    using that by (auto simp: sql_delete_shares_def loses_def intro!: exI [of _ "\<lambda>r. \<not> p r"])
  show "loses {key} d d'" if "ShareStore_DeleteByStorageKey key d = (kr, d')"
  proof -
    from that obtain x where "db_Query (sql_delete_shares (\<lambda>s. r_storage_key s = key)) d = (x, d')"
      by (fastforce simp: ShareStore_DeleteByStorageKey_def split: prod.splits sum.splits)
    then show ?thesis by (rule loses_Query) (erule removed, simp)
  qed
  show "loses UNIV d d'" if "ShareStore_DeleteBySlug slug d = (r, d')"
  proof -
    from that obtain x where "db_Exec (affected (sql_delete_shares (\<lambda>s. r_slug s = slug))) d = (x, d')"
      by (auto simp: ShareStore_DeleteBySlug_def split: prod.splits sum.splits)
    then show ?thesis
      by (rule loses_Exec) (auto simp: affected_def sql_delete_shares_def intro!: removed)
  qed
qed

subsection \<open>What that means for the shares\<close>

lemma loses_view:
  assumes "loses K d d'" "db_ok d"
  shows "db_ok d'"
    and "share_view d' slug = share_view d slug
      \<or> share_view d' slug = None \<and> (\<exists>s. share_view d slug = Some s \<and> sh_StorageKey s \<in> K)"
proof -
  from assms(1) obtain P where P: "shares_t d' = filter P (shares_t d)"
    "\<And>r. r \<in> set (shares_t d) \<Longrightarrow> \<not> P r \<Longrightarrow> r_storage_key r \<in> K" unfolding loses_def by blast
  from assms show "db_ok d'" by (simp add: db_ok_def loses_def P(1) distinct_map_filter)
  have dist: "distinct (map r_slug (shares_t d))" using assms(2) by (simp add: db_ok_def)
  show "share_view d' slug = share_view d slug
      \<or> share_view d' slug = None \<and> (\<exists>s. share_view d slug = Some s \<and> sh_StorageKey s \<in> K)"
  proof (cases "share_view d slug")
    case None
    then have "slug \<notin> set (map r_slug (filter P (shares_t d)))" by (auto simp: share_view_def rows_view_None)
    then have "share_view d' slug = None" by (simp add: share_view_def P(1) rows_view_None)
    with None show ?thesis by simp
  next
    case (Some s)
    then obtain r where r: "r \<in> set (shares_t d)" "r_slug r = slug" "s = scanShare r"
      by (auto simp: share_view_def dest: rows_view_SomeD)
    have only: "r' = r" if "r' \<in> set (shares_t d)" "r_slug r' = slug" for r'
      using dist r that by (auto simp: distinct_map inj_on_def)
    show ?thesis
    proof (cases "P r")
      case True
      with r(1) have "rows_view (filter P (shares_t d)) (r_slug r) = Some (scanShare r)"
        by (intro rows_view_SomeI) (simp_all add: distinct_map_filter dist)
      with Some r show ?thesis by (simp add: share_view_def P(1))
    next
      case False
      with only have "slug \<notin> set (map r_slug (filter P (shares_t d)))" by auto
      then have "share_view d' slug = None" by (simp add: share_view_def P(1) rows_view_None)
      with P(2) [OF r(1) False] Some r(3) show ?thesis by (simp add: scanShare_def)
    qed
  qed
qed

lemma loses_nothing: "loses {} d d' \<Longrightarrow> db_ok d \<Longrightarrow> share_view d' = share_view d"
  using loses_view(2) by blast

lemma loses_state_ok: "loses K d d' \<Longrightarrow> db_state_ok d0 d \<Longrightarrow> db_state_ok d0 d'"
  using loses_view(1) [of K d d'] by (simp add: db_state_ok_def loses_def)

subsection \<open>The upload handlers\<close>

lemma s3_frames:
  "os_GetFileSize (s3_files c bucket) key w = (sz, w') \<Longrightarrow> fst w' = fst w"
  "os_GetPresignedURL (s3_files c bucket) key force w = (u, w') \<Longrightarrow> fst w' = fst w"
  "os_GetPresignedUploadURL (s3_files c bucket) key n ct w = (u, w') \<Longrightarrow> fst w' = fst w"
  "ms_CreateMultipartUpload (s3_multipart c bucket) key ct w = (u, w') \<Longrightarrow> fst w' = fst w"
  "ms_PresignUploadPart (s3_multipart c bucket) key uid k w = (u, w') \<Longrightarrow> fst w' = fst w"
  "ms_AbortMultipartUpload (s3_multipart c bucket) key uid w = (e, w') \<Longrightarrow> fst w' = fst w"
  "ms_ListParts (s3_multipart c bucket) key uid w = Some (x, w') \<Longrightarrow> fst w' = fst w"
  by (auto simp: s3_files_def s3_multipart_def on_s3_eq)

lemma abort_frame [simp]:
  "fst (snd (ms_AbortMultipartUpload (s3_multipart c bucket) key uid w)) = fst w"
  by (simp add: s3_multipart_def)

text \<open>An upload handler leaves the database alone or makes one call, which records the upload.\<close>

lemma recordUploadFor_call:
  assumes "recordUploadFor ctx (Some db_upload_recorder) key name n now w = (r, w')"
  shows "\<exists>up. UploadStore_Create up (fst w) = (r, fst w')"
  using assms by (auto simp: recordUploadFor_def db_upload_recorder_def on_db_eq)

lemma live_files_simps [simp]:
  "fh_storage (live_files c bucket m) = s3_files c bucket"
  "fh_uploads (live_files c bucket m) = Some db_upload_recorder"
  by (simp_all add: live_files_def)

lemma PresignUpload_call:
  assumes "PresignUpload (live_files c bucket m) ctx body uuid now w = (r, w')"
  shows "fst w' = fst w \<or> (\<exists>up x. UploadStore_Create up (fst w) = (x, fst w'))"
proof (cases "ShouldBindJSON presign_tags body")
  case None
  with assms show ?thesis by (simp add: PresignUpload_def)
next
  case (Some req)
  let ?name = "sanitizeFilename (pq_Name req)"
  let ?url = "os_GetPresignedUploadURL (s3_files c bucket) (Build uuid ?name) (pq_Size req)
    (default_content_type (pq_ContentType req)) w"
  obtain x w1 where url: "?url = (x, w1)" by (rule prod.exhaust)
  obtain y w2 where rec: "recordUploadFor ctx (Some db_upload_recorder) (Build uuid ?name) ?name
      (pq_Size req) now w1 = (y, w2)" by (rule prod.exhaust)
  have w1: "fst w1 = fst w" by (rule s3_frames(3) [OF url])
  have "w' = w \<or> w' = w1 \<or> w' = w2"
    using assms Some url rec by (auto simp: PresignUpload_def Let_def split: sum.splits option.splits if_splits)
  with w1 recordUploadFor_call [OF rec] show ?thesis by auto
qed

lemma Init_call:
  assumes "Init (live_multipart c bucket m) ctx body uuid now w = (r, w')"
  shows "fst w' = fst w \<or> (\<exists>up x. UploadStore_Create up (fst w) = (x, fst w'))"
proof (cases "ShouldBindJSON init_tags body")
  case None
  with assms show ?thesis by (simp add: Init_def)
next
  case (Some req)
  let ?name = "sanitizeFilename (iq_Name req)"
  obtain x w1 where cr: "ms_CreateMultipartUpload (s3_multipart c bucket) (Build uuid ?name)
    (default_content_type (iq_ContentType req)) w = (x, w1)" by (rule prod.exhaust)
  obtain y w2 where rec: "recordUploadFor ctx (Some db_upload_recorder) (Build uuid ?name) ?name
      (iq_Size req) now w1 = (y, w2)" by (rule prod.exhaust)
  have w1: "fst w1 = fst w" by (rule s3_frames(4) [OF cr])
  have "fst w' = fst w \<or> w' = w1 \<or> fst w' = fst w2"
    using assms Some cr rec by (auto simp: Init_def Let_def split: sum.splits option.splits if_splits)
  with w1 recordUploadFor_call [OF rec] show ?thesis by auto
qed

lemma upload_handlers_lose [upkeep]:
  "PresignUpload (live_files c bucket m) ctx pbody uuid now w = (pr, w') \<Longrightarrow> loses K (fst w) (fst w')"
  "Init (live_multipart c bucket m) ctx ibody uuid now w = (ir, w') \<Longrightarrow> loses K (fst w) (fst w')"
  using PresignUpload_call Init_call loses_methods(1) loses_refl by metis+

lemma GetFile_frame:
  assumes "GetFile (live_files c bucket m) key download w = (r, w')"
  shows "fst w' = fst w"
proof (cases "validKey key")
  case True
  obtain x w1 where size: "os_GetFileSize (s3_files c bucket) key w = (x, w1)" by (rule prod.exhaust)
  obtain y w2 where url: "os_GetPresignedURL (s3_files c bucket) key (download = ''true'') w1 = (y, w2)"
    by (rule prod.exhaust)
  have "w' = w1 \<or> w' = w2"
    using assms True size url by (auto simp: GetFile_def Let_def split: if_splits sum.splits)
  with s3_frames(1) [OF size] s3_frames(2) [OF url] show ?thesis by auto
qed (use assms in \<open>simp add: GetFile_def\<close>)

lemma multipart_frames:
  "PresignPart (live_multipart c bucket m) pbody w = (pr, w') \<Longrightarrow> fst w' = fst w"
  "Status (live_multipart c bucket m) rbody w = Some (sr, w') \<Longrightarrow> fst w' = fst w"
  "Abort (live_multipart c bucket m) rbody w = (ar, w') \<Longrightarrow> fst w' = fst w"
  by (auto simp: PresignPart_def Status_def Abort_def dest: s3_frames
      split: option.splits if_splits prod.splits sum.splits)

subsection \<open>The jobs\<close>

interpretation losses: job_frame "\<lambda>S U. loses S"
proof unfold_locales
  show "loses S d d1 \<Longrightarrow> loses S d1 d2 \<Longrightarrow> loses S d d2" for S d d1 d2 by (rule loses_trans)
  show "loses S d d1 \<Longrightarrow> S \<subseteq> S' \<Longrightarrow> loses S' d d1" for S S' d d1 by (rule loses_mono)
qed (auto intro: loses_methods)

lemmas Purge_Run_loses [upkeep] = losses.Purge_Run_frame

lemma Retention_Run_loses [upkeep]:
  "loses (due_uploads (now + wrap64 (- anon)) (now + wrap64 (- owned)) (fst w)) (fst w)
     (fst (snd (Retention_Run (live_retention c bucket anon owned) now w)))"
proof (rule losses.Retention_Run_frame)
  show "up_StorageKey ` set l \<subseteq> due_uploads (now + wrap64 (- anon)) (now + wrap64 (- owned)) (fst w)"
    if "UploadStore_ListExpired (now + wrap64 (- anon)) (now + wrap64 (- owned)) sweepBatchSize (fst w) = ((l, e), d1)"
    for l e d1
    using UploadStore_ListExpired_effect [OF that] by (simp add: due_listed)
qed

end
