(* ===== verification/Service.thy ===== *)
theory Service
  imports Server Upkeep
begin

section \<open>The whole service: requests and jobs in any order\<close>

text \<open>
  The components put together: an HTTP request goes through the routing table and its
  middlewares and, if it gets that far, into the handler of its route; between requests the
  two jobs run. \<open>live\<close> is the part of the process that outlives a request, \<open>db \<times> 's\<close> the
  database and the bucket. The properties are those a client of the HTTP interface sees.
\<close>

subsection \<open>Answering a request\<close>

text \<open>The body as JSON decodes it into the struct each handler binds; \<open>None\<close> is a syntax error.\<close>

record bodies =
  b_presign :: "presign_request option"
  b_init :: "init_request option"
  b_part :: "presign_part_request option"
  b_ref :: "multipart_ref option"
  b_complete :: "complete_request option"
  b_create :: "create_request option"
  b_unlock :: "unlock_request option"

text \<open>
  A request with what the server reads besides it: the decoded body, given the bound on its
  size, the query parameter \<open>download\<close>, the clock, a fresh UUID and random bytes.
\<close>

record http =
  ht_request :: request
  ht_bodies :: "int option \<Rightarrow> bodies"
  ht_download :: string
  ht_clock :: "nat \<Rightarrow> time"
  ht_uuid :: string
  ht_entropy :: entropy

datatype reply =
    R_Local "unit response" | R_Health "health response"
  | R_Presign "presign_response response" | R_File "download_response response"
  | R_Init "init_response response" | R_Part "presign_part_response response"
  | R_Status "part list response" | R_Complete "complete_response response" | R_Abort "string response"
  | R_Create "create_response response" | R_Share "share_meta response"
  | R_Unlock "unlock_response response" | R_Mine "share_meta list response" | R_Revoke "string response"

record 's live =
  lv_deps :: deps
  lv_limits :: limiters
  lv_shares :: "(db \<times> 's) share_handler"
  lv_files :: "(db \<times> 's) file_handler"
  lv_multipart :: "(db \<times> 's) multipart_handler"

definition slug_param :: "arrival \<Rightarrow> string" where
  "slug_param a = (case ar_params a of [] \<Rightarrow> [] | p # ps \<Rightarrow> p)"

text \<open>The handler bound to the route; \<open>None\<close> when it does not return.\<close>

definition dispatch ::
  "'s live \<Rightarrow> arrival \<Rightarrow> http \<Rightarrow> db \<times> 's \<Rightarrow> (reply \<times> 's live \<times> (db \<times> 's)) option" where
  "dispatch l a q w =
     (let c = ar_ctx a; b = ht_bodies q (ar_body_limit a); clock = ht_clock q; p = slug_param a
      in case ar_handler a of
        H_Health \<Rightarrow> Some (R_Health (HealthHandler (clock 1)), l, w)
      | H_AuthUnavailable \<Rightarrow> Some (R_Local authUnavailable, l, w)
      | H_ShareMaintenance \<Rightarrow> Some (R_Local shareMaintenance, l, w)
      | H_PresignUpload \<Rightarrow>
          (case PresignUpload (lv_files l) c (b_presign b) (ht_uuid q) (clock 1) w of
             (r, w') \<Rightarrow> Some (R_Presign r, l, w'))
      | H_GetFile \<Rightarrow>
          (case GetFile (lv_files l) p (ht_download q) w of (r, w') \<Rightarrow> Some (R_File r, l, w'))
      | H_MultipartInit \<Rightarrow>
          (case Init (lv_multipart l) c (b_init b) (ht_uuid q) (clock 1) w of
             (r, w') \<Rightarrow> Some (R_Init r, l, w'))
      | H_MultipartPart \<Rightarrow>
          (case PresignPart (lv_multipart l) (b_part b) w of (r, w') \<Rightarrow> Some (R_Part r, l, w'))
      | H_MultipartStatus \<Rightarrow>
          map_option (\<lambda>(r, w'). (R_Status r, l, w')) (Status (lv_multipart l) (b_ref b) w)
      | H_MultipartComplete \<Rightarrow>
          map_option (\<lambda>(r, w'). (R_Complete r, l, w')) (Complete (lv_multipart l) (b_complete b) w)
      | H_MultipartAbort \<Rightarrow>
          (case Abort (lv_multipart l) (b_ref b) w of (r, w') \<Rightarrow> Some (R_Abort r, l, w'))
      | H_CreateShare \<Rightarrow>
          map_option (\<lambda>(r, es, w'). (R_Create r, l, w'))
            (CreateShare (lv_shares l) c (b_create b) (clock 1) (clock 2) (ht_entropy q) w)
      | H_GetShare \<Rightarrow>
          (case GetShare (lv_shares l) c p (clock 1) (clock 2) w of
             (r, h, w') \<Rightarrow> Some (R_Share r, l\<lparr>lv_shares := h\<rparr>, w'))
      | H_UnlockShare \<Rightarrow>
          (case UnlockShare (lv_shares l) c p (b_unlock b) (clock 1) (clock 2) (clock 3) w of
             (r, h, w') \<Rightarrow> Some (R_Unlock r, l\<lparr>lv_shares := h\<rparr>, w'))
      | H_ListMine \<Rightarrow>
          (case ListMine (lv_shares l) c (\<lambda>i. clock (i + 1)) w of (r, w') \<Rightarrow> Some (R_Mine r, l, w'))
      | H_RevokeShare \<Rightarrow>
          (case RevokeShare (lv_shares l) c p w of (r, w') \<Rightarrow> Some (R_Revoke r, l, w')))"

definition respond ::
  "'s live \<Rightarrow> http \<Rightarrow> db \<times> 's \<Rightarrow> (reply \<times> 's live \<times> (db \<times> 's)) option" where
  "respond l q w =
     (case serve (lv_deps l) (ht_request q) (ht_clock q 0) (lv_limits l) of
        (Inl r, ls) \<Rightarrow> Some (R_Local r, l\<lparr>lv_limits := ls\<rparr>, w)
      | (Inr a, ls) \<Rightarrow> dispatch (l\<lparr>lv_limits := ls\<rparr>) a q w)"

text \<open>The handlers \<open>SetupRoutes\<close> makes, for a server that has its database.\<close>

definition live_server :: "'s s3_client \<Rightarrow> server \<Rightarrow> 's live option" where
  "live_server c srv =
     map_option (\<lambda>h.
       let bucket = so_bucketName (sv_Storage srv); limit = max_upload_bytes (cf_Server (sv_Config srv))
       in \<lparr>lv_deps = route_deps srv, lv_limits = new_limiters, lv_shares = h,
           lv_files = live_files c bucket limit, lv_multipart = live_multipart c bucket limit\<rparr>)
     (server_share_handler c srv)"

definition well_wired :: "'s s3_client \<Rightarrow> string \<Rightarrow> 's live \<Rightarrow> bool" where
  "well_wired c bucket l \<longleftrightarrow> wired c bucket (lv_shares l)
     \<and> (\<exists>n. lv_files l = live_files c bucket n) \<and> (\<exists>n. lv_multipart l = live_multipart c bucket n)"

lemma live_server_wired:
  "live_server c srv = Some l \<Longrightarrow> well_wired c (so_bucketName (sv_Storage srv)) l
     \<and> lv_deps l = route_deps srv"
  by (auto simp: live_server_def server_share_handler_def well_wired_def wired_new Let_def split: if_splits)

subsection \<open>What a request does to the shares\<close>

lemma GetShare_wired: "wired c bucket h \<Longrightarrow> GetShare h ctx slug t1 t2 w = (r, h', w') \<Longrightarrow> wired c bucket h'"
  by (auto simp: GetShare_def wired_def Let_def split: prod.splits if_splits sum.splits)

lemma UnlockShare_wired:
  assumes "wired c bucket h" "UnlockShare h ctx slug body t1 t2 t3 w = (r, h', w')"
  shows "wired c bucket h'"
proof (cases "ValidateSlug slug")
  case None
  obtain b h1 where u: "unlock_allowed h slug (c_ClientIP ctx) t1 t2 = (b, h1)" by (rule prod.exhaust)
  with assms(2) None have "h' = h1"
    by (auto simp: UnlockShare_def split: bool.splits option.splits prod.splits sum.splits)
  with assms(1) unlock_allowed_fields [OF u] show ?thesis by (simp add: wired_def)
qed (use assms in \<open>simp add: UnlockShare_def\<close>)

lemma well_wired_simps [simp]:
  "well_wired c bucket (l\<lparr>lv_limits := ls\<rparr>) = well_wired c bucket l"
  "wired c bucket h \<Longrightarrow> well_wired c bucket l \<Longrightarrow> well_wired c bucket (l\<lparr>lv_shares := h\<rparr>)"
  by (simp_all add: well_wired_def)

text \<open>
  \<open>harmless\<close>: a step of the share API on behalf of the user of the request, or one that leaves
  the shares alone.
\<close>

definition harmless :: "'s s3_client \<Rightarrow> string \<Rightarrow> user option \<Rightarrow> db \<times> 's \<Rightarrow> db \<times> 's \<Rightarrow> bool" where
  "harmless c bucket user w w' \<longleftrightarrow> api_step c bucket user w w' \<or> loses {} (fst w) (fst w')"

lemma harmless_same: "fst w' = fst w \<Longrightarrow> harmless c bucket user w w'"
  by (simp add: harmless_def)

lemma dispatch_effect:
  assumes "well_wired c bucket l" "dispatch l a q w = Some (r, l', w')"
  shows "(well_wired c bucket l' \<and> lv_deps l' = lv_deps l) \<and> harmless c bucket (c_User (ar_ctx a)) w w'"
proof -
  from assms(1) obtain m n where wired: "wired c bucket (lv_shares l)"
    and live: "lv_files l = live_files c bucket m" "lv_multipart l = live_multipart c bucket n"
    by (auto simp: well_wired_def)
  note intros = api_step_intros [OF wired]
  show ?thesis
  proof (cases "ar_handler a")
    case H_PresignUpload
    with assms(2) live have "l' = l" "loses {} (fst w) (fst w')"
      by (auto simp: dispatch_def Let_def intro: upload_handlers_lose(1) split: prod.splits)
    with assms(1) show ?thesis by (simp add: harmless_def)
  next
    case H_MultipartInit
    with assms(2) live have "l' = l" "loses {} (fst w) (fst w')"
      by (auto simp: dispatch_def Let_def intro: upload_handlers_lose(2) split: prod.splits)
    with assms(1) show ?thesis by (simp add: harmless_def)
  next
    case H_CreateShare
    with assms(2) have "l' = l" "api_step c bucket (c_User (ar_ctx a)) w w'"
      by (auto simp: dispatch_def Let_def intro: intros(1))
    with assms(1) show ?thesis by (simp add: harmless_def)
  next
    case H_GetShare
    with assms(2) obtain s h where s: "GetShare (lv_shares l) (ar_ctx a) (slug_param a) (ht_clock q 1) (ht_clock q 2) w = (s, h, w')"
      "l' = l\<lparr>lv_shares := h\<rparr>" by (auto simp: dispatch_def Let_def split: prod.splits)
    from GetShare_wired [OF wired s(1)] intros(2) [OF s(1)] assms(1) s(2) show ?thesis
      by (simp add: harmless_def)
  next
    case H_UnlockShare
    with assms(2) obtain s h where s: "UnlockShare (lv_shares l) (ar_ctx a) (slug_param a)
        (b_unlock (ht_bodies q (ar_body_limit a))) (ht_clock q 1) (ht_clock q 2) (ht_clock q 3) w = (s, h, w')"
      "l' = l\<lparr>lv_shares := h\<rparr>" by (auto simp: dispatch_def Let_def split: prod.splits)
    from UnlockShare_wired [OF wired s(1)] intros(3) [OF s(1)] assms(1) s(2) show ?thesis
      by (simp add: harmless_def)
  next
    case H_ListMine
    with assms(2) have "l' = l" "api_step c bucket (c_User (ar_ctx a)) w w'"
      by (auto simp: dispatch_def Let_def intro: intros(4) split: prod.splits)
    with assms(1) show ?thesis by (simp add: harmless_def)
  next
    case H_RevokeShare
    with assms(2) have "l' = l" "api_step c bucket (c_User (ar_ctx a)) w w'"
      by (auto simp: dispatch_def Let_def intro: intros(5) split: prod.splits)
    with assms(1) show ?thesis by (simp add: harmless_def)
  qed (use assms live in \<open>auto simp: dispatch_def Let_def split: prod.splits
        dest!: GetFile_frame multipart_frames Complete_frame intro: harmless_same\<close>)
qed

definition signed_in :: "verifier option \<Rightarrow> http \<Rightarrow> user \<Rightarrow> bool" where
  "signed_in v q u \<longleftrightarrow> (\<exists>v'. v = Some v' \<and> Optional v' (rq_Authorization (ht_request q)) = Some u)"

subsection \<open>Guards\<close>

lemma inner_limits:
  assumes "dispatch l a q w = Some (r, l', w')"
  shows "behind (ar_handler a) = None \<longrightarrow> ar_handler a \<in> {H_ListMine, H_RevokeShare, H_GetShare, H_UnlockShare} \<or> w' = w"
    and "ar_handler a = H_GetShare \<longrightarrow> \<not> fst (Allow (h_metaPerIP (lv_shares l)) (c_ClientIP (ar_ctx a)) (ht_clock q 1)) \<longrightarrow>
      w' = w \<and> (\<exists>x. r = R_Share x \<and> rsp_Status x = 429)"
    and "ar_handler a = H_UnlockShare \<longrightarrow>
      \<not> fst (unlock_allowed (lv_shares l) (slug_param a) (c_ClientIP (ar_ctx a)) (ht_clock q 1) (ht_clock q 2)) \<longrightarrow>
      w' = w \<and> (\<exists>x. r = R_Unlock x \<and> rsp_Status x \<in> {404, 429})"
proof -
  show "behind (ar_handler a) = None \<longrightarrow> ar_handler a \<in> {H_ListMine, H_RevokeShare, H_GetShare, H_UnlockShare} \<or> w' = w"
    using assms by (cases "ar_handler a") (auto simp: dispatch_def behind_def Let_def)
  show "ar_handler a = H_GetShare \<longrightarrow> \<not> fst (Allow (h_metaPerIP (lv_shares l)) (c_ClientIP (ar_ctx a)) (ht_clock q 1)) \<longrightarrow>
      w' = w \<and> (\<exists>x. r = R_Share x \<and> rsp_Status x = 429)"
    using assms by (auto simp: dispatch_def GetShare_def Let_def split: prod.splits)
  show "ar_handler a = H_UnlockShare \<longrightarrow>
      \<not> fst (unlock_allowed (lv_shares l) (slug_param a) (c_ClientIP (ar_ctx a)) (ht_clock q 1) (ht_clock q 2)) \<longrightarrow>
      w' = w \<and> (\<exists>x. r = R_Unlock x \<and> rsp_Status x \<in> {404, 429})"
    using assms by (cases "unlock_allowed (lv_shares l) (slug_param a) (c_ClientIP (ar_ctx a)) (ht_clock q 1) (ht_clock q 2)")
      (auto simp: dispatch_def UnlockShare_def Let_def split: prod.splits option.splits)
qed


text \<open>
  C15. Whatever the configuration, a request gets to work only through its guards. It is turned
  away with nothing done, or it reaches one handler: listing and revoking shares only with a
  token that \<open>Required\<close> accepts, as the user it names, and any user a handler sees comes
  from such a token; the upload, multipart and download handlers and the creation of shares
  only when their limiter lets the client's address through; a look at a share or an unlock,
  which limit themselves, do nothing but answer 429 (or 404, for a malformed slug) when
  their own limiters refuse; all that is left does nothing. And no POST handler reads a body
  without a bound, at most 2 MiB.
\<close>

theorem requests_guarded:
  assumes "respond l q w = Some (r, l', w')"
  shows "(\<exists>x. r = R_Local x) \<and> w' = w
    \<or> (\<exists>a ls. serve (lv_deps l) (ht_request q) (ht_clock q 0) (lv_limits l) = (Inr a, ls)
      \<and> dispatch (l\<lparr>lv_limits := ls\<rparr>) a q w = Some (r, l', w')
      \<and> (ar_handler a \<in> {H_ListMine, H_RevokeShare} \<longrightarrow>
          (\<exists>v u. dp_Verifier (lv_deps l) = Some v \<and> c_User (ar_ctx a) = Some u
             \<and> (Required v (rq_Authorization (ht_request q)) :: unit response + user) = Inr u))
      \<and> (\<forall>u. c_User (ar_ctx a) = Some u \<longrightarrow> signed_in (dp_Verifier (lv_deps l)) q u)
      \<and> (\<forall>i. behind (ar_handler a) = Some i \<longrightarrow> fst (Allow (lv_limits l i) (rq_ClientIP (ht_request q)) (ht_clock q 0)))
      \<and> (behind (ar_handler a) = None \<longrightarrow> ar_handler a \<in> {H_ListMine, H_RevokeShare, H_GetShare, H_UnlockShare} \<or> w' = w)
      \<and> (ar_handler a = H_GetShare \<longrightarrow>
          \<not> fst (Allow (h_metaPerIP (lv_shares l)) (rq_ClientIP (ht_request q)) (ht_clock q 1)) \<longrightarrow>
          w' = w \<and> (\<exists>x. r = R_Share x \<and> rsp_Status x = 429))
      \<and> (ar_handler a = H_UnlockShare \<longrightarrow>
          \<not> fst (unlock_allowed (lv_shares l) (slug_param a) (rq_ClientIP (ht_request q)) (ht_clock q 1) (ht_clock q 2)) \<longrightarrow>
          w' = w \<and> (\<exists>x. r = R_Unlock x \<and> rsp_Status x \<in> {404, 429}))
      \<and> (rq_method (ht_request q) = POST \<and> ar_handler a \<noteq> H_ShareMaintenance \<longrightarrow>
          (\<exists>n. ar_body_limit a = Some n \<and> n \<le> 2 * 1024 * 1024)))"
proof -
  obtain x ls where x: "serve (lv_deps l) (ht_request q) (ht_clock q 0) (lv_limits l) = (x, ls)" by (rule prod.exhaust)
  show ?thesis
  proof (cases x)
    case (Inl y)
    with assms x show ?thesis by (auto simp: respond_def)
  next
    case (Inr a)
    note reach = x [unfolded Inr]
    from assms reach have d: "dispatch (l\<lparr>lv_limits := ls\<rparr>) a q w = Some (r, l', w')" by (simp add: respond_def)
    note guards = serve_guarded [OF reach]
    from guards have mine: "ar_handler a \<in> {H_ListMine, H_RevokeShare} \<longrightarrow>
          (\<exists>v u. dp_Verifier (lv_deps l) = Some v \<and> c_User (ar_ctx a) = Some u
             \<and> (Required v (rq_Authorization (ht_request q)) :: unit response + user) = Inr u)" by blast
    from guards have users: "\<forall>u. c_User (ar_ctx a) = Some u \<longrightarrow> signed_in (dp_Verifier (lv_deps l)) q u"
      by (simp add: signed_in_def)
    from guards have limit: "\<forall>i. behind (ar_handler a) = Some i \<longrightarrow>
        fst (Allow (lv_limits l i) (rq_ClientIP (ht_request q)) (ht_clock q 0))" by blast
    from guards have body: "rq_method (ht_request q) = POST \<and> ar_handler a \<noteq> H_ShareMaintenance \<longrightarrow>
        (\<exists>n. ar_body_limit a = Some n \<and> n \<le> 2 * 1024 * 1024)" by blast
    from guards have "c_ClientIP (ar_ctx a) = rq_ClientIP (ht_request q)" by blast
    then have own_form: "c_ClientIP (ar_ctx a) = rq_ClientIP (ht_request q)" "lv_shares (l\<lparr>lv_limits := ls\<rparr>) = lv_shares l"
      by simp_all
    note own = inner_limits [OF d, unfolded own_form]
    from reach d mine users limit own body show ?thesis
      by (intro disjI2 exI [of _ a] exI [of _ ls] conjI) assumption+
  qed
qed

lemma respond_effect:
  assumes "well_wired c bucket l" "respond l q w = Some (r, l', w')"
  obtains user where "well_wired c bucket l'" "lv_deps l' = lv_deps l"
    "\<And>u. user = Some u \<Longrightarrow> signed_in (dp_Verifier (lv_deps l)) q u" "harmless c bucket user w w'"
proof -
  obtain x ls where s: "serve (lv_deps l) (ht_request q) (ht_clock q 0) (lv_limits l) = (x, ls)" by (rule prod.exhaust)
  show thesis
  proof (cases x)
    case (Inl e)
    with s assms have "l' = l\<lparr>lv_limits := ls\<rparr>" "w' = w" by (auto simp: respond_def)
    with assms(1) show thesis by (intro that [of None]) (simp_all add: harmless_same)
  next
    case (Inr a)
    with s assms(2) have d: "dispatch (l\<lparr>lv_limits := ls\<rparr>) a q w = Some (r, l', w')" by (simp add: respond_def)
    from dispatch_effect [OF _ d] assms(1) have "well_wired c bucket l'" "lv_deps l' = lv_deps l"
      "harmless c bucket (c_User (ar_ctx a)) w w'" by simp_all
    moreover have "signed_in (dp_Verifier (lv_deps l)) q u" if "c_User (ar_ctx a) = Some u" for u
      using serve_user [OF s [unfolded Inr] that] by (simp add: signed_in_def)
    ultimately show thesis by (intro that [of "c_User (ar_ctx a)"])
  qed
qed

subsection \<open>Requests and jobs\<close>

text \<open>
  A life of the service: requests and passes of the server's runner in any order (job 0 is the
  share purge, job 1 the retention), so also in every order theory \<open>Runner\<close> allows. Each runs
  to its end before the next; \<open>Races\<close> treats overlapping ones. The runner's context is live;
  a pass begun when it is over changes nothing (\<open>over_turn\<close>).
\<close>

datatype event = Http http | Job turn

fun happen ::
  "'s s3_client \<Rightarrow> string \<Rightarrow> duration \<Rightarrow> duration \<Rightarrow> event \<Rightarrow> 's live \<times> (db \<times> 's) \<Rightarrow> ('s live \<times> (db \<times> 's)) option" where
  "happen c bucket anon owned (Http q) (l, w) = map_option snd (respond l q w)"
| "happen c bucket anon owned (Job t) (l, w) =
     (if tn_job t < 2 then Some (l, run_turn (live_runner c bucket anon owned) Live t w) else None)"

fun happen_all ::
  "'s s3_client \<Rightarrow> string \<Rightarrow> duration \<Rightarrow> duration \<Rightarrow> event list \<Rightarrow> 's live \<times> (db \<times> 's) \<Rightarrow> ('s live \<times> (db \<times> 's)) option" where
  "happen_all c bucket anon owned [] x = Some x"
| "happen_all c bucket anon owned (e # es) x =
     (case happen c bucket anon owned e x of None \<Rightarrow> None | Some y \<Rightarrow> happen_all c bucket anon owned es y)"

lemma happen_all_append:
  "happen_all c bucket anon owned (es @ fs) x
     = (case happen_all c bucket anon owned es x of None \<Rightarrow> None | Some y \<Rightarrow> happen_all c bucket anon owned fs y)"
  by (induction es arbitrary: x) (auto split: option.splits)

text \<open>The same for a server as it starts, with the bucket and the windows of its configuration.\<close>

definition live_run ::
  "'s s3_client \<Rightarrow> server \<Rightarrow> event list \<Rightarrow> db \<times> 's \<Rightarrow> ('s live \<times> (db \<times> 's)) option" where
  "live_run c srv es w =
     (case (live_server c srv, sv_Windows srv) of
        (Some l, Some (anon, owned)) \<Rightarrow>
          happen_all c (so_bucketName (sv_Storage srv)) anon owned es (l, w)
      | _ \<Rightarrow> None)"

text \<open>Why a share may be gone without its owner having asked for it.\<close>

fun ended :: "duration \<Rightarrow> duration \<Rightarrow> event \<Rightarrow> db \<Rightarrow> share \<Rightarrow> bool" where
  "ended anon owned (Http q) d s \<longleftrightarrow> False"
| "ended anon owned (Job t) d s \<longleftrightarrow>
     (if tn_job t = 0 then sh_ExpiresAt s < tn_now t
      else sh_StorageKey s \<in> due_uploads (tn_now t + wrap64 (- anon)) (tn_now t + wrap64 (- owned)) d)"

text \<open>A pass is the run of its job, and then a row of history that no share depends on.\<close>

lemma record_run_loses: "loses K (fst w) (fst (record_run ctx name start fin err w))"
proof -
  obtain r d' where "db_Exec (sql_insert_job_run
       \<lparr>j_job = name, j_started_at = pg_ts start, j_finished_at = pg_ts fin,
        j_status = (if err \<noteq> None then ''error'' else ''ok''), j_error = err\<rparr>) (fst w) = (r, d')"
    by (rule prod.exhaust)
  moreover from this have "loses K (fst w) d'"
    by (rule loses_Exec) (auto simp: sql_insert_job_run_def intro!: loses_kept)
  ultimately show ?thesis by (cases ctx) (simp_all add: record_run_def DBRunRecorder_Record_def loses_same)
qed

lemma run_turn_jobs:
  assumes "tn_job t < 2"
  obtains (purge) r d1 name err where "tn_job t = 0" "Purge_Run (live_purge (tn_now t)) (fst w) = (r, d1)"
      "run_turn (live_runner c bucket anon owned) Live t w = record_run Live name (tn_start t) (tn_fin t) err (d1, snd w)"
  | (sweep) w1 name err where "tn_job t = 1" "w1 = snd (Retention_Run (live_retention c bucket anon owned) (tn_now t) w)"
      "run_turn (live_runner c bucket anon owned) Live t w = record_run Live name (tn_start t) (tn_fin t) err w1"
  | (late) name err where "tn_start t + perRunTimeout \<le> tn_now t"
      "run_turn (live_runner c bucket anon owned) Live t w = record_run Live name (tn_start t) (tn_fin t) err w"
proof -
  note pass = run_turn_def runOnce_def safeRun_def PurgeExpiredShares_def PurgeExpiredUploads_def WithTimeout_def
  from assms have job: "tn_job t = 0 \<or> tn_job t = 1" by auto
  show thesis
  proof (cases "tn_start t + perRunTimeout \<le> tn_now t")
    case True
    obtain e where e: "Purge_Run (purge_in (Over ''context deadline exceeded'') (live_purge (tn_now t))) (fst w) = (Some e, fst w)"
      using Purge_Run_over by blast
    obtain e' where e': "Retention_Run (retention_in (Over ''context deadline exceeded'') (live_retention c bucket anon owned)) (tn_now t) w
        = ((Some e', []), w)" using Retention_Run_over by blast
    from job show thesis
    proof
      assume "tn_job t = 0"
      with True show thesis by (intro late) (auto simp: pass e)
    next
      assume "tn_job t = 1"
      with True show thesis by (intro late) (auto simp: pass e')
    qed
  next
    case False
    obtain r d1 where purged: "Purge_Run (live_purge (tn_now t)) (fst w) = (r, d1)" by (rule prod.exhaust)
    obtain e os w1 where swept: "Retention_Run (live_retention c bucket anon owned) (tn_now t) w = ((e, os), w1)"
      by (metis prod.collapse)
    from job show thesis
    proof
      assume "tn_job t = 0"
      with False purged show thesis by (intro purge) (auto simp: pass)
    next
      assume "tn_job t = 1"
      with False swept show thesis by (intro sweep) (auto simp: pass)
    qed
  qed
qed

lemma run_turn_cases:
  assumes "tn_job t < 2"
  obtains (purge) r d1 where "tn_job t = 0" "Purge_Run (live_purge (tn_now t)) (fst w) = (r, d1)"
      "loses {} d1 (fst (run_turn (live_runner c bucket anon owned) Live t w))"
  | (sweep) w1 where "tn_job t = 1" "w1 = snd (Retention_Run (live_retention c bucket anon owned) (tn_now t) w)"
      "loses {} (fst w1) (fst (run_turn (live_runner c bucket anon owned) Live t w))"
  | (late) "loses {} (fst w) (fst (run_turn (live_runner c bucket anon owned) Live t w))"
  using assms
proof (cases rule: run_turn_jobs [where w = w and c = c and bucket = bucket and anon = anon and owned = owned])
  case (purge r d1 name err)
  with record_run_loses [of "{}" "(d1, snd w)"] show thesis by (intro that(1)) simp_all
next
  case (sweep w1 name err)
  with record_run_loses [of "{}" w1] show thesis by (intro that(2)) simp_all
next
  case (late name err)
  with record_run_loses [of "{}" w] show thesis by (intro that(3)) simp_all
qed

lemma happen_cases:
  assumes "happen c bucket anon owned e (l, w) = Some (l', w')" "well_wired c bucket l" "db_state_ok d0 (fst w)"
  obtains (api) user where "well_wired c bucket l'" "lv_deps l' = lv_deps l" "db_state_ok d0 (fst w')"
      "\<And>q u. e = Http q \<Longrightarrow> user = Some u \<Longrightarrow> signed_in (dp_Verifier (lv_deps l)) q u" "\<exists>q. e = Http q"
      "(share_step (owns_share d0) user)\<^sup>*\<^sup>* (share_view (fst w)) (share_view (fst w'))"
  | (job) "well_wired c bucket l'" "lv_deps l' = lv_deps l" "db_state_ok d0 (fst w')"
      "\<And>slug. share_view (fst w') slug = share_view (fst w) slug
         \<or> share_view (fst w') slug = None \<and> (\<exists>s. share_view (fst w) slug = Some s \<and> ended anon owned e (fst w) s)"
proof (cases e)
  case (Http q)
  with assms(1) obtain r where r: "respond l q w = Some (r, l', w')" by auto
  obtain user where u: "well_wired c bucket l'" "lv_deps l' = lv_deps l"
    "\<And>u. user = Some u \<Longrightarrow> signed_in (dp_Verifier (lv_deps l)) q u" "harmless c bucket user w w'"
    using respond_effect [OF assms(2) r] by metis
  show thesis
  proof (cases "api_step c bucket user w w'")
    case True
    from api_step_live [OF this assms(3)] u Http show thesis by (intro api [of user]) auto
  next
    case False
    with u(4) have n: "loses {} (fst w) (fst w')" by (simp add: harmless_def)
    from assms(3) have "db_ok (fst w)" by (simp add: db_state_ok_def)
    from loses_nothing [OF n this] loses_state_ok [OF n assms(3)] u(1,2) show thesis
      by (intro job) simp_all
  qed
next
  case (Job t)
  with assms(1) have t: "tn_job t < 2" and w': "l' = l" "w' = run_turn (live_runner c bucket anon owned) Live t w"
    by (auto split: if_splits)
  from assms(3) have ok: "db_ok (fst w)" by (simp add: db_state_ok_def)
  from t show thesis
  proof (cases rule: run_turn_cases [where w = w and c = c and bucket = bucket and anon = anon and owned = owned])
    case (purge r d1)
    note n = purge(3) [folded w'(2)]
    from loses_state_ok [OF Purge_Run_loses [OF purge(2)] assms(3)] have d1: "db_state_ok d0 d1" .
    then have "db_ok d1" by (simp add: db_state_ok_def)
    note same = loses_nothing [OF n this]
    from Purge_Run_purged [OF ok purge(2)] loses_state_ok [OF n d1] assms(2) w'(1) Job purge(1) show thesis
      by (intro job) (auto simp: purged_def same)
  next
    case (sweep w1)
    note n = sweep(3) [folded w'(2)]
    let ?K = "due_uploads (tn_now t + wrap64 (- anon)) (tn_now t + wrap64 (- owned)) (fst w)"
    from Retention_Run_loses [of "tn_now t" anon owned w c bucket] have k: "loses ?K (fst w) (fst w1)"
      by (simp add: sweep(2))
    from loses_trans [OF k loses_mono [OF n]] have k': "loses ?K (fst w) (fst w')" by simp
    from loses_view(2) [OF k' ok] loses_state_ok [OF k' assms(3)] assms(2) w'(1) Job sweep(1) show thesis
      by (intro job) auto
  next
    case late
    note n = late [folded w'(2)]
    from loses_nothing [OF n ok] loses_state_ok [OF n assms(3)] assms(2) w'(1) show thesis
      by (intro job) simp_all
  qed
qed

subsection \<open>What holds over the life of the service\<close>

lemma shares_ok_removed:
  assumes "shares_ok V" "\<And>slug. V' slug = V slug \<or> V' slug = None"
  shows "shares_ok V'"
proof -
  have "V' slug = Some s \<Longrightarrow> V slug = Some s" for slug s using assms(2) [of slug] by auto
  with assms(1) show ?thesis unfolding shares_ok_def by blast
qed

lemma happen_all_ok:
  assumes "happen_all c bucket anon owned es (l, w) = Some (l', w')" "well_wired c bucket l"
    and "db_state_ok d0 (fst w)" "shares_ok (share_view (fst w))"
  shows "db_state_ok d0 (fst w') \<and> shares_ok (share_view (fst w')) \<and> well_wired c bucket l' \<and> lv_deps l' = lv_deps l"
  using assms
proof (induction es arbitrary: l w)
  case (Cons e es)
  from Cons.prems(1) obtain l1 w1 where e: "happen c bucket anon owned e (l, w) = Some (l1, w1)"
    and es: "happen_all c bucket anon owned es (l1, w1) = Some (l', w')" by (auto split: option.splits)
  from e Cons.prems(2,3) show ?case
  proof (cases rule: happen_cases)
    case (api user)
    from Cons.IH [OF es api(1,3) share_steps_ok [OF api(6) Cons.prems(4)]] api(2) show ?thesis by simp
  next
    case job
    have "share_view (fst w1) slug = share_view (fst w) slug \<or> share_view (fst w1) slug = None" for slug
      using job(4) [of slug] by auto
    from Cons.IH [OF es job(1,3) shares_ok_removed [OF Cons.prems(4) this]] job(2) show ?thesis by simp
  qed
qed simp

lemma live_run_eq:
  assumes "live_run c srv es w = Some (l', w')"
  obtains l anon owned where "live_server c srv = Some l" "sv_Windows srv = Some (anon, owned)"
    "happen_all c (so_bucketName (sv_Storage srv)) anon owned es (l, w) = Some (l', w')"
  using assms by (auto simp: live_run_def split: option.splits)

text \<open>
  C6. The stored shares stay consistent over the whole life of a server: through any sequence of
  HTTP requests to any route and passes of the jobs, whatever calls to Postgres and
  S3 fail or lose their replies, there is at most one share per slug and per file, every
  slug is well formed, every share has between one and three access codes, no key has two
  upload rows, and the handlers stay wired to the same backends.
\<close>

theorem live_run_consistent:
  assumes "live_run c srv es w = Some (l', w')" "db_ok (fst w)" "shares_ok (share_view (fst w))"
  shows "db_ok (fst w') \<and> shares_ok (share_view (fst w'))
    \<and> well_wired c (so_bucketName (sv_Storage srv)) l'"
proof -
  obtain l anon owned where l: "live_server c srv = Some l"
    and run: "happen_all c (so_bucketName (sv_Storage srv)) anon owned es (l, w) = Some (l', w')"
    by (rule live_run_eq [OF assms(1)])
  from happen_all_ok [OF run _ db_state_ok_self [OF assms(2)] assms(3)] live_server_wired [OF l]
  show ?thesis by (simp add: db_state_ok_def)
qed

definition only_from :: "verifier option \<Rightarrow> event list \<Rightarrow> (user \<Rightarrow> bool) \<Rightarrow> bool" where
  "only_from v es P \<longleftrightarrow> (\<forall>q u. Http q \<in> set es \<longrightarrow> signed_in v q u \<longrightarrow> P u)"

lemma happen_all_owner:
  assumes "happen_all c bucket anon owned es (l, w) = Some (l', w')" "well_wired c bucket l"
    and "db_state_ok d0 (fst w)" "share_view (fst w) slug = Some s" "sh_OwnerID s \<noteq> []"
    and "only_from (dp_Verifier (lv_deps l)) es (\<lambda>u. usr_ID u \<noteq> sh_OwnerID s \<and> \<not> owns_share d0 (usr_ID u) s)"
  shows "share_view (fst w') slug = Some s
    \<or> (\<exists>es1 e es2 l1 w1. es = es1 @ e # es2 \<and> happen_all c bucket anon owned es1 (l, w) = Some (l1, w1)
         \<and> share_view (fst w1) slug = Some s \<and> ended anon owned e (fst w1) s)"
  using assms(1-4,6)
proof (induction es arbitrary: l w)
  case (Cons e es)
  from Cons.prems(1) obtain l1 w1 where e: "happen c bucket anon owned e (l, w) = Some (l1, w1)"
    and es: "happen_all c bucket anon owned es (l1, w1) = Some (l', w')" by (auto split: option.splits)
  have step: "well_wired c bucket l1 \<and> lv_deps l1 = lv_deps l \<and> db_state_ok d0 (fst w1)
    \<and> (share_view (fst w1) slug = Some s \<or> ended anon owned e (fst w) s)"
    using e Cons.prems(2,3)
  proof (cases rule: happen_cases)
    case (api user)
    then obtain q where q: "e = Http q" by blast
    have "\<not> may_rotate user s" "\<And>u. user = Some u \<Longrightarrow> \<not> owns_share d0 (usr_ID u) s"
      using api(4) [OF q] Cons.prems(5) q assms(5) by (auto simp: may_rotate_def only_from_def)
    from share_steps_untouched [OF api(6) Cons.prems(4) assms(5) this] api show ?thesis by simp
  next
    case job
    with job(4) [of slug] Cons.prems(4) show ?thesis by auto
  qed
  show ?case
  proof (cases "share_view (fst w1) slug = Some s")
    case True
    have "only_from (dp_Verifier (lv_deps l1)) es (\<lambda>u. usr_ID u \<noteq> sh_OwnerID s \<and> \<not> owns_share d0 (usr_ID u) s)"
      using step Cons.prems(5) by (simp add: only_from_def)
    from Cons.IH [OF es _ _ True this] step
    have "share_view (fst w') slug = Some s
      \<or> (\<exists>es1 e' es2 l2 w2. es = es1 @ e' # es2 \<and> happen_all c bucket anon owned es1 (l1, w1) = Some (l2, w2)
           \<and> share_view (fst w2) slug = Some s \<and> ended anon owned e' (fst w2) s)" by simp
    then show ?thesis
    proof (elim disjE exE conjE)
      fix es1 e' es2 l2 w2
      assume "es = es1 @ e' # es2" "happen_all c bucket anon owned es1 (l1, w1) = Some (l2, w2)"
        "share_view (fst w2) slug = Some s" "ended anon owned e' (fst w2) s"
      with e show ?thesis
        by (intro disjI2 exI [of _ "e # es1"] exI [of _ e'] exI [of _ es2] exI [of _ l2] exI [of _ w2]) simp
    qed simp
  next
    case False
    with step Cons.prems(4) show ?thesis
      by (intro disjI2 exI [of _ "[]"] exI [of _ e] exI [of _ es] exI [of _ l] exI [of _ w]) simp
  qed
qed simp

text \<open>
  C5. A share of a signed-in user is out of everyone else's reach over HTTP: through the whole
  life of the server, as long as no request carries a token that the server accepts for
  its owner, it stays in place and unchanged, code, expiry and count included, until the
  retention job runs when the upload row of its file is past its window or the purge runs
  when it has expired; nothing else ends it.
\<close>

theorem only_owner_or_expiry:
  assumes "live_run c srv es w = Some (l', w')" "db_ok (fst w)"
    and "share_view (fst w) slug = Some s" "sh_OwnerID s \<noteq> []"
    and "\<forall>q u. Http q \<in> set es \<longrightarrow> signed_in (sv_Verifier srv) q u \<longrightarrow>
      usr_ID u \<noteq> sh_OwnerID s \<and> uuid_in (fst w) (usr_ID u) \<noteq> Some (sh_OwnerID s)"
  shows "share_view (fst w') slug = Some s
    \<or> (\<exists>es1 e es2 l1 w1 anon owned. es = es1 @ e # es2 \<and> live_run c srv es1 w = Some (l1, w1)
         \<and> share_view (fst w1) slug = Some s \<and> sv_Windows srv = Some (anon, owned)
         \<and> ended anon owned e (fst w1) s)"
proof -
  obtain l anon owned where l: "live_server c srv = Some l" "sv_Windows srv = Some (anon, owned)"
    and run: "happen_all c (so_bucketName (sv_Storage srv)) anon owned es (l, w) = Some (l', w')"
    by (rule live_run_eq [OF assms(1)])
  from live_server_wired [OF l(1)] have wired: "well_wired c (so_bucketName (sv_Storage srv)) l"
    and v: "dp_Verifier (lv_deps l) = sv_Verifier srv" by (simp_all add: route_deps_def)
  have "only_from (dp_Verifier (lv_deps l)) es (\<lambda>u. usr_ID u \<noteq> sh_OwnerID s \<and> \<not> owns_share (fst w) (usr_ID u) s)"
    using assms(5) by (simp add: only_from_def v owns_share_def)
  from happen_all_owner [OF run wired db_state_ok_self [OF assms(2)] assms(3,4) this]
  show ?thesis
  proof (elim disjE exE conjE)
    fix es1 e es2 l1 w1
    assume "es = es1 @ e # es2" "happen_all c (so_bucketName (sv_Storage srv)) anon owned es1 (l, w) = Some (l1, w1)"
      "share_view (fst w1) slug = Some s" "ended anon owned e (fst w1) s"
    with l show ?thesis
      by (intro disjI2 exI [of _ es1] exI [of _ e] exI [of _ es2] exI [of _ l1] exI [of _ w1] exI [of _ anon] exI [of _ owned])
        (simp add: live_run_def)
  qed simp
qed

subsection \<open>A download link over HTTP\<close>

lemma unlock_route:
  "r \<in> set (SetupRoutes d) \<Longrightarrow> rt_handler r = H_UnlockShare \<Longrightarrow>
   r = route POST [Lit ''shares'', Param, Lit ''unlock''] [LimitBody maxJSONBytes] H_UnlockShare"
  by (auto simp: SetupRoutes_def file_routes_def multipart_routes_def share_routes_def any_route_def Let_def
      split: if_splits option.splits)

lemma matches_Some:
  "matches [] path = Some ps \<longleftrightarrow> path = [] \<and> ps = []"
  "matches (Lit a # p) path = Some ps \<longleftrightarrow> (\<exists>ss. path = a # ss \<and> matches p ss = Some ps)"
  "matches (Param # p) path = Some ps \<longleftrightarrow>
     (\<exists>s ss qs. path = s # ss \<and> s \<noteq> [] \<and> matches p ss = Some qs \<and> ps = s # qs)"
  by (cases path; auto)+

lemma unlock_path:
  assumes "matches (api [Lit ''shares'', Param, Lit ''unlock'']) path = Some ps"
  shows "\<exists>slug. ps = [slug] \<and> path = [''api'', ''v1'', ''shares'', slug, ''unlock'']"
  using assms by (auto simp: api_def matches_Some)

lemma dispatch_unlock:
  assumes "dispatch l a q w = Some (R_Unlock r, l', w')"
  shows "ar_handler a = H_UnlockShare \<and> (\<exists>h. UnlockShare (lv_shares l) (ar_ctx a) (slug_param a)
     (b_unlock (ht_bodies q (ar_body_limit a))) (ht_clock q 1) (ht_clock q 2) (ht_clock q 3) w = (r, h, w'))"
  using assms by (cases "ar_handler a") (auto simp: dispatch_def Let_def split: prod.splits)

text \<open>
  C1. Unlocking takes the code, at any point in the life of a server that starts on a consistent
  database: a reply of the unlock handler that has a download link answers a POST to
  \<open>/api/v1/shares/<slug>/unlock\<close> whose body, read up to 64 KiB, has a code that hashes with
  the stored salt to the stored digest of the share under that slug, before the share
  expires. The link is for the file of that share, and no share changes. (Whoever has the
  storage key itself gets a link without a code from \<open>GET /api/v1/files/<key>\<close>, by design.)
\<close>

theorem unlock_over_http:
  assumes "live_run c srv es w = Some (l, w1)" "db_ok (fst w)" "shares_ok (share_view (fst w))"
    and "respond l q w1 = Some (R_Unlock (Success resp), l', w2)"
  shows "\<exists>slug req s salt s1 s2. rq_method (ht_request q) = POST
    \<and> rq_path (ht_request q) = [''api'', ''v1'', ''shares'', slug, ''unlock'']
    \<and> b_unlock (ht_bodies q (Some (64 * 1024))) = Some req \<and> share_view (fst w1) slug = Some s
    \<and> ht_clock q 3 \<le> sh_ExpiresAt s \<and> hex_decode (sh_CodeSalt s) = Inr salt
    \<and> hashCode salt (normalizeCode (uq_Code req)) = sh_CodeHash s
    \<and> c_PresignGetObject c (get_object_input (so_bucketName (sv_Storage srv)) (sh_StorageKey s)
         (uq_Download req)) Hour s1 = (Inr (ur_URL resp), s2)
    \<and> share_view (fst w2) = share_view (fst w1)"
proof -
  let ?bucket = "so_bucketName (sv_Storage srv)"
  obtain l0 anon owned where l0: "live_server c srv = Some l0"
    and run: "happen_all c ?bucket anon owned es (l0, w) = Some (l, w1)"
    by (rule live_run_eq [OF assms(1)])
  from happen_all_ok [OF run _ db_state_ok_self [OF assms(2)] assms(3)] live_server_wired [OF l0]
  have ok: "db_ok (fst w1)" and wired: "wired c ?bucket (lv_shares l)"
    by (simp_all add: db_state_ok_def well_wired_def)
  obtain x ls where x: "serve (lv_deps l) (ht_request q) (ht_clock q 0) (lv_limits l) = (x, ls)" by (rule prod.exhaust)
  with assms(4) obtain a where a: "x = Inr a" and d: "dispatch (l\<lparr>lv_limits := ls\<rparr>) a q w1 = Some (R_Unlock (Success resp), l', w2)"
    by (cases x) (auto simp: respond_def)
  from dispatch_unlock [OF d] obtain h where h: "ar_handler a = H_UnlockShare"
    and u: "UnlockShare (lv_shares l) (ar_ctx a) (slug_param a) (b_unlock (ht_bodies q (ar_body_limit a)))
      (ht_clock q 1) (ht_clock q 2) (ht_clock q 3) w1 = (Success resp, h, w2)" by auto
  obtain r a0 where r: "r \<in> set (SetupRoutes (lv_deps l))" "rt_method r = rq_method (ht_request q)"
      "ar_handler a = rt_handler r" "matches (rt_path r) (rq_path (ht_request q)) = Some (ar_params a)"
    and chain: "run_chain (rt_chain r) (ht_request q) (ht_clock q 0) a0 (lv_limits l) = (Inr a, ls)"
    by (rule serve_Inr [OF x [unfolded a]])
  have route: "r = route POST [Lit ''shares'', Param, Lit ''unlock''] [LimitBody maxJSONBytes] H_UnlockShare"
    using unlock_route [OF r(1)] r(3) h by simp
  with unlock_path r(4) obtain slug where slug: "ar_params a = [slug]"
    "rq_path (ht_request q) = [''api'', ''v1'', ''shares'', slug, ''unlock'']" by auto
  from run_chain_body [OF chain] route have "ar_body_limit a = Some (64 * 1024)" by (simp add: maxJSONBytes_def)
  with u slug(1) have "UnlockShare (lv_shares l) (ar_ctx a) slug (b_unlock (ht_bodies q (Some (64 * 1024))))
      (ht_clock q 1) (ht_clock q 2) (ht_clock q 3) w1 = (Success resp, h, w2)" by (simp add: slug_param_def)
  with wired ok show ?thesis
  proof (rule live_unlock)
    fix req s v
    assume l: "b_unlock (ht_bodies q (Some (64 * 1024))) = Some req" "share_view (fst w1) slug = Some s"
      "Verify s (uq_Code req) (ht_clock q 3) = None" "share_view (fst w2) = share_view (fst w1)"
      "os_GetPresignedURL (s3_files c ?bucket) (sh_StorageKey s) (uq_Download req) v = (Inr (ur_URL resp), w2)"
    from l(5) have "c_PresignGetObject c (get_object_input ?bucket (sh_StorageKey s) (uq_Download req)) Hour (snd v)
        = (Inr (ur_URL resp), snd w2)"
      by (auto simp: s3_files_def on_s3_eq S3_GetPresignedURL_def PresignTTL_def split: prod.splits sum.splits)
    with l slug(2) r(2) route show ?thesis unfolding Verify_None by auto
  qed
qed

subsection \<open>A server at work\<close>

definition sample_server :: server where
  "sample_server = \<lparr>sv_Config = fst (Load sample_env),
     sv_Storage = \<lparr>so_aws = aws_settings_of (cf_S3 (fst (Load sample_env))), so_UsePathStyle = True,
       so_BaseEndpoint = None, so_bucketName = ''oss-archive''\<rparr>, sv_Database = True,
     sv_Verifier = Some sample_verifier, sv_Windows = Some (72 * Hour, 168 * Hour)\<rparr>"

definition sample_live :: "unit live" where
  "sample_live = the (live_server two_page_client sample_server)"

lemma sample_windows: "sv_Windows sample_server = Some (72 * Hour, 168 * Hour)"
  by (simp add: sample_server_def)

lemma sample_server_live: "live_server two_page_client sample_server = Some sample_live"
  by (simp add: sample_live_def live_server_def server_share_handler_def sample_server_def)

lemma sample_live_simps:
  "lv_limits sample_live = new_limiters" "dp_Shares (lv_deps sample_live)"
  "dp_Verifier (lv_deps sample_live) = Some sample_verifier"
  "\<exists>b m n. lv_shares sample_live = NewShareHandler db_share_store (s3_files two_page_client b) (Some db_upload_lookup) m n"
  by (simp_all add: sample_live_def live_server_def server_share_handler_def sample_server_def route_deps_def Let_def)
    blast

definition plain_http :: "request \<Rightarrow> http" where
  "plain_http rq = \<lparr>ht_request = rq,
     ht_bodies = \<lambda>_. \<lparr>b_presign = None, b_init = None, b_part = None, b_ref = None, b_complete = None,
       b_create = None, b_unlock = Some \<lparr>uq_Code = ''aaa-AAA'', uq_Download = False\<rparr>\<rparr>,
     ht_download = [], ht_clock = \<lambda>_. 9000, ht_uuid = sample_id, ht_entropy = []\<rparr>"

text \<open>Someone asks for the history without a token, and is turned away; then both jobs run.\<close>

definition nobody :: http where
  "nobody = plain_http \<lparr>rq_method = GET, rq_path = [''api'', ''v1'', ''shares''], rq_ClientIP = ''10.0.0.9'',
     rq_Authorization = []\<rparr>"


lemma nobody_route:
  "find_route (SetupRoutes (lv_deps sample_live)) GET [''api'', ''v1'', ''shares'']
     = Some (route GET [Lit ''shares''] [AuthRequired sample_verifier] H_ListMine)"
  by (subst find_share_route) (simp add: sample_live_simps share_routes_def find_route_def api_def)

lemma no_token: "bearerToken [] = []"
  by code_simp

lemma nobody_turned_away: "\<exists>r. respond sample_live nobody w = Some (R_Local r, sample_live, w)"
proof -
  have "\<exists>r. (Required sample_verifier [] :: unit response + user) = Inl r"
    by (simp add: Required_def no_token)
  then obtain r where "(Required sample_verifier [] :: unit response + user) = Inl r" ..
  moreover have "sample_live\<lparr>lv_limits := lv_limits sample_live\<rparr> = sample_live" by simp
  ultimately show ?thesis
    by (simp add: respond_def serve_def nobody_def plain_http_def nobody_route)
qed

lemma nobody_signed_in: "\<not> signed_in (sv_Verifier sample_server) nobody u"
  by (simp add: signed_in_def sample_server_def nobody_def plain_http_def Optional_def no_token)

lemma sample_live_run:
  "live_run two_page_client sample_server (Http nobody # es) w = live_run two_page_client sample_server es w"
proof -
  obtain r where "respond sample_live nobody w = Some (R_Local r, sample_live, w)"
    using nobody_turned_away by blast
  then show ?thesis by (simp add: live_run_def sample_server_live sample_windows)
qed

lemma created_consistent: "shares_ok (share_view created_db)"
proof -
  have "ValidateSlug ''aaaaaaaaaa'' = None" by code_simp
  then show ?thesis
    by (simp add: shares_ok_def created_view MaxShareCount_def) (simp add: scanShare_def created_row_def)
qed

definition sample_pass :: "nat \<Rightarrow> turn" where
  "sample_pass i = \<lparr>tn_job = i, tn_tick = 9000, tn_start = 9000, tn_now = 9000, tn_fin = 9000\<rparr>"

theorem live_run_consistent_witness:
  "\<exists>l' w'. live_run two_page_client sample_server [Http nobody, Job (sample_pass 1), Job (sample_pass 0)] (created_db, ()) = Some (l', w')
     \<and> db_ok (fst w') \<and> shares_ok (share_view (fst w'))"
proof -
  obtain l' w' where run: "live_run two_page_client sample_server [Http nobody, Job (sample_pass 1), Job (sample_pass 0)] (created_db, ())
      = Some (l', w')"
    by (simp add: sample_live_run) (simp add: live_run_def sample_server_live sample_windows sample_pass_def)
  from live_run_consistent [OF run] created_ok created_consistent run show ?thesis by simp
qed

theorem only_owner_or_expiry_witness:
  "\<exists>l' w'. live_run two_page_client sample_server [Http nobody] (created_db, ()) = Some (l', w')
     \<and> share_view (fst w') ''aaaaaaaaaa'' = Some (scanShare created_row)"
proof -
  obtain l' w' where run: "live_run two_page_client sample_server [Http nobody] (created_db, ()) = Some (l', w')"
    by (simp add: sample_live_run) (simp add: live_run_def sample_server_live sample_windows)
  have "sh_OwnerID (scanShare created_row) \<noteq> []" by (simp add: created_row_def from_null_def)
  with only_owner_or_expiry [OF run, of "''aaaaaaaaaa''" "scanShare created_row"] nobody_signed_in created_ok run
  show ?thesis by (auto simp: created_view Cons_eq_append_conv)
qed

definition unlock_http :: http where
  "unlock_http = plain_http \<lparr>rq_method = POST,
     rq_path = [''api'', ''v1'', ''shares'', ''aaaaaaaaaa'', ''unlock''], rq_ClientIP = ''10.0.0.9'',
     rq_Authorization = []\<rparr>"

lemma unlock_http_route:
  "find_route (SetupRoutes (lv_deps sample_live)) POST [''api'', ''v1'', ''shares'', ''aaaaaaaaaa'', ''unlock'']
     = Some (route POST [Lit ''shares'', Param, Lit ''unlock''] [LimitBody maxJSONBytes] H_UnlockShare)"
  by (subst find_share_route) (simp add: sample_live_simps share_routes_def find_route_def api_def)

lemma fresh_allowed:
  "\<exists>h. unlock_allowed (NewShareHandler store files up a b) slug ip t1 t2 = (True, h)"
  by (simp add: unlock_allowed_def NewShareHandler_def Allow_def newRateLimiter_def events_of_def table_full_def)

lemma created_unlocked:
  "\<exists>resp l' w'. respond sample_live unlock_http (created_db, ()) = Some (R_Unlock (Success resp), l', w')"
proof -
  obtain b m n where h: "lv_shares sample_live
      = NewShareHandler db_share_store (s3_files two_page_client b) (Some db_upload_lookup) m n"
    using sample_live_simps(4) by blast
  let ?ctx = "\<lparr>c_ClientIP = ''10.0.0.9'', c_User = None\<rparr>"
  obtain h' where allowed: "unlock_allowed (lv_shares sample_live) ''aaaaaaaaaa'' (c_ClientIP ?ctx) 9000 9000 = (True, h')"
    unfolding h using fresh_allowed by blast
  let ?s = "scanShare created_row"
  have wired: "wired two_page_client b (lv_shares sample_live)" by (simp add: h wired_new)
  have v: "Verify ?s ''aaa-AAA'' 9000 = None"
    by (rule created_code_opens) code_simp
  have slug: "ValidateSlug ''aaaaaaaaaa'' = None" by code_simp
  from UnlockShare_opens [OF wired _ _ _ slug allowed _ v, of "(created_db, ())" False "''get''" "()"] created_ok
  obtain resp h2 w2 where u: "UnlockShare (lv_shares sample_live) ?ctx ''aaaaaaaaaa''
      (Some \<lparr>uq_Code = ''aaa-AAA'', uq_Download = False\<rparr>) 9000 9000 9000 (created_db, ()) = (Success resp, h2, w2)"
    by (simp add: created_view two_page_client_def) (metis prod.collapse)
  have "matches (api [Lit ''shares'', Param, Lit ''unlock'']) [''api'', ''v1'', ''shares'', ''aaaaaaaaaa'', ''unlock'']
      = Some [''aaaaaaaaaa'']" by (simp add: api_def)
  then show ?thesis
    using u by (cases w2) (simp add: respond_def serve_def unlock_http_def plain_http_def unlock_http_route
        dispatch_def slug_param_def)
qed

theorem unlock_over_http_witness:
  "\<exists>s. share_view created_db ''aaaaaaaaaa'' = Some s \<and> 9000 \<le> sh_ExpiresAt s"
proof -
  have run: "live_run two_page_client sample_server [] (created_db, ()) = Some (sample_live, (created_db, ()))"
    by (simp add: live_run_def sample_server_live sample_windows)
  obtain resp l' w' where "respond sample_live unlock_http (created_db, ()) = Some (R_Unlock (Success resp), l', w')"
    using created_unlocked by blast
  from unlock_over_http [OF run _ _ this] created_ok(1) created_consistent show ?thesis
    by (auto simp: unlock_http_def plain_http_def)
qed

theorem requests_guarded_witness:
  "\<exists>r l' w' a ls. respond sample_live unlock_http (created_db, ()) = Some (R_Unlock (Success r), l', w')
     \<and> serve (lv_deps sample_live) (ht_request unlock_http) 9000 (lv_limits sample_live) = (Inr a, ls)
     \<and> (\<exists>n. ar_body_limit a = Some n \<and> n \<le> 2 * 1024 * 1024)"
proof -
  obtain resp l' w' where run: "respond sample_live unlock_http (created_db, ()) = Some (R_Unlock (Success resp), l', w')"
    using created_unlocked by blast
  from requests_guarded [OF run] obtain a ls where
    a: "serve (lv_deps sample_live) (ht_request unlock_http) 9000 (lv_limits sample_live) = (Inr a, ls)"
      "dispatch (sample_live\<lparr>lv_limits := ls\<rparr>) a unlock_http (created_db, ()) = Some (R_Unlock (Success resp), l', w')"
      "ar_handler a \<noteq> H_ShareMaintenance \<longrightarrow> (\<exists>n. ar_body_limit a = Some n \<and> n \<le> 2 * 1024 * 1024)"
    by (auto simp: unlock_http_def plain_http_def)
  from dispatch_unlock [OF a(2)] a(3) have "\<exists>n. ar_body_limit a = Some n \<and> n \<le> 2 * 1024 * 1024" by simp
  with run a(1) show ?thesis by blast
qed

end
