(* ===== verification/Delivery.thy ===== *)
theory Delivery
  imports Service
begin

section \<open>From the code to the file, over HTTP\<close>

text \<open>
  The promise of the service, across everything that may happen in between: a code that a
  request for a share has brought back is good for a download link later.
\<close>

subsection \<open>A life cut in two\<close>

lemma live_run_state:
  assumes "live_run c srv es w = Some (l, w1)" "db_ok (fst w)" "shares_ok (share_view (fst w))"
  obtains anon owned where "sv_Windows srv = Some (anon, owned)" "sv_Database srv"
    "\<forall>fs. live_run c srv (es @ fs) w = happen_all c (so_bucketName (sv_Storage srv)) anon owned fs (l, w1)"
    "db_state_ok (fst w) (fst w1)" "shares_ok (share_view (fst w1))"
    "well_wired c (so_bucketName (sv_Storage srv)) l" "lv_deps l = route_deps srv"
proof -
  obtain l0 anon owned where l0: "live_server c srv = Some l0" "sv_Windows srv = Some (anon, owned)"
    and run: "happen_all c (so_bucketName (sv_Storage srv)) anon owned es (l0, w) = Some (l, w1)"
    by (rule live_run_eq [OF assms(1)])
  note start = live_server_wired [OF l0(1)]
  from happen_all_ok [OF run _ db_state_ok_self [OF assms(2)] assms(3)] start
  have ok: "db_state_ok (fst w) (fst w1)" "shares_ok (share_view (fst w1))"
    "well_wired c (so_bucketName (sv_Storage srv)) l" "lv_deps l = route_deps srv" by simp_all
  have db: "sv_Database srv"
    using l0(1) by (auto simp: live_server_def server_share_handler_def split: if_splits)
  have "\<forall>fs. live_run c srv (es @ fs) w = happen_all c (so_bucketName (sv_Storage srv)) anon owned fs (l, w1)"
    by (simp add: live_run_def l0 happen_all_append run)
  from that [OF l0(2) db this ok] show thesis .
qed

subsection \<open>The two requests\<close>

lemma dispatch_create:
  assumes "dispatch l a q w = Some (R_Create r, l', w')"
  shows "\<exists>es. CreateShare (lv_shares l) (ar_ctx a) (b_create (ht_bodies q (ar_body_limit a)))
     (ht_clock q 1) (ht_clock q 2) (ht_entropy q) w = Some (r, es, w')"
  using assms by (cases "ar_handler a") (auto simp: dispatch_def Let_def split: prod.splits)

lemma respond_create:
  assumes "respond l q w = Some (R_Create r, l', w')"
  obtains a :: arrival and es where "CreateShare (lv_shares l) (ar_ctx a) (b_create (ht_bodies q (ar_body_limit a)))
     (ht_clock q 1) (ht_clock q 2) (ht_entropy q) w = Some (r, es, w')"
proof -
  obtain x ls where x: "serve (lv_deps l) (ht_request q) (ht_clock q 0) (lv_limits l) = (x, ls)" by (rule prod.exhaust)
  with assms obtain a where "dispatch (l\<lparr>lv_limits := ls\<rparr>) a q w = Some (R_Create r, l', w')"
    by (cases x) (auto simp: respond_def)
  from dispatch_create [OF this] obtain es where "CreateShare (lv_shares l) (ar_ctx a)
     (b_create (ht_bodies q (ar_body_limit a))) (ht_clock q 1) (ht_clock q 2) (ht_entropy q) w = Some (r, es, w')" by auto
  then show thesis by (rule that)
qed

lemma unlock_found:
  assumes "dp_Shares d" "slug \<noteq> []"
  shows "find_route (SetupRoutes d) POST [''api'', ''v1'', ''shares'', slug, ''unlock'']
    = Some (route POST [Lit ''shares'', Param, Lit ''unlock''] [LimitBody maxJSONBytes] H_UnlockShare)"
  using assms by (subst find_share_route) (simp add: share_routes_def find_route_def api_def)

lemma respond_unlock:
  assumes "dp_Shares (lv_deps l)" "slug \<noteq> []" "rq_method (ht_request q) = POST"
    and "rq_path (ht_request q) = [''api'', ''v1'', ''shares'', slug, ''unlock'']"
    and "UnlockShare (lv_shares l) \<lparr>c_ClientIP = rq_ClientIP (ht_request q), c_User = None\<rparr> slug
      (b_unlock (ht_bodies q (Some (64 * 1024)))) (ht_clock q 1) (ht_clock q 2) (ht_clock q 3) w = (r, h, w')"
  shows "\<exists>l'. respond l q w = Some (R_Unlock r, l', w')"
proof -
  have "matches (api [Lit ''shares'', Param, Lit ''unlock'']) [''api'', ''v1'', ''shares'', slug, ''unlock'']
      = Some [slug]" using assms(2) by (simp add: api_def)
  moreover have "maxJSONBytes = 64 * 1024" by (simp add: maxJSONBytes_def)
  ultimately show ?thesis
    using assms(3-5) by (simp add: respond_def serve_def unlock_found [OF assms(1,2)] dispatch_def slug_param_def)
qed

lemma respond_unlock_opens:
  assumes "wired c bucket (lv_shares l)" "dp_Shares (lv_deps l)" "weather (fst w) = []" "db_ok (fst w)"
    and "share_view (fst w) slug = Some s" "ValidateSlug slug = None"
    and "rq_method (ht_request q) = POST" "rq_path (ht_request q) = [''api'', ''v1'', ''shares'', slug, ''unlock'']"
    and "b_unlock (ht_bodies q (Some (64 * 1024))) = Some \<lparr>uq_Code = typed, uq_Download = dl\<rparr>" "typed \<noteq> []"
    and "Verify s typed (ht_clock q 3) = None"
    and "unlock_allowed (lv_shares l) slug (rq_ClientIP (ht_request q)) (ht_clock q 1) (ht_clock q 2) = (True, h)"
    and "c_PresignGetObject c (get_object_input bucket (sh_StorageKey s) dl) Hour (snd w) = (Inr url, s')"
  shows "\<exists>l' w'. respond l q w = Some (R_Unlock (Success \<lparr>ur_URL = url, ur_ExpiresIn = 3600,
    ur_FileName = sh_FileName s, ur_FileSize = sh_FileSize s\<rparr>), l', w')"
proof -
  let ?ctx = "\<lparr>c_ClientIP = rq_ClientIP (ht_request q), c_User = None\<rparr>"
  let ?u = "UnlockShare (lv_shares l) ?ctx slug (b_unlock (ht_bodies q (Some (64 * 1024))))
      (ht_clock q 1) (ht_clock q 2) (ht_clock q 3) w"
  have allowed: "unlock_allowed (lv_shares l) slug (c_ClientIP ?ctx) (ht_clock q 1) (ht_clock q 2) = (True, h)"
    using assms(12) by simp
  have "fst ?u = Success \<lparr>ur_URL = url, ur_ExpiresIn = 3600, ur_FileName = sh_FileName s, ur_FileSize = sh_FileSize s\<rparr>"
    unfolding assms(9) by (rule UnlockShare_opens [OF assms(1,3,4,5,6) allowed assms(10,11,13)])
  then obtain h' w' where u: "?u = (Success \<lparr>ur_URL = url, ur_ExpiresIn = 3600, ur_FileName = sh_FileName s,
      ur_FileSize = sh_FileSize s\<rparr>, h', w')" by (metis prod.collapse)
  have "slug \<noteq> []" using assms(6) by (auto simp: ValidateSlug_iff slugLength_def)
  from respond_unlock [OF assms(2) this assms(7,8) u] show ?thesis by blast
qed

subsection \<open>The promise\<close>

text \<open>
  C2. A code that came back over HTTP keeps its promise: when a request for a share of a
  signed-in user is answered with success at any point in the life of the server, then
  whatever else happens, requests of other users and strangers and passes of the jobs, the
  code, typed in either case with spaces and dashes anywhere, gets the download link of
  the file in a POST to the unlock address, until the share expires; unless the retention
  job met the file past its window or the purge met the share past its expiry. The limiter
  must let the attempt through, the database answer and S3 sign.
\<close>

theorem code_works_over_http:
  assumes life: "live_run c srv es1 w = Some (l1, w1)" "respond l1 q w1 = Some (R_Create (Success resp), l2, w2)"
      "live_run c srv (es1 @ Http q # es2) w = Some (l3, w3)"
    and start: "db_ok (fst w)" "shares_ok (share_view (fst w))"
    and owned_share: "share_view (fst w2) (cr_Slug resp) = Some s" "sh_OwnerID s \<noteq> []"
    and others: "\<forall>q' u. Http q' \<in> set es2 \<longrightarrow> signed_in (sv_Verifier srv) q' u \<longrightarrow>
      usr_ID u \<noteq> sh_OwnerID s \<and> uuid_in (fst w) (usr_ID u) \<noteq> Some (sh_OwnerID s)"
    and request: "rq_method (ht_request q') = POST"
      "rq_path (ht_request q') = [''api'', ''v1'', ''shares'', cr_Slug resp, ''unlock'']"
      "b_unlock (ht_bodies q' (Some (64 * 1024))) = Some \<lparr>uq_Code = typed, uq_Download = dl\<rparr>"
      "typed \<noteq> []" "ToLower (filter (\<lambda>c. \<not> separator c) typed) = ToLower (cr_Code resp)"
      "ht_clock q' 3 \<le> sh_ExpiresAt s"
    and health: "weather (fst w3) = []"
      "unlock_allowed (lv_shares l3) (cr_Slug resp) (rq_ClientIP (ht_request q')) (ht_clock q' 1) (ht_clock q' 2) = (True, h)"
      "c_PresignGetObject c (get_object_input (so_bucketName (sv_Storage srv)) (sh_StorageKey s) dl) Hour (snd w3) = (Inr url, s')"
  shows "(\<exists>es3 e es4 l4 w4 anon owned. es2 = es3 @ e # es4 \<and> live_run c srv (es1 @ Http q # es3) w = Some (l4, w4)
        \<and> sv_Windows srv = Some (anon, owned) \<and> ended anon owned e (fst w4) s)
    \<or> (\<exists>l4 w4. respond l3 q' w3 = Some (R_Unlock (Success \<lparr>ur_URL = url, ur_ExpiresIn = 3600,
          ur_FileName = sh_FileName s, ur_FileSize = sh_FileSize s\<rparr>), l4, w4))"
proof -
  let ?bucket = "so_bucketName (sv_Storage srv)"
  obtain anon owned where win: "sv_Windows srv = Some (anon, owned)" and db: "sv_Database srv"
    and rest: "\<forall>fs. live_run c srv (es1 @ fs) w = happen_all c ?bucket anon owned fs (l1, w1)"
    and ok1: "db_state_ok (fst w) (fst w1)" "shares_ok (share_view (fst w1))"
    and wired1: "well_wired c ?bucket l1" "lv_deps l1 = route_deps srv"
    by (rule live_run_state [OF life(1) start])
  have after: "live_run c srv (es1 @ Http q # fs) w = happen_all c ?bucket anon owned fs (l2, w2)" for fs
    by (simp add: rest life(2))
  from after [of "[]"] have "live_run c srv (es1 @ [Http q]) w = Some (l2, w2)" by simp
  from live_run_state [OF this start]
  obtain ok2: "db_state_ok (fst w) (fst w2)" "shares_ok (share_view (fst w2))"
    and wired2: "well_wired c ?bucket l2" "lv_deps l2 = route_deps srv" by blast
  from wired1(1) have h: "h_store (lv_shares l1) = db_share_store" "h_files (lv_shares l1) = s3_files c ?bucket"
    "h_uploads (lv_shares l1) = Some db_upload_lookup" by (auto simp: well_wired_def wired_def)
  obtain a :: arrival and es where "CreateShare (lv_shares l1) (ar_ctx a) (b_create (ht_bodies q (ar_body_limit a)))
     (ht_clock q 1) (ht_clock q 2) (ht_entropy q) w1 = Some (Success resp, es, w2)"
    by (rule respond_create [OF life(2)])
  note live = ok1(1) h this
  from live.CreateShare_code_opens [OF live] owned_share(1) request(5,6)
  have v: "Verify s typed (ht_clock q' 3) = None" by auto
  have slug: "ValidateSlug (cr_Slug resp) = None" using ok2(2) owned_share(1) by (rule shares_okD(4))
  from live_run_state [OF life(3) start] obtain ok3: "db_ok (fst w3)" and wired3: "wired c ?bucket (lv_shares l3)"
    and deps: "dp_Shares (lv_deps l3)" by (metis db db_state_ok_def deps.select_convs(2) route_deps_def well_wired_def)
  have run2: "happen_all c ?bucket anon owned es2 (l2, w2) = Some (l3, w3)"
    using life(3) after [of es2] by simp
  have "only_from (dp_Verifier (lv_deps l2)) es2 (\<lambda>u. usr_ID u \<noteq> sh_OwnerID s \<and> \<not> owns_share (fst w) (usr_ID u) s)"
    using others by (simp add: only_from_def wired2 route_deps_def owns_share_def)
  from happen_all_owner [OF run2 wired2(1) ok2(1) owned_share this]
  consider "share_view (fst w3) (cr_Slug resp) = Some s"
    | es3 e es4 l4 w4 where "es2 = es3 @ e # es4" "happen_all c ?bucket anon owned es3 (l2, w2) = Some (l4, w4)"
      "ended anon owned e (fst w4) s" by auto
  then show ?thesis
  proof cases
    case 1
    from respond_unlock_opens [OF wired3 deps health(1) ok3 1 slug request(1-4) v health(2,3)]
    show ?thesis by blast
  next
    case 2
    with after [of es3] win show ?thesis
      by (intro disjI1 exI [of _ es3] exI [of _ e] exI [of _ es4] exI [of _ l4] exI [of _ w4] exI [of _ anon] exI [of _ owned]) simp
  qed
qed

text \<open>A signed-in user makes a share, a stranger is turned away, the recipient unlocks the file.\<close>

definition create_http :: http where
  "create_http = \<lparr>ht_request = \<lparr>rq_method = POST, rq_path = [''api'', ''v1'', ''shares''],
       rq_ClientIP = ''10.0.0.9'', rq_Authorization = ''bEARER  good ''\<rparr>,
     ht_bodies = \<lambda>_. \<lparr>b_presign = None, b_init = None, b_part = None, b_ref = None, b_complete = None,
       b_create = Some sample_create, b_unlock = None\<rparr>,
     ht_download = [], ht_clock = \<lambda>_. 7000, ht_uuid = [], ht_entropy = sample_entropy\<rparr>"

lemma create_found:
  "find_route (SetupRoutes (lv_deps sample_live)) POST [''api'', ''v1'', ''shares'']
     = Some (route POST [Lit ''shares''] [Limit CreateLimit, AuthOptional sample_verifier, LimitBody maxJSONBytes] H_CreateShare)"
  by (subst find_share_route) (simp add: sample_live_simps share_routes_def find_route_def api_def optional_auth_def)

lemma fresh_limit: "\<exists>l. RateLimitByIP ip now (new_limiters CreateLimit) = (None :: unit response option, l)"
  by (simp add: RateLimitByIP_def new_limiters_def Allow_def newRateLimiter_def events_of_def table_full_def)

lemma create_responds:
  "\<exists>ls. respond sample_live create_http (empty_db, ()) = Some (R_Create (Success (create_reply sample_new ''AAAAAA'' False)),
     sample_live\<lparr>lv_limits := ls\<rparr>, (created_db, ()))"
proof -
  obtain lim where lim: "RateLimitByIP ''10.0.0.9'' 7000 (new_limiters CreateLimit) = (None :: unit response option, lim)"
    using fresh_limit by blast
  obtain b m n where h: "lv_shares sample_live
      = NewShareHandler db_share_store (s3_files two_page_client b) (Some db_upload_lookup) m n"
    using sample_live_simps(4) by blast
  have "Optional sample_verifier ''bEARER  good '' = Some \<lparr>usr_ID = ''u-1'', usr_Email = ''a@b.c''\<rparr>"
    by (simp add: Optional_def sample_bearer parse_def sample_verifier_def parser_opts_def string_claim_def)
  moreover have "CreateShare (lv_shares sample_live) sample_ctx (Some sample_create) 7000 7000 sample_entropy (empty_db, ())
      = Some (Success (create_reply sample_new ''AAAAAA'' False), [], (created_db, ()))"
    by (rule sample_create_made [where b = b]) (simp_all add: h NewShareHandler_def)
  ultimately show ?thesis
    by (intro exI [of _ "new_limiters(CreateLimit := lim)"])
      (simp add: respond_def serve_def create_http_def create_found lim sample_live_simps dispatch_def sample_ctx_def)
qed

lemma nobody_turned_away_later:
  "\<exists>r. respond (sample_live\<lparr>lv_limits := ls\<rparr>) nobody w = Some (R_Local r, sample_live\<lparr>lv_limits := ls\<rparr>, w)"
proof -
  have "\<exists>r. (Required sample_verifier [] :: unit response + user) = Inl r"
    by (simp add: Required_def no_token)
  then obtain r where "(Required sample_verifier [] :: unit response + user) = Inl r" ..
  then show ?thesis
    by (simp add: respond_def serve_def nobody_def plain_http_def nobody_route)
qed

theorem code_works_over_http_witness:
  "\<exists>l3 w3 l4 w4. live_run two_page_client sample_server [Http create_http, Http nobody] (empty_db, ()) = Some (l3, w3)
     \<and> respond l3 unlock_http w3 = Some (R_Unlock (Success \<lparr>ur_URL = ''get'', ur_ExpiresIn = 3600,
         ur_FileName = ''page.txt'', ur_FileSize = 27\<rparr>), l4, w4)"
proof -
  let ?resp = "create_reply sample_new ''AAAAAA'' False" and ?s = "scanShare created_row"
  obtain ls where made: "respond sample_live create_http (empty_db, ()) = Some (R_Create (Success ?resp),
      sample_live\<lparr>lv_limits := ls\<rparr>, (created_db, ()))" using create_responds by blast
  obtain r where away: "respond (sample_live\<lparr>lv_limits := ls\<rparr>) nobody (created_db, ())
      = Some (R_Local r, sample_live\<lparr>lv_limits := ls\<rparr>, (created_db, ()))" using nobody_turned_away_later by blast
  have none: "live_run two_page_client sample_server [] (empty_db, ()) = Some (sample_live, (empty_db, ()))"
    by (simp add: live_run_def sample_server_live sample_windows)
  have run: "live_run two_page_client sample_server ([] @ Http create_http # [Http nobody]) (empty_db, ())
      = Some (sample_live\<lparr>lv_limits := ls\<rparr>, (created_db, ()))"
    by (simp add: live_run_def sample_server_live sample_windows made away)
  obtain b m n where "lv_shares sample_live
      = NewShareHandler db_share_store (s3_files two_page_client b) (Some db_upload_lookup) m n"
    using sample_live_simps(4) by blast
  then obtain h where h: "unlock_allowed (lv_shares (sample_live\<lparr>lv_limits := ls\<rparr>)) (cr_Slug ?resp)
      (rq_ClientIP (ht_request unlock_http)) (ht_clock unlock_http 1) (ht_clock unlock_http 2) = (True, h)"
    using fresh_allowed by force
  have typed: "ToLower (filter (\<lambda>c. \<not> separator c) ''aaa-AAA'') = ToLower ''AAAAAA''" by code_simp
  have slug: "cr_Slug ?resp = ''aaaaaaaaaa''" "cr_Code ?resp = ''AAAAAA''"
    by (simp_all add: create_reply_def sample_new_def)
  have s: "share_view created_db ''aaaaaaaaaa'' = Some ?s" "sh_OwnerID ?s \<noteq> []" "9000 \<le> sh_ExpiresAt ?s"
    "sh_FileName ?s = ''page.txt''" "sh_FileSize ?s = 27"
    by (simp_all add: created_view created_row_def from_null_def Hour_eq)
  have "(\<exists>es3 e es4 l4 w4 anon owned. [Http nobody] = es3 @ e # es4
        \<and> live_run two_page_client sample_server ([] @ Http create_http # es3) (empty_db, ()) = Some (l4, w4)
        \<and> sv_Windows sample_server = Some (anon, owned) \<and> ended anon owned e (fst w4) ?s)
    \<or> (\<exists>l4 w4. respond (sample_live\<lparr>lv_limits := ls\<rparr>) unlock_http (created_db, ()) = Some (R_Unlock (Success
        \<lparr>ur_URL = ''get'', ur_ExpiresIn = 3600, ur_FileName = sh_FileName ?s, ur_FileSize = sh_FileSize ?s\<rparr>), l4, w4))"
  proof (rule code_works_over_http [OF none made run, where typed = "''aaa-AAA''" and dl = False and s' = "()"])
    show "weather (fst (created_db, ())) = []" "shares_ok (share_view (fst (empty_db, ())))" "db_ok (fst (empty_db, ()))"
      using created_ok by (simp_all add: db_ok_def shares_ok_def share_view_def)
    show "share_view (fst (created_db, ())) (cr_Slug ?resp) = Some ?s" using s(1) slug by simp
    show "ToLower (filter (\<lambda>c. \<not> separator c) ''aaa-AAA'') = ToLower (cr_Code ?resp)" using typed slug by simp
    show "sh_OwnerID ?s \<noteq> []" "ht_clock unlock_http 3 \<le> sh_ExpiresAt ?s"
      using s(2,3) by (simp_all add: unlock_http_def plain_http_def)
    show "c_PresignGetObject two_page_client (get_object_input (so_bucketName (sv_Storage sample_server))
        (sh_StorageKey ?s) False) Hour (snd (created_db, ())) = (Inr ''get'', ())"
      by (simp add: two_page_client_def)
    show "\<forall>q' u. Http q' \<in> set [Http nobody] \<longrightarrow> signed_in (sv_Verifier sample_server) q' u \<longrightarrow>
        usr_ID u \<noteq> sh_OwnerID ?s \<and> uuid_in (fst (empty_db, ())) (usr_ID u) \<noteq> Some (sh_OwnerID ?s)"
      using nobody_signed_in by simp
  qed (use h slug in \<open>simp_all add: unlock_http_def plain_http_def\<close>)
  with run s show ?thesis by (auto simp: Cons_eq_append_conv)
qed

end
