(* ===== verification/Schema.thy ===== *)
theory Schema
  imports Migrate "HOL-Library.Product_Lexorder"
begin

section \<open>db: the embedded migrations and the schema they build\<close>

text \<open>
  The five files of \<open>db/migrations\<close>, statement by statement, and the directory that
  \<open>db/embed.go\<close> embeds. A statement is a value of type \<open>ddl\<close>, executed on tables of untyped rows the
  way Postgres does: names in one namespace, constraints checked, defaults filled in. The
  text of a file plays no role, so \<open>ReadFile\<close> delivers the path for it. What comes out is
  the schema that \<open>Database\<close> takes for granted.
\<close>

subsection \<open>Tables\<close>

datatype sqltype = Uuid | Text | Bigint | Integer | Timestamptz | Jsonb

datatype sqlval = VUuid string | VText string | VInt int | VTime time | VJson detail

fun has_type :: "sqlval \<Rightarrow> sqltype \<Rightarrow> bool" where
  "has_type (VUuid s) ty \<longleftrightarrow> ty = Uuid"
| "has_type (VText s) ty \<longleftrightarrow> ty = Text"
| "has_type (VInt n) ty \<longleftrightarrow> ty = Bigint \<or> ty = Integer"
| "has_type (VTime t) ty \<longleftrightarrow> ty = Timestamptz"
| "has_type (VJson d) ty \<longleftrightarrow> ty = Jsonb"

text \<open>
  A column: its name and type, whether it is \<open>not null\<close>, and whether it is \<open>unique\<close> or the
  primary key. A default matters only where rows exist already, in \<open>AddColumn\<close>.
\<close>

record column =
  cl_name :: string
  cl_type :: sqltype
  cl_notnull :: bool
  cl_unique :: bool

type_synonym tuple = "string \<Rightarrow> sqlval option"

record table =
  tb_columns :: "column list"
  tb_rows :: "tuple list"

record schema =
  sc_tables :: "(string \<times> table) list"
  sc_indexes :: "string list"

definition relation_names :: "schema \<Rightarrow> string list" where
  "relation_names s = map fst (sc_tables s) @ sc_indexes s"

definition set_table :: "string \<Rightarrow> (table \<Rightarrow> table) \<Rightarrow> schema \<Rightarrow> schema" where
  "set_table name f s =
     s\<lparr>sc_tables := map (\<lambda>(n, t). if n = name then (n, f t) else (n, t)) (sc_tables s)\<rparr>"

text \<open>A unique column holds no value twice; nulls are not compared.\<close>

definition unique_in :: "string \<Rightarrow> tuple list \<Rightarrow> bool" where
  "unique_in col rows \<longleftrightarrow> distinct (filter (\<lambda>v. v \<noteq> None) (map (\<lambda>r. r col) rows))"

subsection \<open>Statements\<close>

datatype ddl =
    CreateTable string "column list"
  | CreateIndex string string string            \<comment> \<open>name, table, column\<close>
  | CreateUniqueIndex string string string
  | AddColumn string column "sqlval option"     \<comment> \<open>with the default\<close>
  | DeleteUsing string "tuple \<Rightarrow> tuple \<Rightarrow> bool"  \<comment> \<open>\<open>delete from t a using t b where ...\<close>\<close>

definition column_names :: "table \<Rightarrow> string list" where
  "column_names t = map cl_name (tb_columns t)"

fun exec_sql1 :: "ddl \<Rightarrow> schema \<Rightarrow> goerr + schema" where
  "exec_sql1 (CreateTable name cols) s =
     (if name \<in> set (relation_names s) then Inl (Fault ''relation already exists'')
      else Inr (s\<lparr>sc_tables := sc_tables s @ [(name, \<lparr>tb_columns = cols, tb_rows = []\<rparr>)]\<rparr>))"
| "exec_sql1 (CreateIndex name tab col) s =
     (case map_of (sc_tables s) tab of
        None \<Rightarrow> Inl (Fault ''relation does not exist'')
      | Some t \<Rightarrow>
          if name \<in> set (relation_names s) then Inl (Fault ''relation already exists'')
          else if col \<notin> set (column_names t) then Inl (Fault ''column does not exist'')
          else Inr (s\<lparr>sc_indexes := sc_indexes s @ [name]\<rparr>))"
| "exec_sql1 (CreateUniqueIndex name tab col) s =
     (case map_of (sc_tables s) tab of
        None \<Rightarrow> Inl (Fault ''relation does not exist'')
      | Some t \<Rightarrow>
          if name \<in> set (relation_names s) then Inl (Fault ''relation already exists'')
          else if col \<notin> set (column_names t) then Inl (Fault ''column does not exist'')
          else if \<not> unique_in col (tb_rows t) then Inl (Fault ''could not create unique index'')
          else Inr (set_table tab (\<lambda>t. t\<lparr>tb_columns := map (\<lambda>c. if cl_name c = col
                     then c\<lparr>cl_unique := True\<rparr> else c) (tb_columns t)\<rparr>)
                   (s\<lparr>sc_indexes := sc_indexes s @ [name]\<rparr>)))"
| "exec_sql1 (AddColumn tab c dflt) s =
     (case map_of (sc_tables s) tab of
        None \<Rightarrow> Inl (Fault ''relation does not exist'')
      | Some t \<Rightarrow>
          if cl_name c \<in> set (column_names t) then Inl (Fault ''column already exists'')
          else if cl_notnull c \<and> dflt = None \<and> tb_rows t \<noteq> [] then Inl (Fault ''column contains null values'')
          else Inr (set_table tab (\<lambda>t. \<lparr>tb_columns = tb_columns t @ [c],
                     tb_rows = map (\<lambda>r. r(cl_name c := dflt)) (tb_rows t)\<rparr>) s))"
| "exec_sql1 (DeleteUsing tab p) s =
     (case map_of (sc_tables s) tab of
        None \<Rightarrow> Inl (Fault ''relation does not exist'')
      | Some t \<Rightarrow>
          Inr (set_table tab (\<lambda>t. t\<lparr>tb_rows := filter (\<lambda>a. \<not> (\<exists>b \<in> set (tb_rows t). p a b)) (tb_rows t)\<rparr>) s))"

fun exec_sql :: "ddl list \<Rightarrow> schema \<Rightarrow> goerr + schema" where
  "exec_sql [] s = Inr s"
| "exec_sql (st # sts) s = (case exec_sql1 st s of Inl e \<Rightarrow> Inl e | Inr s' \<Rightarrow> exec_sql sts s')"

lemma exec_sql_append:
  "exec_sql (xs @ ys) s = (case exec_sql xs s of Inl e \<Rightarrow> Inl e | Inr s' \<Rightarrow> exec_sql ys s')"
  by (induction xs arbitrary: s) (auto split: sum.splits)

subsection \<open>The files\<close>

abbreviation "req_col n ty \<equiv> \<lparr>cl_name = n, cl_type = ty, cl_notnull = True, cl_unique = False\<rparr>"
abbreviation "opt_col n ty \<equiv> \<lparr>cl_name = n, cl_type = ty, cl_notnull = False, cl_unique = False\<rparr>"
abbreviation "key_col n ty \<equiv> \<lparr>cl_name = n, cl_type = ty, cl_notnull = True, cl_unique = True\<rparr>"

definition shares_columns :: "column list" where
  "shares_columns =
     [key_col ''id'' Uuid, key_col ''slug'' Text, opt_col ''owner_id'' Uuid, opt_col ''owner_email'' Text,
      opt_col ''recipient_email'' Text, req_col ''storage_key'' Text, req_col ''file_name'' Text,
      req_col ''file_size'' Bigint, req_col ''code_hash'' Text, req_col ''code_salt'' Text,
      req_col ''downloaded_count'' Integer, req_col ''created_at'' Timestamptz, req_col ''expires_at'' Timestamptz]"

definition migration_0001 :: "ddl list" where
  "migration_0001 =
     [CreateTable ''shares'' shares_columns,
      CreateIndex ''shares_owner_id_idx'' ''shares'' ''owner_id'',
      CreateIndex ''shares_expires_at_idx'' ''shares'' ''expires_at'']"

definition audit_columns :: "column list" where
  "audit_columns =
     [key_col ''id'' Uuid, req_col ''action'' Text, req_col ''subject'' Text, opt_col ''detail'' Jsonb,
      req_col ''created_at'' Timestamptz]"

definition migration_0002 :: "ddl list" where
  "migration_0002 =
     [CreateTable ''audit_log'' audit_columns,
      CreateIndex ''audit_log_action_idx'' ''audit_log'' ''action'',
      CreateIndex ''audit_log_created_at_idx'' ''audit_log'' ''created_at'']"

definition job_runs_columns :: "column list" where
  "job_runs_columns =
     [key_col ''id'' Uuid, req_col ''job'' Text, req_col ''started_at'' Timestamptz, req_col ''finished_at'' Timestamptz,
      req_col ''status'' Text, opt_col ''error'' Text, req_col ''created_at'' Timestamptz]"

definition migration_0003 :: "ddl list" where
  "migration_0003 =
     [CreateTable ''job_runs'' job_runs_columns,
      CreateIndex ''job_runs_job_idx'' ''job_runs'' ''job'',
      CreateIndex ''job_runs_created_at_idx'' ''job_runs'' ''created_at'']"

text \<open>Comparisons are not true when an operand is null. Canonical UUID texts order like UUIDs.\<close>

fun sql_less :: "sqlval option \<Rightarrow> sqlval option \<Rightarrow> bool" where
  "sql_less (Some (VTime a)) (Some (VTime b)) \<longleftrightarrow> a < b"
| "sql_less (Some (VUuid a)) (Some (VUuid b)) \<longleftrightarrow> a < b"
| "sql_less _ _ \<longleftrightarrow> False"

definition sql_eq :: "sqlval option \<Rightarrow> sqlval option \<Rightarrow> bool" where
  "sql_eq a b \<longleftrightarrow> a \<noteq> None \<and> a = b"

definition older_share :: "tuple \<Rightarrow> tuple \<Rightarrow> bool" where
  "older_share a b \<longleftrightarrow> sql_eq (a ''storage_key'') (b ''storage_key'')
     \<and> (sql_less (a ''created_at'') (b ''created_at'')
        \<or> sql_eq (a ''created_at'') (b ''created_at'') \<and> sql_less (a ''id'') (b ''id''))"

definition migration_0004 :: "ddl list" where
  "migration_0004 =
     [AddColumn ''shares'' (req_col ''share_count'' Integer) (Some (VInt 1)),
      DeleteUsing ''shares'' older_share,
      CreateUniqueIndex ''shares_storage_key_key'' ''shares'' ''storage_key'']"

definition uploads_columns :: "column list" where
  "uploads_columns =
     [key_col ''storage_key'' Text, opt_col ''owner_id'' Uuid, req_col ''file_name'' Text, req_col ''size_bytes'' Bigint,
      req_col ''created_at'' Timestamptz, req_col ''delete_attempts'' Integer, opt_col ''last_delete_error'' Text]"

definition migration_0005 :: "ddl list" where
  "migration_0005 =
     [CreateTable ''uploads'' uploads_columns,
      CreateIndex ''uploads_created_at_idx'' ''uploads'' ''created_at'']"

definition migration_files :: "(string \<times> ddl list) list" where
  "migration_files =
     [(''0001_init.sql'', migration_0001), (''0002_audit_log.sql'', migration_0002),
      (''0003_job_runs.sql'', migration_0003), (''0004_share_rotation.sql'', migration_0004),
      (''0005_uploads.sql'', migration_0005)]"

text \<open>\<open>db.Migrations\<close>, as \<open>migrate.go\<close> reads it.\<close>

definition Migrations :: embedded where
  "Migrations =
     \<lparr>em_ReadDir = Inr (map (\<lambda>(name, _). (name, False)) migration_files),
      em_ReadFile = \<lambda>path. if path \<in> set (map (\<lambda>(name, _). ''migrations/'' @ name) migration_files)
        then Inr path else Inl (Fault ''file does not exist'')\<rparr>"

definition apply_migration :: "string \<Rightarrow> schema \<Rightarrow> goerr + schema" where
  "apply_migration path s =
     (case map_of (map (\<lambda>(name, sts). (''migrations/'' @ name, sts)) migration_files) path of
        None \<Rightarrow> Inl (Fault ''syntax error'') | Some sts \<Rightarrow> exec_sql sts s)"

lemma Migrations_files:
  "migrationFiles Migrations = Inr [''0001_init.sql'', ''0002_audit_log.sql'', ''0003_job_runs.sql'',
     ''0004_share_rotation.sql'', ''0005_uploads.sql'']"
proof -
  have "sort [''0001_init.sql'', ''0002_audit_log.sql'', ''0003_job_runs.sql'',
     ''0004_share_rotation.sql'', ''0005_uploads.sql''] = [''0001_init.sql'', ''0002_audit_log.sql'',
     ''0003_job_runs.sql'', ''0004_share_rotation.sql'', ''0005_uploads.sql'']" by code_simp
  then show ?thesis by (simp add: migrationFiles_def Migrations_def migration_files_def HasSuffix_def)
qed

subsection \<open>The schema after \<open>k\<close> migrations, with whatever rows\<close>

definition rotated_columns :: "column list" where
  "rotated_columns =
     map (\<lambda>c. if cl_name c = ''storage_key'' then c\<lparr>cl_unique := True\<rparr> else c)
       (shares_columns @ [req_col ''share_count'' Integer])"

definition built :: "nat \<Rightarrow> tuple list \<Rightarrow> tuple list \<Rightarrow> tuple list \<Rightarrow> tuple list \<Rightarrow> schema" where
  "built k ss as js us =
     \<lparr>sc_tables = take k
        [(''shares'', \<lparr>tb_columns = (if 4 \<le> k then rotated_columns else shares_columns), tb_rows = ss\<rparr>),
         (''audit_log'', \<lparr>tb_columns = audit_columns, tb_rows = as\<rparr>),
         (''job_runs'', \<lparr>tb_columns = job_runs_columns, tb_rows = js\<rparr>)]
        @ (if 5 \<le> k then [(''uploads'', \<lparr>tb_columns = uploads_columns, tb_rows = us\<rparr>)] else []),
      sc_indexes = concat (take k
        [[''shares_owner_id_idx'', ''shares_expires_at_idx''],
         [''audit_log_action_idx'', ''audit_log_created_at_idx''],
         [''job_runs_job_idx'', ''job_runs_created_at_idx''],
         [''shares_storage_key_key''], [''uploads_created_at_idx'']])\<rparr>"

definition row_ok :: "column list \<Rightarrow> tuple \<Rightarrow> bool" where
  "row_ok cols r \<longleftrightarrow> (\<forall>c \<in> set cols.
     case r (cl_name c) of None \<Rightarrow> \<not> cl_notnull c | Some v \<Rightarrow> has_type v (cl_type c))"

definition rows_ok :: "column list \<Rightarrow> tuple list \<Rightarrow> bool" where
  "rows_ok cols rows \<longleftrightarrow> (\<forall>r \<in> set rows. row_ok cols r)
     \<and> (\<forall>c \<in> set cols. cl_unique c \<longrightarrow> unique_in (cl_name c) rows)"

text \<open>\<open>schema_at k\<close>: what the first \<open>k\<close> files build, with any rows its constraints admit.\<close>

definition schema_at :: "nat \<Rightarrow> schema \<Rightarrow> bool" where
  "schema_at k s \<longleftrightarrow> (\<exists>ss as js us. s = built k ss as js us
     \<and> rows_ok (if 4 \<le> k then rotated_columns else shares_columns) ss
     \<and> rows_ok audit_columns as \<and> rows_ok job_runs_columns js \<and> rows_ok uploads_columns us)"

lemma rows_ok_Nil [simp]: "rows_ok cols []"
  by (simp add: rows_ok_def unique_in_def)

lemma schema_at_blank: "schema_at 0 \<lparr>sc_tables = [], sc_indexes = []\<rparr>"
  unfolding schema_at_def by (rule exI [of _ "[]"])+ (simp add: built_def)

lemma unique_in_filter: "unique_in col rows \<Longrightarrow> unique_in col (filter P rows)"
  by (induction rows) (auto simp: unique_in_def, metis image_eqI)

lemma unique_in_map:
  assumes "\<And>r. r \<in> set rows \<Longrightarrow> f r col = r col"
  shows "unique_in col (map f rows) = unique_in col rows"
proof -
  have "map (\<lambda>r. r col) (map f rows) = map (\<lambda>r. r col) rows" using assms by simp
  then show ?thesis by (simp only: unique_in_def)
qed

lemmas built_simps = built_def relation_names_def column_names_def set_table_def eval_nat_numeral

lemma migrations_build:
  "exec_sql migration_0001 (built 0 ss as js us) = Inr (built 1 [] as js us)"
  "exec_sql migration_0002 (built 1 ss as js us) = Inr (built 2 ss [] js us)"
  "exec_sql migration_0003 (built 2 ss as js us) = Inr (built 3 ss as [] us)"
  "exec_sql migration_0005 (built 4 ss as js us) = Inr (built 5 ss as js [])"
  by (simp_all add: migration_0001_def migration_0002_def migration_0003_def migration_0005_def built_simps
      shares_columns_def audit_columns_def job_runs_columns_def uploads_columns_def)

subsection \<open>The rotation migration\<close>

definition counted :: "tuple \<Rightarrow> tuple" where
  "counted r = r(''share_count'' := Some (VInt 1))"

definition newest :: "tuple list \<Rightarrow> tuple list" where
  "newest rows = filter (\<lambda>a. \<not> (\<exists>b \<in> set rows. older_share a b)) rows"

lemma older_counted [simp]: "older_share (counted a) (counted b) = older_share a b"
  by (simp add: older_share_def counted_def)

lemma newest_counted: "newest (map counted rows) = map counted (newest rows)"
  by (simp add: newest_def filter_map o_def)

text \<open>On rows the constraints admit, \<open>older_share\<close> compares a key, a time and an id.\<close>

definition age :: "tuple \<Rightarrow> time \<times> string" where
  "age r = (case (r ''created_at'', r ''id'') of
     (Some (VTime t), Some (VUuid i)) \<Rightarrow> (t, i) | _ \<Rightarrow> (0, []))"

lemma shares_row:
  assumes "row_ok shares_columns r"
  obtains i t k where "r ''id'' = Some (VUuid i)" "r ''created_at'' = Some (VTime t)"
    "r ''storage_key'' = Some (VText k)"
proof -
  have "\<exists>i. r ''id'' = Some (VUuid i)" "\<exists>t. r ''created_at'' = Some (VTime t)"
    "\<exists>k. r ''storage_key'' = Some (VText k)"
    using assms unfolding row_ok_def shares_columns_def
    by (auto split: option.splits elim!: has_type.elims)
  then show thesis using that by blast
qed

lemma older_share_iff:
  assumes "row_ok shares_columns a" "row_ok shares_columns b"
  shows "older_share a b \<longleftrightarrow> a ''storage_key'' = b ''storage_key'' \<and> age a < age b"
  using assms by (elim shares_row) (auto simp: older_share_def sql_eq_def age_def less_prod_def')

lemma distinct_ids:
  assumes "rows_ok shares_columns rows"
  shows "distinct (map (\<lambda>r. r ''id'') rows)"
proof -
  have "filter (\<lambda>v. v \<noteq> None) (map (\<lambda>r. r ''id'') rows) = map (\<lambda>r. r ''id'') rows"
  proof (rule filter_True, simp)
    have "\<exists>y. x ''id'' = Some y" if "x \<in> set rows" for x
      using assms that by (auto simp: rows_ok_def intro: shares_row)
    then show "\<forall>x \<in> set rows. \<exists>y. x ''id'' = Some y" by blast
  qed
  moreover have "distinct (filter (\<lambda>v. v \<noteq> None) (map (\<lambda>r. r ''id'') rows))"
    using assms by (auto simp: rows_ok_def shares_columns_def unique_in_def)
  ultimately show ?thesis by simp
qed

lemma same_age:
  assumes "rows_ok shares_columns rows" "a \<in> set rows" "b \<in> set rows" "age a = age b"
  shows "a = b"
proof -
  have rows: "\<forall>r \<in> set rows. row_ok shares_columns r" using assms(1) by (simp add: rows_ok_def)
  from distinct_ids [OF assms(1)] have "inj_on (\<lambda>r. r ''id'') (set rows)" by (simp add: distinct_map)
  moreover from rows assms(2,3) have "row_ok shares_columns a" "row_ok shares_columns b" by simp_all
  then have "a ''id'' = b ''id''" by (elim shares_row) (use assms(4) in \<open>simp add: age_def\<close>)
  ultimately show ?thesis using assms(2,3) by (auto simp: inj_on_def)
qed

text \<open>Of every file exactly one row is left, and no row of the file is newer.\<close>

lemma newest_one:
  assumes "rows_ok shares_columns rows" "r \<in> set rows"
  shows "\<exists>!t. t \<in> set (newest rows) \<and> t ''storage_key'' = r ''storage_key''"
    and "t \<in> set (newest rows) \<Longrightarrow> t ''storage_key'' = r ''storage_key'' \<Longrightarrow> age r \<le> age t"
proof -
  have ok: "row_ok shares_columns x" if "x \<in> set rows" for x using assms(1) that by (simp add: rows_ok_def)
  let ?K = "{x \<in> set rows. x ''storage_key'' = r ''storage_key''}"
  have left: "t \<in> set (newest rows) \<and> t ''storage_key'' = r ''storage_key'' \<longleftrightarrow> t \<in> ?K \<and> (\<forall>x \<in> ?K. age x \<le> age t)" for t
    using ok by (fastforce simp: newest_def older_share_iff not_less)
  have "finite (age ` ?K)" "age ` ?K \<noteq> {}" using assms(2) by auto
  from Max_in [OF this] obtain m where m: "m \<in> ?K" "age m = Max (age ` ?K)" by auto
  have top: "\<forall>x \<in> ?K. age x \<le> age m" unfolding m(2) by (auto intro: Max_ge)
  with m(1) left have "m \<in> set (newest rows) \<and> m ''storage_key'' = r ''storage_key''" by blast
  moreover have "u = m" if "u \<in> set (newest rows) \<and> u ''storage_key'' = r ''storage_key''" for u
  proof -
    from that left have u: "u \<in> ?K" "\<forall>x \<in> ?K. age x \<le> age u" by blast+
    with m(1) top have "age u = age m" by (meson antisym)
    with u(1) m(1) same_age [OF assms(1)] show ?thesis by blast
  qed
  ultimately show "\<exists>!t. t \<in> set (newest rows) \<and> t ''storage_key'' = r ''storage_key''" by blast
  show "t \<in> set (newest rows) \<Longrightarrow> t ''storage_key'' = r ''storage_key'' \<Longrightarrow> age r \<le> age t"
    using left [of t] assms(2) by blast
qed

lemma newest_unique:
  assumes "rows_ok shares_columns rows"
  shows "unique_in ''storage_key'' (newest rows)"
proof -
  have "distinct (newest rows)" using distinct_ids [OF assms] by (simp add: distinct_map newest_def)
  moreover have "inj_on (\<lambda>r. r ''storage_key'') (set (newest rows))"
  proof (rule inj_onI)
    fix a b assume ab: "a \<in> set (newest rows)" "b \<in> set (newest rows)" "a ''storage_key'' = b ''storage_key''"
    then have "a \<in> set rows" by (simp add: newest_def)
    from newest_one(1) [OF assms this] ab show "a = b" by metis
  qed
  ultimately show ?thesis by (simp add: unique_in_def distinct_map)
qed

lemma rotation_rows_ok:
  assumes "rows_ok shares_columns rows"
  shows "rows_ok rotated_columns (map counted (newest rows))"
proof -
  have "row_ok rotated_columns (counted r)" if "r \<in> set (newest rows)" for r
  proof -
    from that assms have "row_ok shares_columns r" by (simp add: newest_def rows_ok_def)
    then show ?thesis by (simp add: row_ok_def rotated_columns_def shares_columns_def counted_def cong: option.case_cong)
  qed
  moreover have "unique_in col (map counted (newest rows))" if "unique_in col (newest rows)" "col \<noteq> ''share_count''" for col
    using that by (subst unique_in_map) (auto simp: counted_def)
  moreover have "unique_in ''id'' (newest rows)" "unique_in ''slug'' (newest rows)"
    using assms by (auto simp: newest_def rows_ok_def shares_columns_def intro: unique_in_filter)
  ultimately show ?thesis
    using newest_unique [OF assms] by (auto simp: rows_ok_def rotated_columns_def shares_columns_def)
qed

lemma rotation_migrates:
  assumes "rows_ok shares_columns ss"
  shows "exec_sql migration_0004 (built 3 ss as js us) = Inr (built 4 (map counted (newest ss)) as js us)"
proof -
  have map: "map (\<lambda>r. r(''share_count'' \<mapsto> VInt 1)) ss = map counted ss" by (simp add: counted_def [abs_def])
  have "unique_in ''storage_key'' (map counted (newest ss))"
    using newest_unique [OF assms] by (subst unique_in_map) (auto simp: counted_def)
  moreover have "filter (\<lambda>a. \<forall>b\<in>set (map counted ss). \<not> older_share a b) (map counted ss) = map counted (newest ss)"
    using newest_counted [of ss] by (simp add: newest_def)
  ultimately show ?thesis
    by (simp add: migration_0004_def built_simps map shares_columns_def rotated_columns_def)
qed

subsection \<open>All files, from any version\<close>

definition migration_names :: "string list" where
  "migration_names = map fst migration_files"

lemma migration_names_eq: "migration_names = [''0001_init.sql'', ''0002_audit_log.sql'',
    ''0003_job_runs.sql'', ''0004_share_rotation.sql'', ''0005_uploads.sql'']"
  by (simp add: migration_names_def migration_files_def)

lemma migration_read:
  assumes "k < 5"
  shows "em_ReadFile Migrations (''migrations/'' @ migration_names ! k) = Inr (''migrations/'' @ migration_names ! k)"
    and "apply_migration (''migrations/'' @ migration_names ! k) s = exec_sql (snd (migration_files ! k)) s"
proof -
  have "k = 0 \<or> k = 1 \<or> k = 2 \<or> k = 3 \<or> k = 4" using assms by auto
  then show "em_ReadFile Migrations (''migrations/'' @ migration_names ! k) = Inr (''migrations/'' @ migration_names ! k)"
    by (auto simp: Migrations_def migration_names_def migration_files_def)
  show "apply_migration (''migrations/'' @ migration_names ! k) s = exec_sql (snd (migration_files ! k)) s"
    using \<open>k = 0 \<or> _\<close> by (auto simp: apply_migration_def migration_names_def migration_files_def)
qed

lemma schema_step:
  assumes "k < 5" "schema_at k s"
  shows "\<exists>s'. exec_sql (snd (migration_files ! k)) s = Inr s' \<and> schema_at (Suc k) s'"
proof -
  from assms(2) obtain ss as js us where s: "s = built k ss as js us"
    and ok: "rows_ok (if 4 \<le> k then rotated_columns else shares_columns) ss" "rows_ok audit_columns as"
      "rows_ok job_runs_columns js" "rows_ok uploads_columns us"
    unfolding schema_at_def by blast
  consider "k = 0" | "k = 1" | "k = 2" | "k = 3" | "k = 4" using assms(1) by linarith
  then show ?thesis
  proof cases
    case 1
    with migrations_build(1) ok show ?thesis unfolding s schema_at_def
      by (fastforce simp: migration_files_def)
  next
    case 2
    with migrations_build(2) ok show ?thesis unfolding s schema_at_def
      by (fastforce simp: migration_files_def eval_nat_numeral)
  next
    case 3
    with migrations_build(3) ok show ?thesis unfolding s schema_at_def
      by (fastforce simp: migration_files_def eval_nat_numeral)
  next
    case 4
    with rotation_migrates ok rotation_rows_ok show ?thesis unfolding s schema_at_def
      by (fastforce simp: migration_files_def eval_nat_numeral)
  next
    case 5
    with migrations_build(4) ok show ?thesis unfolding s schema_at_def
      by (fastforce simp: migration_files_def eval_nat_numeral)
  qed
qed

lemma migrations_apply:
  assumes "k + n \<le> 5" "schema_at k s"
  shows "\<exists>s'. apply_all Migrations apply_migration (take n (drop k migration_names)) s = Some s' \<and> schema_at (k + n) s'"
  using assms
proof (induction n arbitrary: k s)
  case 0
  then show ?case by simp
next
  case (Suc n)
  then have k: "k < 5" by simp
  have "length migration_names = 5" by (simp add: migration_names_eq)
  with k have names: "drop k migration_names = migration_names ! k # drop (Suc k) migration_names"
    using Cons_nth_drop_Suc [of k migration_names] by simp
  from schema_step [OF k Suc.prems(2)] obtain s1 where s1: "exec_sql (snd (migration_files ! k)) s = Inr s1"
    "schema_at (Suc k) s1" by blast
  from Suc.IH [of "Suc k" s1] Suc.prems(1) s1(2) obtain s' where
    "apply_all Migrations apply_migration (take n (drop (Suc k) migration_names)) s1 = Some s'" "schema_at (Suc k + n) s'"
    by auto
  with s1(1) show ?case using migration_read [OF k] by (simp add: names)
qed

subsection \<open>The tables the service works on\<close>

fun text_of :: "sqlval option \<Rightarrow> string" where
  "text_of (Some (VText s)) = s"
| "text_of (Some (VUuid s)) = s"
| "text_of _ = []"

fun int_of_val :: "sqlval option \<Rightarrow> int" where
  "int_of_val (Some (VInt n)) = n"
| "int_of_val _ = 0"

fun time_of :: "sqlval option \<Rightarrow> time" where
  "time_of (Some (VTime t)) = t"
| "time_of _ = 0"

fun detail_of :: "sqlval option \<Rightarrow> detail option" where
  "detail_of (Some (VJson d)) = Some d"
| "detail_of _ = None"

definition opt_text :: "sqlval option \<Rightarrow> string option" where
  "opt_text v = map_option (\<lambda>_. text_of v) v"

definition share_row_of :: "tuple \<Rightarrow> share_row" where
  "share_row_of r =
     \<lparr>r_slug = text_of (r ''slug''), r_owner_id = opt_text (r ''owner_id''),
      r_owner_email = opt_text (r ''owner_email''), r_recipient_email = opt_text (r ''recipient_email''),
      r_storage_key = text_of (r ''storage_key''), r_file_name = text_of (r ''file_name''),
      r_file_size = int_of_val (r ''file_size''), r_code_hash = text_of (r ''code_hash''),
      r_code_salt = text_of (r ''code_salt''), r_share_count = int_of_val (r ''share_count''),
      r_created_at = time_of (r ''created_at''), r_expires_at = time_of (r ''expires_at'')\<rparr>"

definition audit_row_of :: "tuple \<Rightarrow> audit_row" where
  "audit_row_of r =
     \<lparr>a_action = text_of (r ''action''), a_subject = text_of (r ''subject''),
      a_detail = detail_of (r ''detail'')\<rparr>"

definition job_row_of :: "tuple \<Rightarrow> job_row" where
  "job_row_of r =
     \<lparr>j_job = text_of (r ''job''), j_started_at = time_of (r ''started_at''),
      j_finished_at = time_of (r ''finished_at''), j_status = text_of (r ''status''),
      j_error = map_option Fault (opt_text (r ''error''))\<rparr>"

definition upload_row_of :: "tuple \<Rightarrow> upload_row" where
  "upload_row_of r =
     \<lparr>u_storage_key = text_of (r ''storage_key''), u_owner_id = opt_text (r ''owner_id''),
      u_file_name = text_of (r ''file_name''), u_size_bytes = int_of_val (r ''size_bytes''),
      u_created_at = time_of (r ''created_at''), u_delete_attempts = int_of_val (r ''delete_attempts''),
      u_last_delete_error = map_option Fault (opt_text (r ''last_delete_error''))\<rparr>"

definition table_rows :: "string \<Rightarrow> schema \<Rightarrow> tuple list" where
  "table_rows name s = (case map_of (sc_tables s) name of None \<Rightarrow> [] | Some t \<Rightarrow> tb_rows t)"

definition tables_db :: "(string \<Rightarrow> string option) \<Rightarrow> schema \<Rightarrow> db" where
  "tables_db uuid s =
     \<lparr>shares_t = map share_row_of (table_rows ''shares'' s), uploads_t = map upload_row_of (table_rows ''uploads'' s),
      audit_t = map audit_row_of (table_rows ''audit_log'' s), job_runs_t = map job_row_of (table_rows ''job_runs'' s),
      uuid_in = uuid, weather = []\<rparr>"

text \<open>A unique text column makes its texts distinct.\<close>

lemma unique_texts:
  assumes "rows_ok cols rows" "key_col col Text \<in> set cols"
  shows "distinct (map (\<lambda>r. text_of (r col)) rows)"
proof -
  have texts: "\<exists>x. r col = Some (VText x)" if "r \<in> set rows" for r
  proof -
    from assms that have "case r col of None \<Rightarrow> False | Some v \<Rightarrow> has_type v Text"
      by (auto simp: rows_ok_def row_ok_def dest!: bspec split: option.splits)
    then show ?thesis by (auto split: option.splits elim: has_type.elims)
  qed
  then have "filter (\<lambda>v. v \<noteq> None) (map (\<lambda>r. r col) rows) = map (\<lambda>r. r col) rows"
    by (intro filter_True) auto
  moreover have "unique_in col rows" using assms by (auto simp: rows_ok_def)
  ultimately have dist: "distinct (map (\<lambda>r. r col) rows)" by (simp add: unique_in_def)
  have "map (\<lambda>r. r col) rows = map (\<lambda>r. Some (VText (text_of (r col)))) rows"
    using texts by (intro map_cong refl) (metis text_of.simps(1))
  with dist have "distinct (map (\<lambda>x. Some (VText x)) (map (\<lambda>r. text_of (r col)) rows))" by (simp add: o_def)
  then show ?thesis by (simp only: distinct_map)
qed

lemma tables_db_ok:
  assumes "schema_at 5 s"
  shows "db_ok (tables_db uuid s)"
proof -
  from assms obtain ss as js us where s: "s = built 5 ss as js us"
    and ok: "rows_ok rotated_columns ss" "rows_ok uploads_columns us"
    unfolding schema_at_def by auto
  have rows: "table_rows ''shares'' s = ss" "table_rows ''uploads'' s = us"
    by (simp_all add: s table_rows_def built_simps)
  have "key_col ''slug'' Text \<in> set rotated_columns" "key_col ''storage_key'' Text \<in> set rotated_columns"
    "key_col ''storage_key'' Text \<in> set uploads_columns"
    by (simp_all add: rotated_columns_def shares_columns_def uploads_columns_def)
  from unique_texts [OF ok(1) this(1)] unique_texts [OF ok(1) this(2)] unique_texts [OF ok(2) this(3)]
  show ?thesis
    by (simp add: db_ok_def tables_db_def rows o_def share_row_of_def upload_row_of_def)
qed


subsection \<open>A run of the embedded migrations\<close>

lemma migration_names_distinct: "distinct migration_names"
  by (simp add: migration_names_eq)

lemma pending_names:
  assumes "versions m = take k migration_names"
  shows "pending migration_names m = drop k migration_names"
proof -
  have "distinct (take k migration_names @ drop k migration_names)"
    using migration_names_distinct by simp
  then have "filter (\<lambda>n. n \<notin> set (take k migration_names)) (take k migration_names @ drop k migration_names)
    = drop k migration_names"
    by (simp only: filter_append distinct_append) (auto simp: filter_empty_conv intro!: filter_True)
  with assms show ?thesis by (simp add: pending_def)
qed

lemma fair_file:
  assumes "md_weather m = []" "em_ReadFile fs (''migrations/'' @ name) = Inr sql"
    and "apply_sql sql (md_schema m) = Inr s" "md_versions m = Some vs" "name \<notin> set vs"
  shows "\<exists>m'. apply_file fs apply_sql name m = (None, m') \<and> md_weather m' = [] \<and> md_schema m' = s
    \<and> md_versions m' = Some (vs @ [name])"
  using assms by (simp add: apply_file_def conn_def sql_migration_def sql_insert_version_def commit_def)

lemma fair_pending:
  assumes "k + n = 5" "j \<le> k" "md_weather m = []" "schema_at k (md_schema m)"
    and "md_versions m = Some (take k migration_names)"
  shows "fst (apply_pending Migrations apply_migration (take j migration_names) (drop k migration_names) m) = None"
  using assms
proof (induction n arbitrary: k m)
  case 0
  then show ?case by (simp add: migration_names_eq)
next
  case (Suc n)
  let ?name = "migration_names ! k"
  from Suc.prems(1) have k: "k < 5" by simp
  have five: "length migration_names = 5" by (simp add: migration_names_eq)
  with k have names: "drop k migration_names = ?name # drop (Suc k) migration_names"
    "take (Suc k) migration_names = take k migration_names @ [?name]"
    using Cons_nth_drop_Suc [of k migration_names] take_Suc_conv_app_nth [of k migration_names] by simp_all
  have new: "?name \<notin> set (take i migration_names)" if "i \<le> k" for i
    using migration_names_distinct k five that by (auto simp: in_set_conv_nth nth_eq_iff_index_eq)
  from schema_step [OF k Suc.prems(4)] obtain s1 where s1: "exec_sql (snd (migration_files ! k)) (md_schema m) = Inr s1"
    "schema_at (Suc k) s1" by blast
  from fair_file [where apply_sql = apply_migration, OF Suc.prems(3) migration_read(1) [OF k] _ Suc.prems(5) new] s1(1)
  obtain m1 where m1: "apply_file Migrations apply_migration ?name m = (None, m1)" "md_weather m1 = []"
    "md_schema m1 = s1" "md_versions m1 = Some (take (Suc k) migration_names)"
    using migration_read(2) [OF k] names(2) by auto
  from Suc.IH [of "Suc k" m1] Suc.prems(1,2) m1 s1(2)
  have "fst (apply_pending Migrations apply_migration (take j migration_names) (drop (Suc k) migration_names) m1) = None"
    by simp
  with new [OF Suc.prems(2)] m1(1) show ?case by (simp add: names)
qed

lemma apply_pending_skip:
  "set xs \<subseteq> set applied \<Longrightarrow> apply_pending fs f applied (xs @ ys) m = apply_pending fs f applied ys m"
  by (induction xs) auto

lemma fair_run:
  assumes "md_weather m = []" "k \<le> 5" "versions m = take k migration_names" "schema_at k (md_schema m)"
  shows "fst (Run Migrations apply_migration m) = None"
proof -
  let ?m = "m\<lparr>md_locked := True, md_versions := Some (take k migration_names)\<rparr>"
  have "(case md_versions m of None \<Rightarrow> Some [] | Some vs \<Rightarrow> Some vs) = Some (take k migration_names)"
    using assms(3) by (simp add: versions_def split: option.splits)
  then have "fst (Run Migrations apply_migration m)
    = fst (apply_pending Migrations apply_migration (take k migration_names) migration_names ?m)"
    using assms(1) Migrations_files
    by (simp add: Run_def run_locked_def conn_def sql_lock_def sql_ensure_table_def sql_select_versions_def
        migration_names_eq [symmetric] split: prod.splits)
  also have "\<dots> = fst (apply_pending Migrations apply_migration (take k migration_names) (drop k migration_names) ?m)"
    using apply_pending_skip [where xs = "take k migration_names" and ys = "drop k migration_names"
        and applied = "take k migration_names" and fs = Migrations and f = apply_migration and m = ?m] by simp
  also have "\<dots> = None"
    by (rule fair_pending [where n = "5 - k"]) (use assms in auto)
  finally show ?thesis .
qed

lemma Run_Migrations:
  assumes "Run Migrations apply_migration m = (r, m')" "versions m = take k migration_names" "k \<le> 5"
  obtains n where "k + n \<le> 5" "versions m' = take (k + n) migration_names" "r = None \<longrightarrow> k + n = 5"
    "apply_all Migrations apply_migration (take n (drop k migration_names)) (md_schema m) = Some (md_schema m')"
proof -
  have files: "migrationFiles Migrations = Inr migration_names" by (simp add: Migrations_files migration_names_eq)
  have five: "length migration_names = 5" by (simp add: migration_names_eq)
  from Run_prefix [OF assms(1) files] obtain n0 where
    n0: "migrated Migrations apply_migration (take n0 (drop k migration_names)) m m'"
      "r = None \<longrightarrow> n0 = 5 - k"
    unfolding pending_names [OF assms(2)] using five by auto
  define n where "n = min n0 (5 - k)"
  have "take n0 (drop k migration_names) = take n (drop k migration_names)"
    using five by (simp add: n_def min_def)
  with n0(1) have "versions m' = take (k + n) migration_names"
    "apply_all Migrations apply_migration (take n (drop k migration_names)) (md_schema m) = Some (md_schema m')"
    by (simp_all add: migrated_def assms(2) take_add)
  moreover have "k + n \<le> 5" "r = None \<longrightarrow> k + n = 5" using assms(3) n0(2) by (auto simp: n_def)
  ultimately show thesis using that by blast
qed

text \<open>
  C20. A run of the embedded migrations, from any version and whatever fails, leaves the tables
  of some version that is not older, with their constraints and exactly its files
  recorded. Reported success means the newest: then the tables are those the stores work
  on, with slugs and storage keys unique. If no call fails the run succeeds, whatever rows
  the tables hold.
\<close>

theorem embedded_migrations_build_schema:
  assumes "Run Migrations apply_migration m = (r, m')" "versions m = take k migration_names"
    and "schema_at k (md_schema m)" "k \<le> 5"
  shows "(\<exists>j. k \<le> j \<and> j \<le> 5 \<and> versions m' = take j migration_names \<and> schema_at j (md_schema m')
      \<and> (r = None \<longrightarrow> j = 5)) \<and> (r = None \<longrightarrow> db_ok (tables_db uuid (md_schema m')))
    \<and> (md_weather m = [] \<longrightarrow> r = None)"
proof -
  from assms(1,2,4) obtain n where n: "k + n \<le> 5" "versions m' = take (k + n) migration_names" "r = None \<longrightarrow> k + n = 5"
    "apply_all Migrations apply_migration (take n (drop k migration_names)) (md_schema m) = Some (md_schema m')"
    by (rule Run_Migrations)
  from migrations_apply [OF n(1) assms(3)] n(4) have "schema_at (k + n) (md_schema m')" by auto
  moreover have "r = None" if "md_weather m = []" using fair_run [OF that assms(4,2,3)] assms(1) by simp
  ultimately show ?thesis using n tables_db_ok by (metis le_add1)
qed

text \<open>A database at version 3, of which one file was shared twice, migrated to the newest.\<close>

definition old_share :: "string \<Rightarrow> time \<Rightarrow> tuple" where
  "old_share i t = map_of
     [(''id'', VUuid i), (''slug'', VText (''aaaaaaaaa'' @ i)), (''storage_key'', VText ''k''), (''file_name'', VText ''f''),
      (''file_size'', VInt 1), (''code_hash'', VText ''h''), (''code_salt'', VText ''x''),
      (''downloaded_count'', VInt 0), (''created_at'', VTime t), (''expires_at'', VTime 9)]"

definition old_schema :: schema where
  "old_schema = built 3 [old_share ''1'' 5, old_share ''2'' 4] [] [] []"

definition old_database :: "schema mdb" where
  "old_database = \<lparr>md_versions = Some (take 3 migration_names), md_schema = old_schema,
     md_locked = False, md_weather = []\<rparr>"

lemma old_schema_at: "schema_at 3 old_schema"
proof -
  have "rows_ok shares_columns [old_share ''1'' 5, old_share ''2'' 4]"
    by (simp add: rows_ok_def row_ok_def shares_columns_def old_share_def unique_in_def)
  then show ?thesis unfolding schema_at_def old_schema_def
    by (intro exI [of _ "[old_share ''1'' 5, old_share ''2'' 4]"] exI [of _ "[]"]) simp
qed

theorem embedded_migrations_build_schema_witness:
  "\<exists>m'. Run Migrations apply_migration old_database = (None, m') \<and> versions m' = migration_names
     \<and> db_ok (tables_db (\<lambda>s. None) (md_schema m'))"
proof -
  obtain r m' where run: "Run Migrations apply_migration old_database = (r, m')" by (rule prod.exhaust)
  have "versions old_database = take 3 migration_names" "schema_at 3 (md_schema old_database)"
    by (simp_all add: old_database_def versions_def old_schema_at)
  from embedded_migrations_build_schema [OF run this] have
    "r = None" "\<exists>j. versions m' = take j migration_names \<and> (r = None \<longrightarrow> j = 5)"
    "r = None \<longrightarrow> db_ok (tables_db (\<lambda>s. None) (md_schema m'))"
    by (auto simp: old_database_def)
  with run show ?thesis by (auto simp: migration_names_eq)
qed

text \<open>
  C21. The migration that makes a share row per file cannot fail on the tables of the
  version before: of every file that was shared exactly one row is left, the one created
  last (of rows created at once the one with the greatest id), unchanged but for the new
  count, which starts at one.
\<close>

theorem share_rotation_keeps_newest:
  assumes "schema_at 3 s"
  shows "\<exists>s'. exec_sql migration_0004 s = Inr s' \<and> schema_at 4 s'
    \<and> (\<forall>r \<in> set (table_rows ''shares'' s).
        \<exists>!t. t \<in> set (table_rows ''shares'' s') \<and> t ''storage_key'' = r ''storage_key'')
    \<and> (\<forall>t \<in> set (table_rows ''shares'' s').
        \<exists>r \<in> set (table_rows ''shares'' s). t = r(''share_count'' := Some (VInt 1))
          \<and> (\<forall>x \<in> set (table_rows ''shares'' s). x ''storage_key'' = t ''storage_key'' \<longrightarrow> age x \<le> age t))"
proof -
  from assms obtain ss as js us where s: "s = built 3 ss as js us" and ok: "rows_ok shares_columns ss"
    unfolding schema_at_def by auto
  let ?s' = "built 4 (map counted (newest ss)) as js us"
  have run: "exec_sql migration_0004 s = Inr ?s'" unfolding s by (rule rotation_migrates [OF ok])
  with schema_step [OF _ assms] have at: "schema_at 4 ?s'" by (simp add: migration_files_def eval_nat_numeral)
  have rows: "table_rows ''shares'' s = ss" "table_rows ''shares'' ?s' = map counted (newest ss)"
    by (simp_all add: s table_rows_def built_simps)
  have key: "counted t ''storage_key'' = t ''storage_key''" "age (counted t) = age t" for t
    by (simp_all add: counted_def age_def)
  have one: "\<exists>!t. t \<in> counted ` set (newest ss) \<and> t ''storage_key'' = r ''storage_key''" if "r \<in> set ss" for r
  proof -
    from newest_one(1) [OF ok that] obtain t where t: "t \<in> set (newest ss)" "t ''storage_key'' = r ''storage_key''"
      and only: "\<forall>u. u \<in> set (newest ss) \<and> u ''storage_key'' = r ''storage_key'' \<longrightarrow> u = t"
      by (elim ex1E) blast
    show ?thesis
    proof (rule ex1I [of _ "counted t"])
      show "counted t \<in> counted ` set (newest ss) \<and> counted t ''storage_key'' = r ''storage_key''"
        using t by (simp add: key)
    next
      fix x assume "x \<in> counted ` set (newest ss) \<and> x ''storage_key'' = r ''storage_key''"
      then obtain u where u: "x = counted u" "u \<in> set (newest ss)" "u ''storage_key'' = r ''storage_key''"
        by (auto simp only: key image_iff)
      with only have "u = t" by blast
      with u(1) show "x = counted t" by simp
    qed
  qed
  have top: "\<forall>x \<in> set ss. x ''storage_key'' = t ''storage_key'' \<longrightarrow> age x \<le> age t" if "t \<in> set (newest ss)" for t
    using newest_one(2) [OF ok _ that] by auto
  have "set (newest ss) \<subseteq> set ss" by (auto simp: newest_def)
  with run at one top show ?thesis by (auto simp: rows key counted_def [symmetric])
qed

theorem share_rotation_keeps_newest_witness:
  "\<exists>s'. exec_sql migration_0004 old_schema = Inr s'
     \<and> (\<forall>t \<in> set (table_rows ''shares'' s'). (5, ''1'') \<le> age t)"
proof -
  have rows: "table_rows ''shares'' old_schema = [old_share ''1'' 5, old_share ''2'' 4]"
    by (simp add: old_schema_def table_rows_def built_simps)
  have old: "age (old_share ''1'' 5) = (5, ''1'')" "x ''storage_key'' = Some (VText ''k'')"
    if "x \<in> set (table_rows ''shares'' old_schema)" for x
    using that by (auto simp: rows age_def old_share_def)
  from share_rotation_keeps_newest [OF old_schema_at] obtain s' where run: "exec_sql migration_0004 old_schema = Inr s'"
    and kept: "\<forall>t \<in> set (table_rows ''shares'' s').
      \<exists>r \<in> set (table_rows ''shares'' old_schema). t = r(''share_count'' := Some (VInt 1))
        \<and> (\<forall>x \<in> set (table_rows ''shares'' old_schema). x ''storage_key'' = t ''storage_key'' \<longrightarrow> age x \<le> age t)"
    by blast
  have "(5, ''1'') \<le> age t" if t: "t \<in> set (table_rows ''shares'' s')" for t
  proof -
    from kept t obtain r where r: "r \<in> set (table_rows ''shares'' old_schema)" "t = r(''share_count'' := Some (VInt 1))"
      and top: "\<forall>x \<in> set (table_rows ''shares'' old_schema). x ''storage_key'' = t ''storage_key'' \<longrightarrow> age x \<le> age t"
      by blast
    have "old_share ''1'' 5 \<in> set (table_rows ''shares'' old_schema)" by (simp add: rows)
    from top this old(2) [OF this] old(2) [OF r(1)] r(2) have "age (old_share ''1'' 5) \<le> age t" by simp
    then show ?thesis using old(1) [OF r(1)] by simp
  qed
  with run show ?thesis by blast
qed

end
