(* ===== verification/Deployment.thy ===== *)
theory Deployment
  imports Delivery Schema
begin

section \<open>A server on the database its own migrations made\<close>

text \<open>
  Start-up and operation put together: \<open>server.New\<close> runs the embedded migrations and the
  server then works on the tables they leave. What the theorems about the running
  service assume of the database holds there, also for a database that an older version
  of the service has filled.
\<close>

subsection \<open>Shares through a migration\<close>

definition share_tuples :: "schema \<Rightarrow> tuple list" where
  "share_tuples s = table_rows ''shares'' s"

lemma share_tuples_built [simp]: "share_tuples (built k ss as js us) = (if k = 0 then [] else ss)"
proof -
  have "table_rows ''shares'' (built (Suc n) ss as js us) = ss" for n
    by (simp add: table_rows_def built_def)
  then show ?thesis by (cases k) (simp_all add: share_tuples_def table_rows_def built_def)
qed

text \<open>
  What the service itself promises of the shares at version \<open>k\<close>: well-formed slugs and, once
  codes are counted, between one and three of them.
\<close>

definition share_fits :: "nat \<Rightarrow> tuple \<Rightarrow> bool" where
  "share_fits k r \<longleftrightarrow> ValidateSlug (text_of (r ''slug'')) = None
     \<and> (4 \<le> k \<longrightarrow> 1 \<le> int_of_val (r ''share_count'') \<and> int_of_val (r ''share_count'') \<le> MaxShareCount)"

definition shares_fit :: "nat \<Rightarrow> schema \<Rightarrow> bool" where
  "shares_fit k s \<longleftrightarrow> (\<forall>r \<in> set (share_tuples s). share_fits k r)"

lemma schema_step_shares:
  assumes "k < 5" "schema_at k s" "exec_sql (snd (migration_files ! k)) s = Inr s'" "shares_fit k s"
  shows "shares_fit (Suc k) s'"
proof -
  from assms(2) obtain ss as js us where s: "s = built k ss as js us"
    and ok: "rows_ok (if 4 \<le> k then rotated_columns else shares_columns) ss" unfolding schema_at_def by blast
  consider "k = 0" | "k = 1" | "k = 2" | "k = 3" | "k = 4" using assms(1) by linarith
  then show ?thesis
  proof cases
    case 1
    with migrations_build(1) assms(3,4) show ?thesis
      by (auto simp: s migration_files_def shares_fit_def share_fits_def)
  next
    case 2
    with migrations_build(2) assms(3,4) show ?thesis
      by (auto simp: s migration_files_def shares_fit_def share_fits_def eval_nat_numeral)
  next
    case 3
    with migrations_build(3) assms(3,4) show ?thesis
      by (auto simp: s migration_files_def shares_fit_def share_fits_def eval_nat_numeral)
  next
    case 4
    with rotation_migrates assms(3) ok have "s' = built 4 (map counted (newest ss)) as js us"
      by (auto simp: s migration_files_def eval_nat_numeral)
    with assms(4) 4 show ?thesis by (auto simp: s shares_fit_def share_fits_def counted_def newest_def MaxShareCount_def)
  next
    case 5
    with migrations_build(4) assms(3,4) show ?thesis
      by (auto simp: s migration_files_def shares_fit_def share_fits_def eval_nat_numeral)
  qed
qed

lemma migrations_fit:
  assumes "k + n \<le> 5" "schema_at k s" "shares_fit k s"
    and "apply_all Migrations apply_migration (take n (drop k migration_names)) s = Some s'"
  shows "shares_fit (k + n) s'"
  using assms
proof (induction n arbitrary: k s)
  case (Suc n)
  then have k: "k < 5" by simp
  have "length migration_names = 5" by (simp add: migration_names_eq)
  with k have names: "drop k migration_names = migration_names ! k # drop (Suc k) migration_names"
    using Cons_nth_drop_Suc [of k migration_names] by simp
  from schema_step [OF k Suc.prems(2)] obtain s1 where s1: "exec_sql (snd (migration_files ! k)) s = Inr s1"
    "schema_at (Suc k) s1" by blast
  with Suc.prems(4) have "apply_all Migrations apply_migration (take n (drop (Suc k) migration_names)) s1 = Some s'"
    using migration_read [OF k] by (simp add: names)
  with Suc.IH [of "Suc k" s1] Suc.prems(1) s1(2) schema_step_shares [OF k Suc.prems(2) s1(1) Suc.prems(3)]
  show ?case by simp
qed simp

lemma tables_shares_ok:
  assumes "schema_at 5 s" "shares_fit 5 s"
  shows "shares_ok (share_view (tables_db uuid s))"
proof -
  have rows: "shares_t (tables_db uuid s) = map share_row_of (share_tuples s)"
    by (simp add: tables_db_def share_tuples_def)
  have found: "\<exists>t \<in> set (share_tuples s). slug = r_slug (share_row_of t) \<and> sh = scanShare (share_row_of t)"
    if "share_view (tables_db uuid s) slug = Some sh" for slug sh
    using rows_view_SomeD [of "shares_t (tables_db uuid s)" slug sh] that by (auto simp: share_view_def rows)
  have "inj_on r_storage_key (set (shares_t (tables_db uuid s)))"
    using tables_db_ok [OF assms(1), of uuid] by (simp add: db_ok_def distinct_map)
  then have same_file: "share_row_of t = share_row_of u"
    if "t \<in> set (share_tuples s)" "u \<in> set (share_tuples s)"
      "r_storage_key (share_row_of t) = r_storage_key (share_row_of u)" for t u
    using that by (auto simp: rows inj_on_def)
  have good: "ValidateSlug (r_slug (share_row_of t)) = None" "1 \<le> r_share_count (share_row_of t)"
    "r_share_count (share_row_of t) \<le> MaxShareCount" if "t \<in> set (share_tuples s)" for t
    using assms(2) that by (auto simp: shares_fit_def share_fits_def share_row_of_def)
  show ?thesis
    unfolding shares_ok_def
  proof (intro conjI allI impI)
    fix slug sh assume "share_view (tables_db uuid s) slug = Some sh"
    from found [OF this] good show "sh_Slug sh = slug" "1 \<le> sh_ShareCount sh" "sh_ShareCount sh \<le> MaxShareCount"
      "ValidateSlug slug = None" by (auto simp: scanShare_def)
  next
    fix a b sa sb assume "share_view (tables_db uuid s) a = Some sa" "share_view (tables_db uuid s) b = Some sb"
      "sh_StorageKey sa = sh_StorageKey sb"
    with found [of a sa] found [of b sb] obtain t u where t: "t \<in> set (share_tuples s)" "a = r_slug (share_row_of t)"
      "sa = scanShare (share_row_of t)" and u: "u \<in> set (share_tuples s)" "b = r_slug (share_row_of u)"
      "sb = scanShare (share_row_of u)" by blast
    with \<open>sh_StorageKey sa = sh_StorageKey sb\<close> have "r_storage_key (share_row_of t) = r_storage_key (share_row_of u)"
      by (simp add: scanShare_def)
    from same_file [OF t(1) u(1) this] show "a = b" by (simp add: t(2) u(2))
  qed
qed

subsection \<open>The promise\<close>

text \<open>
  C7. The service may be deployed on a database of any earlier version, or none: if \<open>New\<close>
  succeeds on tables that the first \<open>k\<close> migrations made, with any rows that satisfy the
  constraints and, from version 4 on, counts from one to three, all slugs being well formed,
  then through any life of the server after it, failing calls included, slugs, files
  and upload rows stay unique and shares consistent.
\<close>

theorem upgraded_service_consistent:
  assumes "New st cfg m = (Inr srv, m')" "cf_DatabaseURL cfg \<noteq> []"
    and "st_Migrations st = Migrations" "st_ApplySQL st = apply_migration"
    and "versions m = take k migration_names" "k \<le> 5" "schema_at k (md_schema m)" "shares_fit k (md_schema m)"
    and "live_run c srv es ((tables_db uuid (md_schema m'))\<lparr>weather := ws\<rparr>, x) = Some (l', w')"
  shows "versions m' = migration_names \<and> db_ok (fst w') \<and> shares_ok (share_view (fst w'))"
proof -
  have run: "Run Migrations apply_migration m = (None, m')"
    using New_fields(3,5) [OF assms(1)] assms(2-4) by simp
  from run assms(5,6) obtain n where n: "k + n \<le> 5" "versions m' = take (k + n) migration_names" "k + n = 5"
    "apply_all Migrations apply_migration (take n (drop k migration_names)) (md_schema m) = Some (md_schema m')"
    by (rule Run_Migrations) blast
  from migrations_apply [OF n(1) assms(7)] n(3,4) have at: "schema_at 5 (md_schema m')" by auto
  from migrations_fit [OF n(1) assms(7,8) n(4)] n(3) have fit: "shares_fit 5 (md_schema m')" by simp
  let ?d = "(tables_db uuid (md_schema m'))\<lparr>weather := ws\<rparr>"
  obtain l anon owned where l: "live_server c srv = Some l"
    and life: "happen_all c (so_bucketName (sv_Storage srv)) anon owned es (l, (?d, x)) = Some (l', w')"
    by (rule live_run_eq [OF assms(9)])
  have "db_ok ?d" "shares_ok (share_view ?d)"
    using tables_db_ok [OF at, of uuid] tables_shares_ok [OF at fit, of uuid] by (simp_all add: db_ok_def share_view_def)
  then have "db_state_ok ?d (fst w') \<and> shares_ok (share_view (fst w'))"
    using happen_all_ok [OF life, of ?d] live_server_wired [OF l] db_state_ok_self [of ?d] by simp
  with n(2,3) show ?thesis by (simp add: db_state_ok_def migration_names_eq)
qed

text \<open>The service deployed on the database of version 3, with a pass of the purge.\<close>

definition embedded_startup :: "schema startup" where
  "embedded_startup = \<lparr>st_LoadAWS = \<lambda>_. None, st_NewPool = \<lambda>_. None, st_Ping = \<lambda>_. None,
     st_Migrations = Migrations, st_ApplySQL = apply_migration, st_FetchJWKS = \<lambda>_. Inl (Fault ''timeout''),
     st_Keyfunc = \<lambda>_. Inl (Fault ''timeout'')\<rparr>"

lemma old_database_at: "versions old_database = take 3 migration_names" "schema_at 3 (md_schema old_database)"
  "shares_fit 3 (md_schema old_database)"
proof -
  have slugs: "ValidateSlug ''aaaaaaaaa1'' = None" "ValidateSlug ''aaaaaaaaa2'' = None" by code_simp+
  then show "shares_fit 3 (md_schema old_database)"
    by (simp add: old_database_def old_schema_def shares_fit_def share_fits_def old_share_def)
qed (simp_all add: old_database_def versions_def old_schema_at)

lemma embedded_startup_starts:
  obtains srv m' where "New embedded_startup (fst (Load sample_env)) old_database = (Inr srv, m')"
proof -
  have "fst (Run Migrations apply_migration old_database) = None"
    using old_database_at by (intro fair_run [where k = 3]) (simp_all add: old_database_def)
  then obtain m1 where "Run Migrations apply_migration old_database = (None, m1)" by (metis prod.collapse)
  then have "open_database embedded_startup ''postgres://db'' old_database = (None, m1)"
    by (simp add: open_database_def embedded_startup_def)
  moreover have "cf_DatabaseURL (fst (Load sample_env)) = ''postgres://db''" "st_LoadAWS embedded_startup x = None" for x
    by (simp_all add: Load_def sample_env_def getEnv_def Let_def embedded_startup_def)
  ultimately show thesis using that by (simp add: New_def NewS3Storage_def Let_def)
qed

theorem upgraded_service_consistent_witness:
  "\<exists>srv m' l' w'. New embedded_startup (fst (Load sample_env)) old_database = (Inr srv, m')
     \<and> live_run two_page_client srv [Job (sample_pass 0)] (tables_db (\<lambda>s. None) (md_schema m'), ()) = Some (l', w')
     \<and> db_ok (fst w') \<and> shares_ok (share_view (fst w'))"
proof -
  obtain srv m' where new: "New embedded_startup (fst (Load sample_env)) old_database = (Inr srv, m')"
    by (rule embedded_startup_starts)
  have url: "cf_DatabaseURL (fst (Load sample_env)) \<noteq> []"
    by (simp add: Load_def sample_env_def getEnv_def Let_def)
  have keep: "tables_db (\<lambda>s. None) s\<lparr>weather := []\<rparr> = tables_db (\<lambda>s. None) s" for s by (simp add: tables_db_def)
  from New_fields(3,4) [OF new] url have "\<exists>l' w'. live_run two_page_client srv [Job (sample_pass 0)]
      (tables_db (\<lambda>s. None) (md_schema m'), ()) = Some (l', w')"
    by (simp add: live_run_def live_server_def server_share_handler_def sample_pass_def
        del: split_paired_Ex)
  then obtain l' w' where run: "live_run two_page_client srv [Job (sample_pass 0)]
      (tables_db (\<lambda>s. None) (md_schema m'), ()) = Some (l', w')" by blast
  have "st_Migrations embedded_startup = Migrations" "st_ApplySQL embedded_startup = apply_migration"
    by (simp_all add: embedded_startup_def)
  note all = upgraded_service_consistent [OF new url this old_database_at(1) _ old_database_at(2,3),
      where ws = "[]" and uuid = "\<lambda>s. None", unfolded keep]
  from all [OF _ run] have "db_ok (fst w') \<and> shares_ok (share_view (fst w'))" by simp
  with run new show ?thesis by blast
qed

end
