(* ===== verification/HandlerFrames.thy ===== *)
theory HandlerFrames
  imports Service
begin

section \<open>What a request keeps when each of its calls keeps it\<close>

text \<open>
  The counterpart of \<open>JobFrames\<close> for the handlers. The interface \<open>handler_frame\<close> lists what a
  relation between states of database and bucket has to satisfy for each method of the
  stores and of the bucket that a handler calls; the client is every handler and so the
  answer to any request.
\<close>

locale handler_frame =
  fixes c :: "'s s3_client" and bucket :: string
    and R :: "db \<times> 's \<Rightarrow> db \<times> 's \<Rightarrow> bool"
  assumes R_refl: "R w w"
    and R_trans [trans]: "R w w1 \<Longrightarrow> R w1 w2 \<Longrightarrow> R w w2"
    and created: "on_db (ShareStore_Create sh) w = (r, w1) \<Longrightarrow> R w w1"
    and by_slug: "on_db (ShareStore_GetBySlug slug) w = (g, w1) \<Longrightarrow> R w w1"
    and by_key: "on_db (ShareStore_GetByStorageKey key) w = (g, w1) \<Longrightarrow> R w w1"
    and rotation: "on_db (ShareStore_RotateCode sh) w = (r, w1) \<Longrightarrow> R w w1"
    and owner_listed: "on_db (ShareStore_ListByOwner owner) w = (l, w1) \<Longrightarrow> R w w1"
    and revoked: "on_db (ShareStore_Delete slug owner) w = (r, w1) \<Longrightarrow> R w w1"
    and looked_up: "on_db (UploadStore_GetByStorageKey key) w = (u, w1) \<Longrightarrow> R w w1"
    and upload_recorded: "on_db (UploadStore_Create up) w = (r, w1) \<Longrightarrow> R w w1"
    and sized: "on_s3 (S3_GetFileSize c bucket key) w = (n, w1) \<Longrightarrow> R w w1"
    and link_signed: "on_s3 (S3_GetPresignedURL c bucket key force) w = (url, w1) \<Longrightarrow> R w w1"
    and upload_signed: "on_s3 (S3_GetPresignedUploadURL c bucket key k ct) w = (url, w1) \<Longrightarrow> R w w1"
    and session_opened: "on_s3 (S3_CreateMultipartUpload c bucket key ct) w = (url, w1) \<Longrightarrow> R w w1"
    and part_signed: "on_s3 (S3_PresignUploadPart c bucket key uid m) w = (url, w1) \<Longrightarrow> R w w1"
    and parts_listed: "S3_ListParts c bucket key uid (snd w) = Some (ps, s1) \<Longrightarrow> R w (fst w, s1)"
    and session_completed: "on_s3 (S3_CompleteMultipartUpload c bucket key uid parts) w = (r, w1) \<Longrightarrow> R w w1"
    and session_aborted: "on_s3 (S3_AbortMultipartUpload c bucket key uid) w = (r, w1) \<Longrightarrow> R w w1"
begin

text \<open>The calls of the handlers as they are wired.\<close>

lemma calls:
  assumes "wired c bucket h"
  shows "ss_Create (h_store h) sh w = (r, w1) \<Longrightarrow> R w w1"
    and "ss_GetBySlug (h_store h) slug w = (g, w1) \<Longrightarrow> R w w1"
    and "ss_GetByStorageKey (h_store h) key w = (g, w1) \<Longrightarrow> R w w1"
    and "ss_RotateCode (h_store h) sh w = (r, w1) \<Longrightarrow> R w w1"
    and "ss_ListByOwner (h_store h) owner w = (l, w1) \<Longrightarrow> R w w1"
    and "ss_Delete (h_store h) slug owner w = (r, w1) \<Longrightarrow> R w w1"
    and "os_GetFileSize (h_files h) key w = (n, w1) \<Longrightarrow> R w w1"
    and "os_GetPresignedURL (h_files h) key force w = (u, w1) \<Longrightarrow> R w w1"
proof -
  from assms have h: "h_store h = db_share_store" "h_files h = s3_files c bucket" by (simp_all add: wired_def)
  show "ss_Create (h_store h) sh w = (r, w1) \<Longrightarrow> R w w1"
    "ss_GetBySlug (h_store h) slug w = (g, w1) \<Longrightarrow> R w w1"
    "ss_GetByStorageKey (h_store h) key w = (g, w1) \<Longrightarrow> R w w1"
    "ss_RotateCode (h_store h) sh w = (r, w1) \<Longrightarrow> R w w1"
    "ss_ListByOwner (h_store h) owner w = (l, w1) \<Longrightarrow> R w w1"
    "ss_Delete (h_store h) slug owner w = (r, w1) \<Longrightarrow> R w w1"
    "os_GetFileSize (h_files h) key w = (n, w1) \<Longrightarrow> R w w1"
    "os_GetPresignedURL (h_files h) key force w = (u, w1) \<Longrightarrow> R w w1"
    by (simp_all add: h db_share_store_def s3_files_def created by_slug by_key rotation owner_listed revoked
        sized link_signed)
qed

lemma bucket_calls:
  "os_GetPresignedUploadURL (s3_files c bucket) key k ct w = (url, w1) \<Longrightarrow> R w w1"
  "os_GetFileSize (s3_files c bucket) key w = (n, w1) \<Longrightarrow> R w w1"
  "os_GetPresignedURL (s3_files c bucket) key force w = (url, w1) \<Longrightarrow> R w w1"
  "ms_CreateMultipartUpload (s3_multipart c bucket) key ct w = (url, w1) \<Longrightarrow> R w w1"
  "ms_PresignUploadPart (s3_multipart c bucket) key uid m w = (url, w1) \<Longrightarrow> R w w1"
  "ms_ListParts (s3_multipart c bucket) key uid w = Some (ps, w1) \<Longrightarrow> R w w1"
  "ms_CompleteMultipartUpload (s3_multipart c bucket) key uid parts w = (r, w1) \<Longrightarrow> R w w1"
  "ms_AbortMultipartUpload (s3_multipart c bucket) key uid w = (r, w1) \<Longrightarrow> R w w1"
  by (auto simp: s3_files_def s3_multipart_def sized link_signed upload_signed session_opened part_signed
      parts_listed session_completed session_aborted)

lemma aborted: "R w (snd (ms_AbortMultipartUpload (s3_multipart c bucket) key uid w))"
  by (rule bucket_calls(8) [OF prod.collapse [symmetric]])

subsection \<open>The share handlers\<close>

lemma capToRetention_kept:
  assumes "wired c bucket h" "capToRetention h key share w = (x, w')"
  shows "R w w'"
proof -
  obtain u w1 where u: "db_upload_lookup key w = (u, w1)" by (rule prod.exhaust)
  then have "R w w1" by (simp add: db_upload_lookup_def looked_up)
  moreover have "w' = w1" using assms u
    by (auto simp: capToRetention_def wired_def Let_def split: sum.splits if_splits)
  ultimately show ?thesis by simp
qed

lemma rotateShare_kept:
  assumes "wired c bucket h" "rotateShare h ctx share req now es w = Some (r, es', w')"
  shows "R w w'"
proof -
  let ?s = "share\<lparr>sh_RecipientEmail := cq_RecipientEmail req\<rparr>"
  obtain n w1 where n: "os_GetFileSize (h_files h) (sh_StorageKey share) w = (n, w1)" by (rule prod.exhaust)
  note step1 = calls(7) [OF assms(1) n]
  have "w' = w \<or> w' = w1 \<or> (\<exists>s1 s2 w2 x. capToRetention h (sh_StorageKey s1) s1 w1 = (s2, w2)
      \<and> ss_RotateCode (h_store h) s2 w2 = (x, w'))"
    using assms(2) n by (auto simp: rotateShare_def Let_def simp del: split_paired_Ex
        split: if_splits sum.splits option.splits prod.splits)
  then consider "w' = w" | "w' = w1" | s1 s2 w2 x where "capToRetention h (sh_StorageKey s1) s1 w1 = (s2, w2)"
    "ss_RotateCode (h_store h) s2 w2 = (x, w')" by blast
  then show ?thesis
  proof cases
    case 3
    from capToRetention_kept [OF assms(1) 3(1)] calls(4) [OF assms(1) 3(2)] step1 R_trans show ?thesis by blast
  qed (simp_all add: R_refl step1)
qed

lemma store_new_kept:
  assumes "wired c bucket h" "store_new h ctx req share code now es w = Some (r, es', w')"
  shows "R w w'"
proof -
  obtain x w1 where x: "ss_Create (h_store h) share w = (x, w1)" by (rule prod.exhaust)
  obtain g w2 where g: "ss_GetByStorageKey (h_store h) (cq_StorageKey req) w1 = (g, w2)" by (rule prod.exhaust)
  note first = calls(1) [OF assms(1) x]
  have second: "R w w2" using first calls(3) [OF assms(1) g] by (rule R_trans)
  have "w' = w1 \<or> w' = w2 \<or> (\<exists>racer. rotateShare h ctx racer req now es w2 = Some (r, es', w'))"
    using assms(2) x g by (auto simp: store_new_def split: option.splits sum.splits)
  with first second rotateShare_kept [OF assms(1)] R_trans show ?thesis by blast
qed

lemma create_new_kept:
  assumes "wired c bucket h" "create_new h ctx req now now' es w = Some (r, es', w')"
  shows "R w w'"
proof -
  obtain n w1 where n: "os_GetFileSize (h_files h) (cq_StorageKey req) w = (n, w1)" by (rule prod.exhaust)
  note first = calls(7) [OF assms(1) n]
  have "w' = w1 \<or> (\<exists>s s1 code es1 w2. capToRetention h (cq_StorageKey req) s w1 = (s1, w2)
      \<and> store_new h ctx req s1 code now' es1 w2 = Some (r, es', w'))"
    using assms(2) n by (auto simp: create_new_def Let_def simp del: split_paired_Ex split: sum.splits option.splits prod.splits)
  then consider "w' = w1" | s s1 code es1 w2 where "capToRetention h (cq_StorageKey req) s w1 = (s1, w2)"
    "store_new h ctx req s1 code now' es1 w2 = Some (r, es', w')" by blast
  then show ?thesis
  proof cases
    case 2
    from capToRetention_kept [OF assms(1) 2(1)] store_new_kept [OF assms(1) 2(2)] first R_trans
    show ?thesis by blast
  qed (simp add: first)
qed

lemma CreateShare_kept:
  assumes "wired c bucket h" "CreateShare h ctx body now now' es w = Some (r, es', w')"
  shows "R w w'"
proof (cases "ShouldBindJSON create_tags body")
  case None
  with assms(2) show ?thesis by (simp add: CreateShare_def R_refl)
next
  case (Some req)
  obtain g w1 where g: "ss_GetByStorageKey (h_store h) (cq_StorageKey req) w = (g, w1)" by (rule prod.exhaust)
  note first = calls(3) [OF assms(1) g]
  have "w' = w \<or> w' = w1 \<or> (\<exists>s. rotateShare h ctx s req now es w1 = Some (r, es', w'))
      \<or> create_new h ctx req now now' es w1 = Some (r, es', w')"
    using assms(2) Some g by (auto simp: CreateShare_def split: if_splits sum.splits)
  then consider "w' = w" | "w' = w1" | s where "rotateShare h ctx s req now es w1 = Some (r, es', w')"
    | "create_new h ctx req now now' es w1 = Some (r, es', w')" by blast
  then show ?thesis
  proof cases
    case 3
    with R_trans [OF first] rotateShare_kept [OF assms(1)] show ?thesis by blast
  next
    case 4
    with R_trans [OF first] create_new_kept [OF assms(1)] show ?thesis by blast
  qed (simp_all add: R_refl first)
qed

lemma loadShare_kept:
  assumes "wired c bucket h" "loadShare h slug w = (x, w')"
  shows "R w w'"
proof -
  obtain g w1 where g: "ss_GetBySlug (h_store h) slug w = (g, w1)" by (rule prod.exhaust)
  have "w' = w \<or> w' = w1" using assms(2) g by (auto simp: loadShare_def split: option.splits sum.splits)
  with calls(2) [OF assms(1) g] R_refl [of w] show ?thesis by auto
qed

lemma GetShare_kept:
  assumes "wired c bucket h" "GetShare h ctx slug t1 t2 w = (r, h', w')"
  shows "R w w'"
proof -
  obtain ok l where a: "Allow (h_metaPerIP h) (c_ClientIP ctx) t1 = (ok, l)" by (rule prod.exhaust)
  let ?h = "h\<lparr>h_metaPerIP := l\<rparr>"
  obtain x :: "share_meta response + share" and w1 where x: "loadShare ?h slug w = (x, w1)" by (rule prod.exhaust)
  have "wired c bucket ?h" using assms(1) by (simp add: wired_def)
  from loadShare_kept [OF this x] have "R w w1" .
  moreover have "w' = w \<or> w' = w1" using assms(2) a x
    by (auto simp: GetShare_def Let_def split: if_splits sum.splits)
  ultimately show ?thesis using R_refl [of w] by auto
qed

lemma UnlockShare_kept:
  assumes "wired c bucket h" "UnlockShare h ctx slug body t1 t2 t3 w = (r, h', w')"
  shows "R w w'"
proof -
  obtain b h1 where u: "unlock_allowed h slug (c_ClientIP ctx) t1 t2 = (b, h1)" by (rule prod.exhaust)
  have h1: "wired c bucket h1" using assms(1) unlock_allowed_fields [OF u] by (simp add: wired_def)
  obtain x :: "unlock_response response + share" and w1 where x: "loadShare h1 slug w = (x, w1)" by (rule prod.exhaust)
  note first = loadShare_kept [OF h1 x]
  have "w' = w \<or> w' = w1 \<or> (\<exists>key dl url. os_GetPresignedURL (h_files h1) key dl w1 = (url, w'))"
    using assms(2) u x
    by (auto simp: UnlockShare_def simp del: split_paired_Ex split: bool.splits option.splits prod.splits sum.splits)
  with first R_refl calls(8) [OF h1] R_trans show ?thesis by blast
qed

lemma ListMine_kept:
  assumes "wired c bucket h" "ListMine h ctx clock w = (r, w')"
  shows "R w w'"
  using assms(2) calls(5) [OF assms(1)] R_refl
  by (auto simp: ListMine_def split: option.splits prod.splits)

lemma RevokeShare_kept:
  assumes "wired c bucket h" "RevokeShare h ctx slug w = (r, w')"
  shows "R w w'"
  using assms(2) calls(6) [OF assms(1)] R_refl
  by (auto simp: RevokeShare_def split: option.splits prod.splits)

subsection \<open>The upload handlers\<close>

lemma recordUploadFor_kept:
  "recordUploadFor ctx (Some db_upload_recorder) key name n now w = (r, w') \<Longrightarrow> R w w'"
  by (auto simp: recordUploadFor_def db_upload_recorder_def intro: upload_recorded)

lemma PresignUpload_kept:
  assumes "PresignUpload (live_files c bucket m) ctx body uuid now w = (r, w')"
  shows "R w w'"
proof (cases "ShouldBindJSON presign_tags body")
  case None
  with assms show ?thesis by (simp add: PresignUpload_def R_refl)
next
  case (Some req)
  let ?name = "sanitizeFilename (pq_Name req)"
  obtain x w1 where url: "os_GetPresignedUploadURL (s3_files c bucket) (Build uuid ?name) (pq_Size req)
    (default_content_type (pq_ContentType req)) w = (x, w1)" by (rule prod.exhaust)
  obtain y w2 where rec: "recordUploadFor ctx (Some db_upload_recorder) (Build uuid ?name) ?name
      (pq_Size req) now w1 = (y, w2)" by (rule prod.exhaust)
  have "w' = w \<or> w' = w1 \<or> w' = w2"
    using assms Some url rec by (auto simp: PresignUpload_def Let_def split: sum.splits option.splits if_splits)
  with bucket_calls(1) [OF url] recordUploadFor_kept [OF rec] R_trans R_refl show ?thesis by blast
qed

lemma Init_kept:
  assumes "Init (live_multipart c bucket m) ctx body uuid now w = (r, w')"
  shows "R w w'"
proof (cases "ShouldBindJSON init_tags body")
  case None
  with assms show ?thesis by (simp add: Init_def R_refl)
next
  case (Some req)
  let ?name = "sanitizeFilename (iq_Name req)"
  obtain x w1 where cr: "ms_CreateMultipartUpload (s3_multipart c bucket) (Build uuid ?name)
    (default_content_type (iq_ContentType req)) w = (x, w1)" by (rule prod.exhaust)
  obtain y w2 where rec: "recordUploadFor ctx (Some db_upload_recorder) (Build uuid ?name) ?name
      (iq_Size req) now w1 = (y, w2)" by (rule prod.exhaust)
  have "w' = w \<or> w' = w1 \<or> w' = w2
      \<or> (\<exists>key uid. w' = snd (ms_AbortMultipartUpload (s3_multipart c bucket) key uid w2))"
    using assms Some cr rec by (auto simp: Init_def Let_def split: sum.splits option.splits if_splits)
  with bucket_calls(4) [OF cr] recordUploadFor_kept [OF rec] aborted R_trans R_refl show ?thesis by blast
qed

lemma GetFile_kept:
  assumes "GetFile (live_files c bucket m) key download w = (r, w')"
  shows "R w w'"
proof (cases "validKey key")
  case True
  obtain x w1 where size: "os_GetFileSize (s3_files c bucket) key w = (x, w1)" by (rule prod.exhaust)
  obtain y w2 where url: "os_GetPresignedURL (s3_files c bucket) key (download = ''true'') w1 = (y, w2)"
    by (rule prod.exhaust)
  have "w' = w1 \<or> w' = w2"
    using assms True size url by (auto simp: GetFile_def Let_def split: if_splits sum.splits)
  with bucket_calls(2) [OF size] bucket_calls(3) [OF url] R_trans show ?thesis by blast
qed (use assms R_refl in \<open>simp add: GetFile_def\<close>)

lemma Complete_kept:
  assumes "Complete (live_multipart c bucket m) body w = Some (r, w')"
  shows "R w w'"
proof (cases "ShouldBindJSON complete_tags body")
  case None
  with assms show ?thesis by (simp add: Complete_def R_refl)
next
  case (Some req)
  let ?key = "mr_StorageKey req" and ?uid = "mr_UploadID req"
  have "w' = w \<or> (\<exists>x w1. ms_ListParts (s3_multipart c bucket) ?key ?uid w = Some (x, w1)
      \<and> (w' = w1 \<or> w' = snd (ms_AbortMultipartUpload (s3_multipart c bucket) ?key ?uid w1)
        \<or> (\<exists>parts y. ms_CompleteMultipartUpload (s3_multipart c bucket) ?key ?uid parts w1 = (y, w'))))"
    using assms Some by (auto simp: Complete_def Let_def simp del: split_paired_Ex
        split: if_splits option.splits prod.splits sum.splits)
  with bucket_calls(6,7) aborted R_trans R_refl show ?thesis by blast
qed

lemma multipart_kept:
  "PresignPart (live_multipart c bucket m) pbody w = (pr, w') \<Longrightarrow> R w w'"
  "Status (live_multipart c bucket m) rbody w = Some (sr, w') \<Longrightarrow> R w w'"
  "Abort (live_multipart c bucket m) rbody w = (ar, w') \<Longrightarrow> R w w'"
  by (auto simp: PresignPart_def Status_def Abort_def R_refl intro: bucket_calls
      split: option.splits if_splits prod.splits sum.splits)

subsection \<open>Any request\<close>

lemmas share_handlers_kept = CreateShare_kept GetShare_kept UnlockShare_kept ListMine_kept RevokeShare_kept
lemmas upload_handlers_kept = PresignUpload_kept Init_kept GetFile_kept Complete_kept multipart_kept

lemma dispatch_kept:
  assumes "well_wired c bucket l" "dispatch l a q w = Some (r, l', w')"
  shows "R w w'"
proof -
  from assms(1) obtain m n where wired: "wired c bucket (lv_shares l)"
    and live: "lv_files l = live_files c bucket m" "lv_multipart l = live_multipart c bucket n"
    by (auto simp: well_wired_def)
  note shares = share_handlers_kept [OF wired]
  show ?thesis
    by (cases "ar_handler a") (use assms(2) live in \<open>auto simp: dispatch_def Let_def R_refl split: prod.splits
        intro: shares upload_handlers_kept\<close>)
qed

lemma respond_kept:
  assumes "well_wired c bucket l" "respond l q w = Some (r, l', w')"
  shows "R w w'"
proof -
  obtain x ls where s: "serve (lv_deps l) (ht_request q) (ht_clock q 0) (lv_limits l) = (x, ls)" by (rule prod.exhaust)
  have "w' = w \<or> (\<exists>a. dispatch (l\<lparr>lv_limits := ls\<rparr>) a q w = Some (r, l', w'))"
    using assms(2) s by (cases x) (auto simp: respond_def)
  moreover have "well_wired c bucket (l\<lparr>lv_limits := ls\<rparr>)" using assms(1) by simp
  ultimately show ?thesis using dispatch_kept R_refl by blast
qed

end

end
