(* ===== verification/Ledger.thy ===== *)
theory Ledger
  imports HandlerFrames
begin

section \<open>Records that are never rewritten\<close>

text \<open>
  Audit trail, job history and upload rows over the life of a server. Requests write none of
  the first two and never touch an upload row that is there; the jobs append to the trails
  and drop upload rows of their own batch only.
\<close>

subsection \<open>Requests\<close>

definition same_upload :: "upload_row \<Rightarrow> upload_row \<Rightarrow> bool" where
  "same_upload u v \<longleftrightarrow> u_storage_key v = u_storage_key u \<and> u_owner_id v = u_owner_id u
     \<and> u_file_name v = u_file_name u \<and> u_size_bytes v = u_size_bytes u \<and> u_created_at v = u_created_at u"

definition keeps_records :: "db \<Rightarrow> db \<Rightarrow> bool" where
  "keeps_records d d' \<longleftrightarrow> audit_t d' = audit_t d \<and> job_runs_t d' = job_runs_t d
     \<and> set (uploads_t d) \<subseteq> set (uploads_t d')"

lemma keeps_records_refl [simp]: "keeps_records d d"
  by (simp add: keeps_records_def)

lemma keeps_records_trans: "keeps_records d d1 \<Longrightarrow> keeps_records d1 d2 \<Longrightarrow> keeps_records d d2"
  by (auto simp: keeps_records_def)

lemma keeps_records_same: "same_tables d d' \<Longrightarrow> keeps_records d d'"
  by (auto simp: keeps_records_def same_tables_def)

lemma keeps_records_writes [simp]:
  "keeps_records d (d\<lparr>shares_t := ss\<rparr>)" "keeps_records d (d\<lparr>uploads_t := uploads_t d @ us\<rparr>)"
  by (auto simp: keeps_records_def)

lemma keeps_records_calls:
  "db_Exec stmt d = (r, d') \<Longrightarrow> (\<And>d1. keeps_records d1 (snd (stmt d1))) \<Longrightarrow> keeps_records d d'"
  "db_Query q d = (x, d') \<Longrightarrow> (\<And>d1. keeps_records d1 (snd (q d1))) \<Longrightarrow> keeps_records d d'"
  "db_QueryRow q d = (y, d') \<Longrightarrow> (\<And>d1. keeps_records d1 (snd (q d1))) \<Longrightarrow> keeps_records d d'"
proof -
  obtain w d1 where n: "next_outcome d = (w, d1)" by (rule prod.exhaust)
  have d1: "keeps_records d d1" using next_outcome_tables [OF n] by (rule keeps_records_same)
  show "db_Exec stmt d = (r, d') \<Longrightarrow> (\<And>d1. keeps_records d1 (snd (stmt d1))) \<Longrightarrow> keeps_records d d'"
    using n d1 keeps_records_trans [of d d1] by (cases w) (auto simp: db_Exec_def, metis snd_conv)
  show "db_Query q d = (x, d') \<Longrightarrow> (\<And>d1. keeps_records d1 (snd (q d1))) \<Longrightarrow> keeps_records d d'"
    using n d1 keeps_records_trans [of d d1]
    by (cases w; cases "q d1"; cases "fst (q d1)") (auto simp: db_Query_def, (metis snd_conv)+)
  show "db_QueryRow q d = (y, d') \<Longrightarrow> (\<And>d1. keeps_records d1 (snd (q d1))) \<Longrightarrow> keeps_records d d'"
    using n d1 keeps_records_trans [of d d1]
    by (cases w; cases "q d1"; cases "fst (q d1)") (auto simp: db_QueryRow_def split: list.splits, (metis snd_conv)+)
qed

text \<open>Of S3: only a \<open>DELETE\<close> removes an object.\<close>

definition s3_keeps :: "'s s3_client \<Rightarrow> string \<Rightarrow> ('s \<Rightarrow> string set) \<Rightarrow> bool" where
  "s3_keeps c bucket objs \<longleftrightarrow> s3_contract c bucket objs
     \<and> (\<forall>i d s. objs s \<subseteq> objs (snd (c_PresignPutObject c i d s)))
     \<and> (\<forall>i d s. objs s \<subseteq> objs (snd (c_PresignGetObject c i d s)))
     \<and> (\<forall>key uid n d s. objs s \<subseteq> objs (snd (c_PresignUploadPart c bucket key uid n d s)))
     \<and> (\<forall>key ct s. objs s \<subseteq> objs (snd (c_CreateMultipartUpload c bucket key ct s)))
     \<and> (\<forall>key uid m s. objs s \<subseteq> objs (snd (c_ListParts c bucket key uid m s)))
     \<and> (\<forall>key uid ps s. objs s \<subseteq> objs (snd (c_CompleteMultipartUpload c bucket key uid ps s)))
     \<and> (\<forall>key uid s. objs s \<subseteq> objs (snd (c_AbortMultipartUpload c bucket key uid s)))"

lemma s3_keeps_calls:
  assumes "s3_keeps c bucket objs"
  shows "S3_GetFileSize c bucket key s = (n, s1) \<Longrightarrow> objs s \<subseteq> objs s1"
    and "S3_GetPresignedURL c bucket key force s = (u, s1) \<Longrightarrow> objs s \<subseteq> objs s1"
    and "S3_GetPresignedUploadURL c bucket key k ct s = (u, s1) \<Longrightarrow> objs s \<subseteq> objs s1"
    and "S3_CreateMultipartUpload c bucket key ct s = (u, s1) \<Longrightarrow> objs s \<subseteq> objs s1"
    and "S3_PresignUploadPart c bucket key uid m s = (u, s1) \<Longrightarrow> objs s \<subseteq> objs s1"
    and "S3_CompleteMultipartUpload c bucket key uid parts s = (r, s1) \<Longrightarrow> objs s \<subseteq> objs s1"
    and "S3_AbortMultipartUpload c bucket key uid s = (r, s1) \<Longrightarrow> objs s \<subseteq> objs s1"
proof -
  note keeps = assms [unfolded s3_keeps_def]
  show "S3_GetFileSize c bucket key s = (n, s1) \<Longrightarrow> objs s \<subseteq> objs s1"
    using S3_GetFileSize_absent [of c bucket objs key s n s1] keeps by simp
  show "S3_GetPresignedURL c bucket key force s = (u, s1) \<Longrightarrow> objs s \<subseteq> objs s1"
    unfolding S3_GetPresignedURL_def using keeps by (auto split: prod.splits sum.splits) (metis snd_conv subsetD)+
  show "S3_GetPresignedUploadURL c bucket key k ct s = (u, s1) \<Longrightarrow> objs s \<subseteq> objs s1"
    unfolding S3_GetPresignedUploadURL_def using keeps by (auto split: prod.splits sum.splits) (metis snd_conv subsetD)+
  show "S3_CreateMultipartUpload c bucket key ct s = (u, s1) \<Longrightarrow> objs s \<subseteq> objs s1"
    unfolding S3_CreateMultipartUpload_def using keeps by (auto split: prod.splits sum.splits) (metis snd_conv subsetD)+
  show "S3_PresignUploadPart c bucket key uid m s = (u, s1) \<Longrightarrow> objs s \<subseteq> objs s1"
    unfolding S3_PresignUploadPart_def using keeps by (auto split: prod.splits sum.splits) (metis snd_conv subsetD)+
  show "S3_CompleteMultipartUpload c bucket key uid parts s = (r, s1) \<Longrightarrow> objs s \<subseteq> objs s1"
    unfolding S3_CompleteMultipartUpload_def Let_def using keeps
    by (auto split: prod.splits option.splits) (metis snd_conv subsetD)+
  show "S3_AbortMultipartUpload c bucket key uid s = (r, s1) \<Longrightarrow> objs s \<subseteq> objs s1"
    unfolding S3_AbortMultipartUpload_def using keeps by (auto split: prod.splits option.splits) (metis snd_conv subsetD)+
qed

lemma list_parts_keeps:
  fixes objs :: "'s \<Rightarrow> string set"
  assumes "list_parts_loop c bucket key uid parts marker s = Some y" "s3_keeps c bucket objs"
  shows "objs s \<subseteq> objs (snd y)"
proof -
  have "s3_keeps c bucket objs \<longrightarrow> objs s \<subseteq> objs (snd y)"
  proof (rule list_parts_loop.raw_induct [where P = "\<lambda>c b k u ps m s y. s3_keeps c b objs \<longrightarrow> objs s \<subseteq> objs (snd y)",
        OF _ assms(1)])
    fix loop and c :: "'s s3_client" and b k u ps m s y
    assume IH: "\<And>c b k u ps m s y. loop c b k u ps m s = Some y \<Longrightarrow> s3_keeps c b objs \<longrightarrow> objs s \<subseteq> objs (snd y)"
      and step: "(case c_ListParts c b k u m s of (Inl e, s') \<Rightarrow> Some (Inl (wrapNoSuchUpload ''listing parts of %q'' k e), s')
        | (Inr out, s') \<Rightarrow> (let ps' = ps @ map to_part (pg_Parts out)
           in if pg_IsTruncated out \<noteq> Some True then Some (Inr ps', s')
              else loop c b k u ps' (pg_NextPartNumberMarker out) s')) = Some y"
    obtain g s1 where page: "c_ListParts c b k u m s = (g, s1)" by (rule prod.exhaust)
    show "s3_keeps c b objs \<longrightarrow> objs s \<subseteq> objs (snd y)"
    proof
      assume keeps: "s3_keeps c b objs"
      with page have "objs s \<subseteq> objs s1" unfolding s3_keeps_def by (metis snd_conv)
      moreover from step page have "snd y = s1 \<or> (\<exists>ps' m'. loop c b k u ps' m' s1 = Some y)"
        by (cases g) (auto simp: Let_def split: if_splits)
      ultimately show "objs s \<subseteq> objs (snd y)" using IH keeps by blast
    qed
  qed
  with assms(2) show ?thesis by blast
qed

lemma keeps_records_methods:
  "ShareStore_Create sh d = (r, d1) \<Longrightarrow> keeps_records d d1"
  "ShareStore_GetBySlug slug d = (g, d1) \<Longrightarrow> keeps_records d d1"
  "ShareStore_GetByStorageKey key d = (g, d1) \<Longrightarrow> keeps_records d d1"
  "ShareStore_RotateCode sh d = (r, d1) \<Longrightarrow> keeps_records d d1"
  "ShareStore_ListByOwner owner d = (l, d1) \<Longrightarrow> keeps_records d d1"
  "ShareStore_Delete slug owner d = (r, d1) \<Longrightarrow> keeps_records d d1"
  "UploadStore_GetByStorageKey key d = (u, d1) \<Longrightarrow> keeps_records d d1"
  "UploadStore_Create up d = (r, d1) \<Longrightarrow> keeps_records d d1"
proof -
  show "keeps_records d d1" if "ShareStore_Create sh d = (r, d1)" for sh d r d1
    using that keeps_records_calls(1) [of "sql_insert_share sh" d]
    by (auto simp: ShareStore_Create_def sql_insert_share_def split: prod.splits sum.splits if_splits)
  have read: "keeps_records d d1" if "get_share fmt p d = (g, d1)" for fmt p d g d1
    using that keeps_records_calls(3) [of "sql_select_shares p" d]
    by (auto simp: get_share_def sql_select_shares_def split: prod.splits sum.splits if_splits)
  then show "keeps_records d d1" if "ShareStore_GetBySlug slug d = (g, d1)" for slug d g d1
    using that by (simp add: ShareStore_GetBySlug_def)
  show "keeps_records d d1" if "ShareStore_GetByStorageKey key d = (g, d1)" for key d g d1
    using that read by (simp add: ShareStore_GetByStorageKey_def)
  show "keeps_records d d1" if "ShareStore_RotateCode sh d = (r, d1)" for sh d r d1
    using that keeps_records_calls(1) [of "sql_update_share sh" d]
    by (auto simp: ShareStore_RotateCode_def sql_update_share_def split: prod.splits sum.splits if_splits)
  show "keeps_records d d1" if "ShareStore_ListByOwner owner d = (l, d1)" for owner d l d1
    using that keeps_records_calls(2) [of "sql_select_by_owner owner" d]
    by (auto simp: ShareStore_ListByOwner_def sql_select_by_owner_def split: prod.splits sum.splits if_splits)
  show "keeps_records d d1" if "ShareStore_Delete slug owner d = (r, d1)" for slug owner d r d1
    using that keeps_records_calls(1) [of "affected (sql_delete_owned slug owner)" d]
    by (auto simp: ShareStore_Delete_def affected_def sql_delete_owned_def sql_delete_shares_def
        split: prod.splits sum.splits if_splits)
  show "keeps_records d d1" if "UploadStore_GetByStorageKey key d = (u, d1)" for key d u d1
    using UploadStore_GetByStorageKey_effect [OF that] by (simp add: keeps_records_same)
  show "keeps_records d d1" if "UploadStore_Create up d = (r, d1)" for up d r d1
    using that keeps_records_calls(1) [of "sql_insert_upload up" d]
    by (auto simp: UploadStore_Create_def sql_insert_upload_def split: prod.splits sum.splits if_splits)
qed

interpretation request_records: handler_frame c bucket "\<lambda>w w'. keeps_records (fst w) (fst w')
    \<and> (s3_keeps c bucket objs \<longrightarrow> objs (snd w) \<subseteq> objs (snd w'))"
  for c :: "'s s3_client" and bucket :: string and objs :: "'s \<Rightarrow> string set"
proof unfold_locales
  show "keeps_records (fst w) (fst (fst w, s1)) \<and> (s3_keeps c bucket objs \<longrightarrow> objs (snd w) \<subseteq> objs (snd (fst w, s1)))"
    if "S3_ListParts c bucket key uid (snd w) = Some (ps, s1)" for key uid w ps s1
    using list_parts_keeps [OF that [unfolded S3_ListParts_def], of objs] by auto
qed (auto simp: on_db_eq on_s3_eq intro: keeps_records_trans keeps_records_methods dest: s3_keeps_calls)

subsection \<open>Passes of the jobs\<close>

text \<open>Between two passes nothing but upload rows with keys in \<open>U\<close> goes, and entries are only added.\<close>

definition appends :: "string set \<Rightarrow> db \<Rightarrow> db \<Rightarrow> bool" where
  "appends U d d' \<longleftrightarrow> (\<exists>as. audit_t d' = audit_t d @ as) \<and> (\<exists>js. job_runs_t d' = job_runs_t d @ js)
     \<and> (\<forall>u \<in> set (uploads_t d). u_storage_key u \<notin> U \<longrightarrow> (\<exists>v \<in> set (uploads_t d'). same_upload u v))"

lemma same_upload_there: "u \<in> us \<Longrightarrow> \<exists>v \<in> us. same_upload u v"
  by (auto simp: same_upload_def)

lemma appends_refl [simp]: "appends U d d"
  by (simp add: appends_def same_upload_there)

lemma appends_mono: "appends U d d' \<Longrightarrow> U \<subseteq> V \<Longrightarrow> appends V d d'"
  unfolding appends_def by blast

lemma appends_trans:
  assumes "appends U d d1" "appends U d1 d2"
  shows "appends U d d2"
proof -
  have "\<exists>v \<in> set (uploads_t d2). same_upload u v" if "u \<in> set (uploads_t d)" "u_storage_key u \<notin> U" for u
  proof -
    from assms(1) that obtain v where v: "v \<in> set (uploads_t d1)" "same_upload u v" unfolding appends_def by blast
    with that(2) have "u_storage_key v \<notin> U" by (simp add: same_upload_def)
    with assms(2) v(1) obtain x where "x \<in> set (uploads_t d2)" "same_upload v x" unfolding appends_def by blast
    with v(2) show ?thesis by (auto simp: same_upload_def)
  qed
  moreover from assms obtain as1 js1 as2 js2 where "audit_t d1 = audit_t d @ as1" "job_runs_t d1 = job_runs_t d @ js1"
    "audit_t d2 = audit_t d1 @ as2" "job_runs_t d2 = job_runs_t d1 @ js2" unfolding appends_def by blast
  ultimately show ?thesis by (simp add: appends_def)
qed

lemma appends_kept:
  "audit_t d' = audit_t d \<Longrightarrow> job_runs_t d' = job_runs_t d \<Longrightarrow> set (uploads_t d) \<subseteq> set (uploads_t d') \<Longrightarrow> appends U d d'"
  by (auto simp: appends_def intro: same_upload_there)

lemma keeps_records_appends: "keeps_records d d' \<Longrightarrow> appends U d d'"
  by (rule appends_kept) (simp_all add: keeps_records_def)

interpretation job_records: job_frame "\<lambda>S U. appends U"
proof unfold_locales
  note runs = silence.dropped silence.marked silence.recorded silence.unshared silence.deleted
  note runs = runs [unfolded silent_def, THEN conjunct1]
  show "appends {key} d d1" if "UploadStore_Delete key d = (r, d1)" for key d r d1
    using UploadStore_Delete_effect [OF that] runs(1) [OF that] by (auto simp: appends_def intro: same_upload_there)
  show "appends U d d1" if "UploadStore_MarkDeleteFailed key e d = (r, d1)" for U key e d r d1
  proof -
    have "\<exists>v \<in> bump key e ` us. same_upload u v" if "u \<in> us" for u us
      using that by (intro bexI [of _ "bump key e u"]) (auto simp: same_upload_def bump_def)
    with UploadStore_MarkDeleteFailed_effect [OF that] runs(2) [OF that] show ?thesis
      by (auto simp: appends_def intro: same_upload_there)
  qed
  show "appends U d d1" if "DBAuditor_Record act subject detail d = (r, d1)" for U act subject detail d r d1
    using DBAuditor_Record_effect [OF that] runs(3) [OF that] by (auto simp: appends_def intro: same_upload_there)
  show "appends U d d1" if "UploadStore_ListExpired a b n d = (lr, d1)" for U a b n d lr d1
    using that UploadStore_ListExpired_effect [of a b n d "fst lr" "snd lr" d1]
    by (simp add: keeps_records_same keeps_records_appends)
  show "appends U d d1" if "ShareStore_ListExpired now n d = (sr, d1)" for U now n d sr d1
    using that ShareStore_ListExpired_effect [of now n d "fst sr" "snd sr" d1]
    by (simp add: keeps_records_same keeps_records_appends)
  show "appends U d d1" if "ShareStore_DeleteByStorageKey key d = (kr, d1)" for U key d kr d1
    using ShareStore_DeleteByStorageKey_effect [OF that] runs(4) [OF that] by (simp add: appends_kept)
  show "appends U d d1" if "ShareStore_DeleteBySlug slug d = (r, d1)" for U slug d r d1
  proof -
    from that have "keeps_records d d1"
      using keeps_records_calls(1) [of "affected (sql_delete_shares (\<lambda>s. r_slug s = slug))" d]
      by (auto simp: ShareStore_DeleteBySlug_def affected_def sql_delete_shares_def split: prod.splits sum.splits)
    then show ?thesis by (rule keeps_records_appends)
  qed
qed (auto intro: appends_trans appends_mono)

lemma record_run_appends: "appends U (fst w) (fst (record_run ctx name start fin err w))"
proof -
  let ?row = "\<lparr>j_job = name, j_started_at = pg_ts start, j_finished_at = pg_ts fin,
      j_status = (if err \<noteq> None then ''error'' else ''ok''), j_error = err\<rparr>"
  obtain o1 d1 where n: "next_outcome (fst w) = (o1, d1)" by (rule prod.exhaust)
  then have "same_tables (fst w) d1" by (rule next_outcome_tables)
  moreover have "appends U d1 (snd (sql_insert_job_run ?row d1))"
    by (simp add: sql_insert_job_run_def appends_def same_upload_there)
  ultimately have both: "appends U (fst w) d1" "appends U (fst w) (snd (sql_insert_job_run ?row d1))"
    using keeps_records_appends keeps_records_same appends_trans by blast+
  from n have "fst (record_run ctx name start fin err w) = d1
      \<or> fst (record_run ctx name start fin err w) = snd (sql_insert_job_run ?row d1)
      \<or> fst (record_run ctx name start fin err w) = fst w"
    by (cases ctx; cases o1) (auto simp: record_run_def DBRunRecorder_Record_def db_Exec_def)
  moreover have "appends U (fst w) (fst w)" by (simp add: keeps_records_appends keeps_records_same)
  ultimately show ?thesis using both by auto
qed

definition pass_drops :: "duration \<Rightarrow> duration \<Rightarrow> turn \<Rightarrow> db \<Rightarrow> string set" where
  "pass_drops anon owned t d =
     (if tn_job t = 0 then {} else due_uploads (tn_now t + wrap64 (- anon)) (tn_now t + wrap64 (- owned)) d)"

lemma sweep_appends:
  "appends (due_uploads (now + wrap64 (- anon)) (now + wrap64 (- owned)) (fst w)) (fst w)
     (fst (snd (Retention_Run (live_retention c bucket anon owned) now w)))"
proof (rule job_records.Retention_Run_frame)
  show "up_StorageKey ` set l \<subseteq> due_uploads (now + wrap64 (- anon)) (now + wrap64 (- owned)) (fst w)"
    if "UploadStore_ListExpired (now + wrap64 (- anon)) (now + wrap64 (- owned)) sweepBatchSize (fst w) = ((l, e), d1)"
    for l e d1
    using UploadStore_ListExpired_effect [OF that] by (simp add: due_listed)
qed

lemma pass_appends:
  assumes "tn_job t < 2"
  shows "appends (pass_drops anon owned t (fst w)) (fst w) (fst (run_turn (live_runner c bucket anon owned) Live t w))"
  using assms
proof (cases rule: run_turn_jobs [where w = w and c = c and bucket = bucket and anon = anon and owned = owned])
  case (purge r d1 name err)
  have "appends {} d1 (fst (run_turn (live_runner c bucket anon owned) Live t w))"
    using record_run_appends [where w = "(d1, snd w)" and U = "{}"] purge(3) by simp
  with job_records.Purge_Run_frame [OF purge(2)] purge(1) appends_trans show ?thesis
    by (auto simp: pass_drops_def)
next
  case (sweep w1 name err)
  with sweep_appends record_run_appends [where w = w1] appends_trans show ?thesis
    by (simp add: pass_drops_def) blast
next
  case (late name err)
  then show ?thesis using record_run_appends [where w = w] by simp
qed

subsection \<open>The life of a server\<close>

definition is_pass :: "event \<Rightarrow> bool" where
  "is_pass e \<longleftrightarrow> (case e of Job t \<Rightarrow> True | Http q \<Rightarrow> False)"

lemma is_pass_simps [simp]: "is_pass (Job t)" "\<not> is_pass (Http q)"
  by (simp_all add: is_pass_def)

lemma happen_wired:
  assumes "happen c bucket anon owned e (l, w) = Some (l', w')" "well_wired c bucket l"
  shows "well_wired c bucket l'"
proof (cases e)
  case (Http q)
  with assms(1) obtain r where "respond l q w = Some (r, l', w')" by auto
  from respond_effect [OF assms(2) this] show ?thesis by blast
qed (use assms in \<open>auto split: if_splits\<close>)

lemma happen_records:
  assumes "happen c bucket anon owned e (l, w) = Some (l', w')" "well_wired c bucket l"
  obtains as js where "audit_t (fst w') = audit_t (fst w) @ as" "job_runs_t (fst w') = job_runs_t (fst w) @ js"
    "length js \<le> length (filter is_pass [e])" "\<not> is_pass e \<longrightarrow> as = []"
proof (cases e)
  case (Http q)
  with assms(1) obtain r where "respond l q w = Some (r, l', w')" by auto
  from request_records.respond_kept [OF assms(2) this] show thesis
    by (intro that [of "[]" "[]"]) (simp_all add: keeps_records_def)
next
  case (Job t)
  with assms(1) have t: "tn_job t < 2" and w': "w' = run_turn (live_runner c bucket anon owned) Live t w"
    by (auto split: if_splits)
  from pass_appends [OF t] obtain as where as: "audit_t (fst w') = audit_t (fst w) @ as"
    unfolding w' appends_def by blast
  have job: "rn_record (live_runner c bucket anon owned) = Some record_run"
    "silent_job (rn_jobs (live_runner c bucket anon owned) ! tn_job t)"
    using live_jobs_silent [of c bucket anon owned] t by (auto simp: live_runner_def Runner_New_def less_2_cases_iff)
  note history = run_turn_history [OF job, where ctx = Live and w = w]
  from history(1) have "job_runs_t (fst w') = job_runs_t (fst w) @ pass_row (live_runner c bucket anon owned) Live t w"
    unfolding w' .
  with as Job history(3) show thesis by (intro that [of as "pass_row (live_runner c bucket anon owned) Live t w"]) simp_all
qed

text \<open>
  C17. The audit trail and the job history are append-only: over any life of the server,
  failing calls included, no entry is changed, removed or reordered. Requests add none to
  either, and a pass of a job adds at most one row to the history.
\<close>

theorem trails_append_only:
  assumes "live_run c srv es w = Some (l', w')"
  shows "\<exists>as js. audit_t (fst w') = audit_t (fst w) @ as \<and> job_runs_t (fst w') = job_runs_t (fst w) @ js
    \<and> length js \<le> length (filter is_pass es) \<and> (filter is_pass es = [] \<longrightarrow> as = [])"
proof -
  obtain l anon owned where l: "live_server c srv = Some l"
    and run: "happen_all c (so_bucketName (sv_Storage srv)) anon owned es (l, w) = Some (l', w')"
    by (rule live_run_eq [OF assms])
  from live_server_wired [OF l] have "well_wired c (so_bucketName (sv_Storage srv)) l" by simp
  with run show ?thesis
  proof (induction es arbitrary: l w)
    case (Cons e es)
    from Cons.prems(1) obtain l1 w1 where e: "happen c (so_bucketName (sv_Storage srv)) anon owned e (l, w) = Some (l1, w1)"
      and es: "happen_all c (so_bucketName (sv_Storage srv)) anon owned es (l1, w1) = Some (l', w')"
      by (auto split: option.splits)
    obtain as js where first: "audit_t (fst w1) = audit_t (fst w) @ as" "job_runs_t (fst w1) = job_runs_t (fst w) @ js"
      "length js \<le> length (filter is_pass [e])" "\<not> is_pass e \<longrightarrow> as = []"
      by (rule happen_records [OF e Cons.prems(2)])
    from Cons.IH [OF es happen_wired [OF e Cons.prems(2)]] obtain as2 js2 where
      "audit_t (fst w') = audit_t (fst w1) @ as2" "job_runs_t (fst w') = job_runs_t (fst w1) @ js2"
      "length js2 \<le> length (filter is_pass es)" "filter is_pass es = [] \<longrightarrow> as2 = []" by blast
    with first show ?case by (intro exI [of _ "as @ as2"] exI [of _ "js @ js2"]) (auto split: if_splits)
  qed simp
qed

subsection \<open>Files through their retention window\<close>

lemma same_upload_trans: "same_upload u v \<Longrightarrow> same_upload v x \<Longrightarrow> same_upload u x"
  by (simp add: same_upload_def)

text \<open>One event keeps the row and its object, unless it is a sweep past the window.\<close>

definition past_sweep :: "duration \<Rightarrow> duration \<Rightarrow> upload_row \<Rightarrow> event \<Rightarrow> bool" where
  "past_sweep anon owned u e \<longleftrightarrow>
     (case e of Job t \<Rightarrow> tn_job t = 1 \<and> u_created_at u + window_of anon owned u < tn_now t | Http q \<Rightarrow> False)"

lemma pass_keeps_objects:
  assumes "tn_job t < 2" "s3_contract c bucket objs"
  shows "objs (snd w) - pass_drops anon owned t (fst w) \<subseteq> objs (snd (run_turn (live_runner c bucket anon owned) Live t w))"
  using assms(1)
proof (cases rule: run_turn_jobs [where w = w and c = c and bucket = bucket and anon = anon and owned = owned])
  case (purge r d1 name err)
  then show ?thesis by (auto simp: record_run_def)
next
  case (sweep w1 name err)
  let ?D = "due_uploads (tn_now t + wrap64 (- anon)) (tn_now t + wrap64 (- owned)) (fst w)"
  have "live_sweep.swept_to c bucket objs ?D w w1"
    using live_sweep.Run_safe [OF assms(2), where w = w and now = "tn_now t" and anon = anon and owned = owned]
    by (simp add: sweep(2))
  with sweep(1,3) show ?thesis by (auto simp: live_sweep.swept_to_def pass_drops_def record_run_def)
next
  case (late name err)
  then show ?thesis by (auto simp: record_run_def)
qed

lemma event_keeps_upload:
  assumes "happen c bucket anon owned e (l, w) = Some (l', w')" "well_wired c bucket l" "db_ok (fst w)"
    and "u \<in> set (uploads_t (fst w))" "s3_keeps c bucket objs"
    and "0 \<le> anon" "anon < 2 ^ 63" "0 \<le> owned" "owned < 2 ^ 63" "\<not> past_sweep anon owned u e"
  shows "(\<exists>v \<in> set (uploads_t (fst w')). same_upload u v)
    \<and> (u_storage_key u \<in> objs (snd w) \<longrightarrow> u_storage_key u \<in> objs (snd w'))"
proof (cases e)
  case (Http q)
  with assms(1) obtain r where "respond l q w = Some (r, l', w')" by auto
  from request_records.respond_kept [OF assms(2) this] assms(4,5) show ?thesis
    by (auto simp: keeps_records_def intro: same_upload_there)
next
  case (Job t)
  with assms(1) have t: "tn_job t < 2" and w': "w' = run_turn (live_runner c bucket anon owned) Live t w"
    by (auto split: if_splits)
  have "u_storage_key u \<notin> pass_drops anon owned t (fst w)"
  proof
    assume due: "u_storage_key u \<in> pass_drops anon owned t (fst w)"
    then obtain v where v: "tn_job t = 1" "v \<in> set (uploads_t (fst w))" "u_storage_key v = u_storage_key u"
      "past_window (tn_now t + wrap64 (- anon)) (tn_now t + wrap64 (- owned)) v"
      using t by (auto simp: pass_drops_def due_uploads_def less_2_cases_iff split: if_splits)
    have "inj_on u_storage_key (set (uploads_t (fst w)))" using assms(3) by (simp add: db_ok_def distinct_map)
    with v(2,3) assms(4) have "v = u" by (auto simp: inj_on_def)
    with past_window_since [OF v(4) assms(6-9)] v(1) assms(10) Job show False by (simp add: past_sweep_def)
  qed
  moreover have "s3_contract c bucket objs" using assms(5) by (simp add: s3_keeps_def)
  ultimately show ?thesis
    using pass_appends [OF t, where w = w and c = c and bucket = bucket and anon = anon and owned = owned] assms(4)
      pass_keeps_objects [OF t, where w = w and c = c and bucket = bucket and anon = anon and owned = owned]
    unfolding w' appends_def by blast
qed

lemma happen_all_uploads:
  assumes "happen_all c bucket anon owned es (l, w) = Some (l', w')" "well_wired c bucket l" "db_ok (fst w)"
    and "u \<in> set (uploads_t (fst w))" "s3_keeps c bucket objs"
    and "0 \<le> anon" "anon < 2 ^ 63" "0 \<le> owned" "owned < 2 ^ 63" "\<forall>e \<in> set es. \<not> past_sweep anon owned u e"
  shows "(\<exists>v \<in> set (uploads_t (fst w')). same_upload u v)
    \<and> (u_storage_key u \<in> objs (snd w) \<longrightarrow> u_storage_key u \<in> objs (snd w'))"
  using assms(1-4,10)
proof (induction es arbitrary: l w u)
  case Nil
  then show ?case by (auto intro: same_upload_there)
next
  case (Cons e es)
  from Cons.prems(1) obtain l1 w1 where e: "happen c bucket anon owned e (l, w) = Some (l1, w1)"
    and es: "happen_all c bucket anon owned es (l1, w1) = Some (l', w')" by (auto split: option.splits)
  from e Cons.prems(2) db_state_ok_self [OF Cons.prems(3)] have "db_state_ok (fst w) (fst w1)"
    by (cases rule: happen_cases) simp_all
  then have ok: "db_ok (fst w1)" by (simp add: db_state_ok_def)
  from event_keeps_upload [OF e Cons.prems(2-4) assms(5-9)] Cons.prems(5) obtain v where
    v: "v \<in> set (uploads_t (fst w1))" "same_upload u v"
    and obj: "u_storage_key u \<in> objs (snd w) \<longrightarrow> u_storage_key u \<in> objs (snd w1)" by auto
  have "past_sweep anon owned v = past_sweep anon owned u"
    using v(2) by (auto simp: past_sweep_def [abs_def] same_upload_def window_of_def)
  with Cons.IH [OF es happen_wired [OF e Cons.prems(2)] ok v(1)] Cons.prems(5) v(2) obj show ?case
    by (auto simp: same_upload_def dest: same_upload_trans)
qed

text \<open>A server at some point of its life.\<close>

lemma happen_all_db:
  assumes "happen_all c bucket anon owned es (l, w) = Some (l', w')" "well_wired c bucket l" "db_state_ok d0 (fst w)"
  shows "db_state_ok d0 (fst w') \<and> well_wired c bucket l' \<and> lv_deps l' = lv_deps l"
  using assms
proof (induction es arbitrary: l w)
  case (Cons e es)
  from Cons.prems(1) obtain l1 w1 where e: "happen c bucket anon owned e (l, w) = Some (l1, w1)"
    and es: "happen_all c bucket anon owned es (l1, w1) = Some (l', w')" by (auto split: option.splits)
  from e Cons.prems(2,3) have "well_wired c bucket l1 \<and> db_state_ok d0 (fst w1) \<and> lv_deps l1 = lv_deps l"
    by (cases rule: happen_cases) simp_all
  with Cons.IH [OF es] show ?case by simp
qed simp

lemma live_run_point:
  assumes "live_run c srv es w = Some (l1, w1)" "db_ok (fst w)" "sv_Windows srv = Some (anon, owned)"
  shows "db_ok (fst w1)" "well_wired c (so_bucketName (sv_Storage srv)) l1" "lv_deps l1 = route_deps srv"
    "uuid_in (fst w1) = uuid_in (fst w)"
    "live_run c srv (es @ fs) w = happen_all c (so_bucketName (sv_Storage srv)) anon owned fs (l1, w1)"
proof -
  let ?b = "so_bucketName (sv_Storage srv)"
  obtain l where l: "live_server c srv = Some l" and run: "happen_all c ?b anon owned es (l, w) = Some (l1, w1)"
    using assms(3) by (auto intro: live_run_eq [OF assms(1)])
  from live_server_wired [OF l] have l': "well_wired c ?b l" "lv_deps l = route_deps srv" by simp_all
  from happen_all_db [OF run l'(1) db_state_ok_self [OF assms(2)]] l'(2)
  show "db_ok (fst w1)" "well_wired c ?b l1" "lv_deps l1 = route_deps srv" "uuid_in (fst w1) = uuid_in (fst w)"
    by (simp_all add: db_state_ok_def)
  show "live_run c srv (es @ fs) w = happen_all c ?b anon owned fs (l1, w1)"
    by (simp add: live_run_def l assms(3) happen_all_append run)
qed

lemma kept_from_point:
  assumes "live_run c srv es1 w = Some (l1, w1)" "live_run c srv (es1 @ es2) w = Some (l2, w2)"
    and "db_ok (fst w)" "u \<in> set (uploads_t (fst w1))" "s3_keeps c (so_bucketName (sv_Storage srv)) objs"
    and "sv_Windows srv = Some (anon, owned)" "0 \<le> anon" "anon < 2 ^ 63" "0 \<le> owned" "owned < 2 ^ 63"
  shows "(\<exists>v \<in> set (uploads_t (fst w2)). same_upload u v)
      \<and> (u_storage_key u \<in> objs (snd w1) \<longrightarrow> u_storage_key u \<in> objs (snd w2))
    \<or> (\<exists>t. Job t \<in> set es2 \<and> tn_job t = 1 \<and> u_created_at u + window_of anon owned u < tn_now t)"
proof (cases "\<forall>e \<in> set es2. \<not> past_sweep anon owned u e")
  case True
  note point = live_run_point [OF assms(1,3,6)]
  with assms(2) have "happen_all c (so_bucketName (sv_Storage srv)) anon owned es2 (l1, w1) = Some (l2, w2)" by simp
  from happen_all_uploads [OF this point(2,1) assms(4,5,7-10) True] show ?thesis by blast
next
  case False
  then obtain e where "e \<in> set es2" "past_sweep anon owned u e" by blast
  then show ?thesis by (cases e rule: event.exhaust) (auto simp: past_sweep_def)
qed

text \<open>
  C9. A file is kept through its whole retention window: from any point in the life of a server
  on, whatever requests come and whatever calls fail, an upload row keeps its owner, name,
  size and time, and the object under its key stays in the bucket, until a retention pass
  runs when the row is past the window of its owner. Relied on of S3 is that only a
  \<open>DELETE\<close> removes an object.
\<close>

theorem uploads_kept_through_window:
  assumes "live_run c srv es1 w = Some (l1, w1)" "live_run c srv (es1 @ es2) w = Some (l2, w2)"
    and "db_ok (fst w)" "u \<in> set (uploads_t (fst w1))" "s3_keeps c (so_bucketName (sv_Storage srv)) objs"
    and "sv_Windows srv = Some (anon, owned)" "0 \<le> anon" "anon < 2 ^ 63" "0 \<le> owned" "owned < 2 ^ 63"
  shows "(\<exists>v \<in> set (uploads_t (fst w2)). same_upload u v)
      \<and> (u_storage_key u \<in> objs (snd w1) \<longrightarrow> u_storage_key u \<in> objs (snd w2))
    \<or> (\<exists>t. Job t \<in> set es2 \<and> tn_job t = 1 \<and> u_created_at u + window_of anon owned u < tn_now t)"
  by (rule kept_from_point [OF assms])

text \<open>A retention pass meets a file that is two and a half hours old.\<close>

lemma bucket_client_keeps: "s3_keeps bucket_client bucket dom"
  using bucket_client_contract by (simp add: s3_keeps_def) (simp add: bucket_client_def)

lemma bucket_run:
  obtains l' w' where "live_run bucket_client sample_server [Job (sample_pass 1), Job (sample_pass 0)]
    (old_db, [''k'' \<mapsto> 5]) = Some (l', w')"
proof -
  have "\<exists>l. live_server bucket_client sample_server = Some l"
    by (simp add: live_server_def server_share_handler_def sample_server_def)
  then have "\<exists>l' w'. live_run bucket_client sample_server [Job (sample_pass 1), Job (sample_pass 0)]
    (old_db, [''k'' \<mapsto> 5]) = Some (l', w')"
    by (auto simp: live_run_def sample_windows sample_pass_def simp del: split_paired_Ex)
  then show thesis using that by blast
qed

theorem trails_append_only_witness:
  "\<exists>l' w' as js. live_run bucket_client sample_server [Job (sample_pass 1), Job (sample_pass 0)]
      (old_db, [''k'' \<mapsto> 5]) = Some (l', w')
    \<and> audit_t (fst w') = audit_t old_db @ as \<and> job_runs_t (fst w') = job_runs_t old_db @ js \<and> length js \<le> 2"
proof -
  obtain l' w' where run: "live_run bucket_client sample_server [Job (sample_pass 1), Job (sample_pass 0)]
    (old_db, [''k'' \<mapsto> 5]) = Some (l', w')" by (rule bucket_run)
  from trails_append_only [OF run] obtain as js where "audit_t (fst w') = audit_t old_db @ as"
    "job_runs_t (fst w') = job_runs_t old_db @ js" "length js \<le> 2" by auto
  with run show ?thesis by blast
qed

theorem uploads_kept_through_window_witness:
  "\<exists>l' w'. live_run bucket_client sample_server [Job (sample_pass 1), Job (sample_pass 0)]
      (old_db, [''k'' \<mapsto> 5]) = Some (l', w')
    \<and> (\<exists>v \<in> set (uploads_t (fst w')). same_upload old_upload v) \<and> ''k'' \<in> dom (snd w')"
proof -
  obtain l' w' where run: "live_run bucket_client sample_server [Job (sample_pass 1), Job (sample_pass 0)]
    (old_db, [''k'' \<mapsto> 5]) = Some (l', w')" by (rule bucket_run)
  have db: "db_ok (fst (old_db, [''k'' \<mapsto> 5 :: int]))" "old_upload \<in> set (uploads_t (fst (old_db, [''k'' \<mapsto> 5 :: int])))"
    by (simp_all add: old_db_def db_ok_def empty_db_def)
  have bounds: "0 \<le> 72 * Hour" "72 * Hour < 2 ^ 63" "0 \<le> 168 * Hour" "168 * Hour < 2 ^ 63"
    by (simp_all add: Hour_eq)
  have none: "live_run bucket_client sample_server [] (old_db, [''k'' \<mapsto> 5]) = Some (the (live_server bucket_client sample_server), (old_db, [''k'' \<mapsto> 5]))"
    by (simp add: live_run_def sample_windows live_server_def server_share_handler_def sample_server_def)
  have "live_run bucket_client sample_server ([] @ [Job (sample_pass 1), Job (sample_pass 0)]) (old_db, [''k'' \<mapsto> 5])
      = Some (l', w')" using run by simp
  from uploads_kept_through_window [OF none this db bucket_client_keeps sample_windows bounds] run show ?thesis
    by (auto simp: sample_pass_def window_of_def Hour_eq)
qed

end
