(* ===== verification/Custody.thy ===== *)
theory Custody
  imports Ledger
begin

section \<open>From the upload URL to the end of the window, over HTTP\<close>

text \<open>
  What an uploader is promised: the URL that a request brought back leads to a file that the
  service keeps track of and keeps. The two routes, one presigned \<open>PUT\<close> and the multipart
  session, leave the same kind of row.
\<close>

lemma dispatch_uploads:
  "dispatch l a q w = Some (R_Presign pr, l', w') \<Longrightarrow>
     PresignUpload (lv_files l) (ar_ctx a) (b_presign (ht_bodies q (ar_body_limit a))) (ht_uuid q) (ht_clock q 1) w = (pr, w')"
  "dispatch l a q w = Some (R_Init ir, l', w') \<Longrightarrow>
     Init (lv_multipart l) (ar_ctx a) (b_init (ht_bodies q (ar_body_limit a))) (ht_uuid q) (ht_clock q 1) w = (ir, w')"
  by (cases "ar_handler a"; auto simp: dispatch_def Let_def split: prod.splits)+

lemma respond_reaches:
  assumes "respond l q w = Some (r, l', w')" "\<forall>x. r \<noteq> R_Local x"
  obtains a :: arrival and ls where "serve (lv_deps l) (ht_request q) (ht_clock q 0) (lv_limits l) = (Inr a, ls)"
    "dispatch (l\<lparr>lv_limits := ls\<rparr>) a q w = Some (r, l', w')"
proof -
  obtain x ls where x: "serve (lv_deps l) (ht_request q) (ht_clock q 0) (lv_limits l) = (x, ls)" by (rule prod.exhaust)
  with assms that show thesis by (cases x) (auto simp: respond_def)
qed

text \<open>The row a successful recording leaves for a fresh key; the size is the one of the request.\<close>

definition declared_size :: "http \<Rightarrow> int \<Rightarrow> bool" where
  "declared_size q n \<longleftrightarrow> (\<exists>limit. (\<exists>req. b_presign (ht_bodies q limit) = Some req \<and> pq_Size req = n)
     \<or> (\<exists>req. b_init (ht_bodies q limit) = Some req \<and> iq_Size req = n))"

lemma declared_sizeI:
  "b_presign (ht_bodies q limit) = Some req1 \<Longrightarrow> declared_size q (pq_Size req1)"
  "b_init (ht_bodies q limit) = Some req2 \<Longrightarrow> declared_size q (iq_Size req2)"
  by (auto simp: declared_size_def)

definition handed_out :: "verifier option \<Rightarrow> http \<Rightarrow> db \<Rightarrow> string \<Rightarrow> string \<Rightarrow> upload_row \<Rightarrow> bool" where
  "handed_out v q d key name u \<longleftrightarrow> u_storage_key u = key \<and> u_file_name u = name
     \<and> declared_size q (u_size_bytes u) \<and> u_created_at u = pg_ts (ht_clock q 1)
     \<and> (\<forall>owner. u_owner_id u = Some owner \<longrightarrow> (\<exists>usr. signed_in v q usr \<and> uuid_in d (usr_ID usr) = Some owner))"

lemma recorded_row:
  assumes "recordUploadFor (ar_ctx a) (Some db_upload_recorder) key name n (ht_clock q 1) w = (None, w')"
    and "serve d (ht_request q) t ls = (Inr a, ls')" "key \<notin> upload_keys (fst w)" "declared_size q n"
  shows "\<exists>u \<in> set (uploads_t (fst w')). handed_out (dp_Verifier d) q (fst w) key name u"
proof -
  from recordUploadFor_live(2) [OF assms(1) refl] obtain u where u: "u \<in> set (uploads_t (fst w'))" "u_storage_key u = key"
    and new: "u \<notin> set (uploads_t (fst w)) \<longrightarrow>
      uuid_arg (fst w) (nullable (case c_User (ar_ctx a) of Some u \<Rightarrow> usr_ID u | None \<Rightarrow> [])) = Inr (u_owner_id u)
      \<and> u_size_bytes u = n \<and> u_file_name u = name \<and> u_created_at u = pg_ts (ht_clock q 1)" by blast
  from assms(3) u(2) have "u \<notin> set (uploads_t (fst w))" by (auto simp: upload_keys_def)
  with new have row: "uuid_arg (fst w) (nullable (case c_User (ar_ctx a) of Some u \<Rightarrow> usr_ID u | None \<Rightarrow> [])) = Inr (u_owner_id u)"
    "u_file_name u = name" "u_size_bytes u = n" "u_created_at u = pg_ts (ht_clock q 1)" by simp_all
  have "\<exists>usr. signed_in (dp_Verifier d) q usr \<and> uuid_in (fst w) (usr_ID usr) = Some owner" if "u_owner_id u = Some owner" for owner
  proof -
    from row(1) that obtain usr where usr: "c_User (ar_ctx a) = Some usr" "uuid_in (fst w) (usr_ID usr) = Some owner"
      by (auto simp: uuid_arg_def nullable_def split: option.splits if_splits)
    with serve_user [OF assms(2) usr(1)] show ?thesis by (auto simp: signed_in_def)
  qed
  with u row(2-4) assms(4) show ?thesis by (auto simp: handed_out_def)
qed


lemma Init_recorded:
  assumes "Init (live_multipart c bucket m) ctx body uuid now w = (Success resp, w')"
  shows "\<exists>req w1. body = Some req \<and> fst w1 = fst w
    \<and> recordUploadFor ctx (Some db_upload_recorder) (ir_StorageKey resp) (ir_Name resp) (iq_Size req) now w1 = (None, w')"
  using assms
  by (auto simp: Init_def Let_def live_multipart_def s3_multipart_def on_s3_eq
      split: option.splits if_splits prod.splits sum.splits)

lemma PresignUpload_recorded:
  assumes "PresignUpload (live_files c bucket m) ctx body uuid now w = (Success resp, w')"
  shows "\<exists>req w1. body = Some req \<and> fst w1 = fst w
    \<and> recordUploadFor ctx (Some db_upload_recorder) (pr_StorageKey resp) (pr_Name resp) (pq_Size req) now w1 = (None, w')"
proof (rule PresignUpload_Success [OF assms])
  fix req w1
  assume body: "body = Some req" and put: "os_GetPresignedUploadURL (fh_storage (live_files c bucket m)) (pr_StorageKey resp) (pq_Size req)
       (default_content_type (pq_ContentType req)) w = (Inr (pr_UploadURL resp), w1)"
    and rec: "recordUploadFor ctx (fh_uploads (live_files c bucket m)) (pr_StorageKey resp) (pr_Name resp) (pq_Size req) now w1
       = (None, w')"
  from put have "fst w1 = fst w" by (simp add: live_files_def s3_files_def on_s3_eq)
  with body rec show ?thesis by (intro exI [of _ req] exI [of _ w1]) (simp add: live_files_def)
qed

text \<open>A reply that lets a client upload a file: a presigned URL or a multipart session.\<close>

definition grants_upload :: "reply \<Rightarrow> string \<Rightarrow> string \<Rightarrow> bool" where
  "grants_upload r key name \<longleftrightarrow>
     (\<exists>resp. r = R_Presign (Success resp) \<and> key = pr_StorageKey resp \<and> name = pr_Name resp)
   \<or> (\<exists>resp. r = R_Init (Success resp) \<and> key = ir_StorageKey resp \<and> name = ir_Name resp)"

lemma grant_recorded:
  assumes "well_wired c bucket l" "respond l q w = Some (r, l', w')" "grants_upload r key name"
    and "key \<notin> upload_keys (fst w)"
  shows "\<exists>u \<in> set (uploads_t (fst w')). handed_out (dp_Verifier (lv_deps l)) q (fst w) key name u"
proof -
  from assms(3) have "\<forall>x. r \<noteq> R_Local x" by (auto simp: grants_upload_def)
  with assms(2) obtain a :: arrival and ls where a: "serve (lv_deps l) (ht_request q) (ht_clock q 0) (lv_limits l) = (Inr a, ls)"
    and run: "dispatch (l\<lparr>lv_limits := ls\<rparr>) a q w = Some (r, l', w')" by (rule respond_reaches)
  obtain m m' where wired: "lv_files l = live_files c bucket m" "lv_multipart l = live_multipart c bucket m'"
    using assms(1) by (auto simp: well_wired_def)
  have "\<exists>n w1. declared_size q n \<and> fst w1 = fst w
      \<and> recordUploadFor (ar_ctx a) (Some db_upload_recorder) key name n (ht_clock q 1) w1 = (None, w')"
    using assms(3) run
    by (auto simp: grants_upload_def wired simp del: split_paired_Ex
        dest!: dispatch_uploads PresignUpload_recorded Init_recorded) (metis declared_sizeI fst_conv)+
  with recorded_row [OF _ a] assms(4) show ?thesis by metis
qed

subsection \<open>The promise to the uploader\<close>

lemma granted_row:
  assumes "live_run c srv es w = Some (l1, w1)" "respond l1 q w1 = Some (r, l2, w2)" "db_ok (fst w)"
    and "grants_upload r key name" "key \<notin> upload_keys (fst w1)" "sv_Windows srv = Some (anon, owned)"
  obtains u where "u \<in> set (uploads_t (fst w2))" "handed_out (sv_Verifier srv) q (fst w) key name u"
    "live_run c srv (es @ [Http q]) w = Some (l2, w2)"
proof -
  note point = live_run_point [OF assms(1,3,6)]
  have "dp_Verifier (lv_deps l1) = sv_Verifier srv" by (simp add: point(3) route_deps_def)
  with grant_recorded [OF point(2) assms(2,4,5)] obtain u where
    u: "u \<in> set (uploads_t (fst w2))" "handed_out (sv_Verifier srv) q (fst w1) key name u" by auto
  from u(2) have "handed_out (sv_Verifier srv) q (fst w) key name u" by (simp add: handed_out_def point(4))
  moreover have "live_run c srv (es @ [Http q]) w = Some (l2, w2)" using assms(2) by (simp add: point(5))
  ultimately show thesis using u(1) that by blast
qed

text \<open>
  C10. An uploader is served to the end: when a request is granted an upload, by one presigned
  \<open>PUT\<close> or by a multipart session, under a key that is fresh, then the service has a row for
  that key with the name of the reply and the size and time of the request, which belongs to nobody
  or to the signed-in sender of the request; and from then on, whatever else happens and
  whatever calls fail, the row stays as it is and an object that arrives under the key is
  kept, until a retention pass runs past the window of the row.
\<close>

theorem granted_upload_kept:
  assumes life: "live_run c srv es1 w = Some (l1, w1)" "respond l1 q w1 = Some (r, l2, w2)"
      "live_run c srv (es1 @ Http q # es2) w = Some (l3, w3)" "live_run c srv (es1 @ Http q # es2 @ es3) w = Some (l4, w4)"
    and grant: "grants_upload r key name" "key \<notin> upload_keys (fst w1)"
    and setting: "db_ok (fst w)" "s3_keeps c (so_bucketName (sv_Storage srv)) objs"
      "sv_Windows srv = Some (anon, owned)" "0 \<le> anon" "anon < 2 ^ 63" "0 \<le> owned" "owned < 2 ^ 63"
  shows "\<exists>u. handed_out (sv_Verifier srv) q (fst w) key name u
    \<and> ((\<exists>v \<in> set (uploads_t (fst w4)). same_upload u v) \<and> (key \<in> objs (snd w3) \<longrightarrow> key \<in> objs (snd w4))
     \<or> (\<exists>t. Job t \<in> set (es2 @ es3) \<and> tn_job t = 1 \<and> u_created_at u + window_of anon owned u < tn_now t))"
proof -
  obtain u where u: "u \<in> set (uploads_t (fst w2))" "handed_out (sv_Verifier srv) q (fst w) key name u"
    and now: "live_run c srv (es1 @ [Http q]) w = Some (l2, w2)"
    by (rule granted_row [OF life(1,2) setting(1) grant setting(3)])
  have later: "live_run c srv ((es1 @ [Http q]) @ es2) w = Some (l3, w3)"
    "live_run c srv ((es1 @ Http q # es2) @ es3) w = Some (l4, w4)" using life(3,4) by simp_all
  from kept_from_point [OF now later(1) setting(1) u(1) setting(2-7)]
  consider v where "v \<in> set (uploads_t (fst w3))" "same_upload u v"
    | t where "Job t \<in> set es2" "tn_job t = 1" "u_created_at u + window_of anon owned u < tn_now t" by blast
  then show ?thesis
  proof cases
    case 1
    from kept_from_point [OF life(3) later(2) setting(1) 1(1) setting(2-7)] 1(2) u(2) show ?thesis
      by (intro exI [of _ u]) (auto simp: same_upload_def handed_out_def window_of_def)
  qed (use u(2) in auto)
qed

text \<open>A stranger is given an upload; a retention pass meets the file two microseconds later.\<close>

definition upload_http :: http where
  "upload_http = \<lparr>ht_request = \<lparr>rq_method = POST, rq_path = [''api'', ''v1'', ''files'', ''presign-upload''],
       rq_ClientIP = ''10.0.0.9'', rq_Authorization = []\<rparr>,
     ht_bodies = \<lambda>_. \<lparr>b_presign = Some \<lparr>pq_Name = ''page.txt'', pq_Size = 5, pq_ContentType = []\<rparr>, b_init = None,
       b_part = None, b_ref = None, b_complete = None, b_create = None, b_unlock = None\<rparr>,
     ht_download = [], ht_clock = \<lambda>_. 7000, ht_uuid = sample_id, ht_entropy = []\<rparr>"

lemma upload_found:
  "dp_Verifier d = Some v \<Longrightarrow> find_route (SetupRoutes d) POST [''api'', ''v1'', ''files'', ''presign-upload'']
     = Some (route POST [Lit ''files'', Lit ''presign-upload''] [AuthOptional v, Limit UploadLimit, LimitBody maxJSONBytes] H_PresignUpload)"
  by (simp add: SetupRoutes_def file_routes_def find_route_def route_def api_def optional_auth_def)

lemma upload_limit_free: "\<exists>l. RateLimitByIP ip now (new_limiters UploadLimit) = (None :: unit response option, l)"
  by (simp add: RateLimitByIP_def new_limiters_def Allow_def newRateLimiter_def events_of_def table_full_def)

lemma sample_limit: "5 \<le> max_upload_bytes (cf_Server (sv_Config sample_server))"
  by (simp add: sample_server_def max_upload_bytes_def Load_def sample_env_def load_server_def getEnvInt_def getEnv_def Let_def wrap64_def)

lemma upload_granted:
  obtains l pr l2 d where "live_server bucket_client sample_server = Some l"
    "respond l upload_http (empty_db, s) = Some (R_Presign (Success pr), l2, (d, s))"
    "pr_StorageKey pr = Build sample_id ''page.txt''" "pr_Name pr = ''page.txt''"
proof -
  obtain l where l: "live_server bucket_client sample_server = Some l"
    by (simp add: live_server_def server_share_handler_def sample_server_def)
  let ?n = "max_upload_bytes (cf_Server (sv_Config sample_server))"
  from l have wired: "lv_limits l = new_limiters" "dp_Verifier (lv_deps l) = Some sample_verifier"
    "lv_files l = live_files bucket_client (so_bucketName (sv_Storage sample_server)) ?n"
    by (auto simp: live_server_def route_deps_def Let_def) (simp_all add: sample_server_def)
  obtain lim where lim: "RateLimitByIP ''10.0.0.9'' 7000 (new_limiters UploadLimit) = (None :: unit response option, lim)"
    using upload_limit_free by blast
  have anonymous: "Optional sample_verifier [] = None" by (simp add: Optional_def no_token)
  have "\<exists>pr d. PresignUpload (live_files bucket_client b ?n) \<lparr>c_ClientIP = ''10.0.0.9'', c_User = None\<rparr>
      (Some \<lparr>pq_Name = ''page.txt'', pq_Size = 5, pq_ContentType = []\<rparr>) sample_id 7000 (empty_db, s) = (Success pr, (d, s))
      \<and> pr_StorageKey pr = Build sample_id ''page.txt'' \<and> pr_Name pr = ''page.txt''" for b
    using sample_limit
    by (simp add: PresignUpload_def live_files_def ShouldBindJSON_def presign_tags_def s3_files_def
        on_s3_def bucket_client_def S3_GetPresignedUploadURL_def sample_name recordUploadFor_def
        db_upload_recorder_def on_db_def UploadStore_Create_def sql_insert_upload_def
        uuid_arg_def nullable_def Let_def)
  then obtain pr d where "PresignUpload (lv_files l) \<lparr>c_ClientIP = ''10.0.0.9'', c_User = None\<rparr>
      (Some \<lparr>pq_Name = ''page.txt'', pq_Size = 5, pq_ContentType = []\<rparr>) sample_id 7000 (empty_db, s) = (Success pr, (d, s))"
    and pr: "pr_StorageKey pr = Build sample_id ''page.txt''" "pr_Name pr = ''page.txt''"
    unfolding wired by blast
  then have "\<exists>l2. respond l upload_http (empty_db, s) = Some (R_Presign (Success pr), l2, (d, s))"
    by (simp add: respond_def serve_def upload_http_def upload_found [OF wired(2)] wired(1) lim anonymous dispatch_def)
  with l pr that show thesis by blast
qed

theorem granted_upload_kept_witness:
  "\<exists>l3 w3 l4 w4 u. live_run bucket_client sample_server [Http upload_http] (empty_db, [Build sample_id ''page.txt'' \<mapsto> 5]) = Some (l3, w3)
    \<and> live_run bucket_client sample_server [Http upload_http, Job (sample_pass 1)] (empty_db, [Build sample_id ''page.txt'' \<mapsto> 5]) = Some (l4, w4)
    \<and> u_storage_key u = Build sample_id ''page.txt''
    \<and> (\<exists>v \<in> set (uploads_t (fst w4)). same_upload u v)"
proof -
  let ?key = "Build sample_id ''page.txt''" and ?w = "(empty_db, [Build sample_id ''page.txt'' \<mapsto> 5 :: int])"
  let ?run = "\<lambda>es. live_run bucket_client sample_server es ?w"
  obtain l pr l2 d where l: "live_server bucket_client sample_server = Some l"
    and q: "respond l upload_http ?w = Some (R_Presign (Success pr), l2, (d, [?key \<mapsto> 5]))"
    and pr: "pr_StorageKey pr = ?key" "pr_Name pr = ''page.txt''" by (rule upload_granted)
  have none: "?run [] = Some (l, ?w)" by (simp add: live_run_def l sample_windows)
  have one: "?run ([] @ Http upload_http # []) = Some (l2, (d, [?key \<mapsto> 5]))"
    by (simp add: live_run_def l sample_windows q)
  have "\<exists>l4 w4. ?run ([] @ Http upload_http # [] @ [Job (sample_pass 1)]) = Some (l4, w4)"
    by (simp add: live_run_def l sample_windows q sample_pass_def del: split_paired_Ex)
  then obtain l4 w4 where two: "?run ([] @ Http upload_http # [] @ [Job (sample_pass 1)]) = Some (l4, w4)" by blast
  have "grants_upload (R_Presign (Success pr)) ?key ''page.txt''" using pr by (simp add: grants_upload_def)
  moreover have "?key \<notin> upload_keys (fst ?w)" "db_ok (fst ?w)" by (simp_all add: upload_keys_def empty_db_def db_ok_def)
  moreover have "0 \<le> 72 * Hour" "72 * Hour < 2 ^ 63" "0 \<le> 168 * Hour" "168 * Hour < 2 ^ 63" by (simp_all add: Hour_eq)
  ultimately obtain u where u: "handed_out (sv_Verifier sample_server) upload_http (fst ?w) ?key ''page.txt'' u"
    "(\<exists>v \<in> set (uploads_t (fst w4)). same_upload u v)
      \<or> (\<exists>t. Job t \<in> set ([] @ [Job (sample_pass 1)]) \<and> tn_job t = 1 \<and> u_created_at u + window_of (72 * Hour) (168 * Hour) u < tn_now t)"
    using granted_upload_kept [OF none q one two _ _ _ bucket_client_keeps sample_windows] by blast
  from u(1) have "u_created_at u = pg_ts 7000" by (simp add: handed_out_def upload_http_def)
  with u(2) have "\<exists>v \<in> set (uploads_t (fst w4)). same_upload u v"
    by (auto simp: sample_pass_def window_of_def Hour_eq pg_ts_def split: if_splits)
  with one two u(1) show ?thesis by (auto simp: handed_out_def)
qed

end
