(* ===== verification/Overlaps.thy ===== *)
theory Overlaps
  imports Retention
begin

section \<open>A retention pass among other work\<close>

text \<open>
  The sweep is a series of separate calls; between any two of them requests, other passes and
  other instances of the service go on. Here each call of the job is preceded by whatever the
  others do in the meantime, an arbitrary change of the world, and every call is logged
  with the state before and after it. The code of the job is that of \<open>Workers\<close>, run on wrapped
  methods.
\<close>

record 'w shared =
  sd_world :: 'w
  sd_others :: "('w \<Rightarrow> 'w) list"
  sd_calls :: "('w \<times> 'w) list"

definition meanwhile :: "'w shared \<Rightarrow> 'w" where
  "meanwhile x = (case sd_others x of [] \<Rightarrow> sd_world x | f # fs \<Rightarrow> f (sd_world x))"

definition between :: "('w \<Rightarrow> 'a \<times> 'w) \<Rightarrow> 'w shared \<Rightarrow> 'a \<times> 'w shared" where
  "between f x =
     (case f (meanwhile x) of (r, w) \<Rightarrow>
        (r, \<lparr>sd_world = w, sd_others = tl (sd_others x), sd_calls = sd_calls x @ [(meanwhile x, w)]\<rparr>))"

definition overlapped :: "'w retention_job \<Rightarrow> 'w shared retention_job" where
  "overlapped j =
     \<lparr>rj_ListExpired = \<lambda>a b n. between (rj_ListExpired j a b n),
      rj_Delete = \<lambda>key. between (rj_Delete j key),
      rj_MarkDeleteFailed = \<lambda>key e. between (rj_MarkDeleteFailed j key e),
      rj_DeleteByStorageKey = \<lambda>key. between (rj_DeleteByStorageKey j key),
      rj_GetFileSize = \<lambda>key. between (rj_GetFileSize j key),
      rj_DeleteFile = \<lambda>key. between (rj_DeleteFile j key),
      rj_Record = \<lambda>action subject detail. between (rj_Record j action subject detail),
      rj_AnonTTL = rj_AnonTTL j, rj_OwnedTTL = rj_OwnedTTL j\<rparr>"

lemma overlapped_simps [simp]:
  "rj_ListExpired (overlapped j) a b n = between (rj_ListExpired j a b n)"
  "rj_Delete (overlapped j) key = between (rj_Delete j key)"
  "rj_MarkDeleteFailed (overlapped j) key e = between (rj_MarkDeleteFailed j key e)"
  "rj_DeleteByStorageKey (overlapped j) key = between (rj_DeleteByStorageKey j key)"
  "rj_GetFileSize (overlapped j) key = between (rj_GetFileSize j key)"
  "rj_DeleteFile (overlapped j) key = between (rj_DeleteFile j key)"
  "rj_Record (overlapped j) action subject detail = between (rj_Record j action subject detail)"
  "rj_AnonTTL (overlapped j) = rj_AnonTTL j" "rj_OwnedTTL (overlapped j) = rj_OwnedTTL j"
  by (simp_all add: overlapped_def)

lemma between_eq:
  "between f x = (r, x') \<longleftrightarrow> f (meanwhile x) = (r, sd_world x') \<and> sd_others x' = tl (sd_others x)
     \<and> sd_calls x' = sd_calls x @ [(meanwhile x, sd_world x')]"
  by (cases x') (auto simp: between_def split: prod.splits)

subsection \<open>Alone\<close>

text \<open>When nobody else does anything the wrapped job is the job.\<close>

definition alone :: "'a \<times> 'w shared \<Rightarrow> 'a \<times> 'w \<Rightarrow> bool" where
  "alone p q \<longleftrightarrow> fst p = fst q \<and> sd_world (snd p) = snd q \<and> sd_others (snd p) = []"

lemma between_alone:
  "sd_others x = [] \<Longrightarrow> between f x = (case f (sd_world x) of (r, w) \<Rightarrow>
     (r, \<lparr>sd_world = w, sd_others = [], sd_calls = sd_calls x @ [(sd_world x, w)]\<rparr>))"
  by (simp add: between_def meanwhile_def)

lemma sweep_one_alone:
  assumes "sd_others x = []"
  shows "alone (sweep_one (overlapped j) up x) (sweep_one j up (sd_world x))"
  using assms
  by (simp add: sweep_one_def sweep_absent_def sweep_present_def between_alone alone_def
      split: prod.splits sum.splits option.splits)

lemma sweep_alone:
  "sd_others x = [] \<Longrightarrow> alone (sweep (overlapped j) ups x) (sweep j ups (sd_world x))"
proof (induction ups arbitrary: x)
  case (Cons up ups)
  obtain o1 x1 where one: "sweep_one (overlapped j) up x = (o1, x1)" by (rule prod.exhaust)
  with sweep_one_alone [OF Cons.prems, of j up] have "sweep_one j up (sd_world x) = (o1, sd_world x1)" "sd_others x1 = []"
    by (simp_all add: alone_def prod_eq_iff)
  with Cons.IH [of x1] one show ?case by (auto simp: alone_def split: prod.splits)
qed (simp add: alone_def)

lemma Run_alone:
  assumes "sd_others x = []"
  shows "alone (Retention_Run (overlapped j) now x) (Retention_Run j now (sd_world x))"
proof -
  let ?a = "now + wrap64 (- rj_AnonTTL j)" and ?b = "now + wrap64 (- rj_OwnedTTL j)"
  obtain l r w1 where list: "rj_ListExpired j ?a ?b sweepBatchSize (sd_world x) = ((l, r), w1)" by (metis prod.collapse)
  let ?x1 = "\<lparr>sd_world = w1, sd_others = [], sd_calls = sd_calls x @ [(sd_world x, w1)]\<rparr>"
  from list sweep_alone [of ?x1 j l] assms show ?thesis
    by (cases r) (auto simp: Retention_Run_def between_alone alone_def split: prod.splits)
qed

subsection \<open>Safety of every call\<close>

context retention_backend
begin

text \<open>The others may do anything but put an object under a key of \<open>D\<close>.\<close>

definition lets_go :: "string set \<Rightarrow> ('w \<Rightarrow> 'w) \<Rightarrow> bool" where
  "lets_go D f \<longleftrightarrow> (\<forall>w. ok w \<longrightarrow> ok (f w) \<and> objs (f w) \<inter> D \<subseteq> objs w)"

definition on_course :: "string set \<Rightarrow> 'w shared \<Rightarrow> bool" where
  "on_course D x \<longleftrightarrow> ok (sd_world x) \<and> (\<forall>f \<in> set (sd_others x). lets_go D f)
     \<and> (\<forall>(w, w') \<in> set (sd_calls x). swept_to D w w')"

lemma meanwhile_ok:
  assumes "on_course D x"
  shows "ok (meanwhile x)" and "objs (meanwhile x) \<inter> D \<subseteq> objs (sd_world x)"
  using assms by (auto simp: on_course_def meanwhile_def lets_go_def split: list.splits)

lemma between_on_course:
  assumes "on_course D x" "between f x = (r, x')" "swept_to D (meanwhile x) (sd_world x')"
  shows "on_course D x'" and "key \<in> D \<Longrightarrow> key \<notin> objs (sd_world x) \<Longrightarrow> key \<notin> objs (sd_world x')"
proof -
  have "set (tl (sd_others x)) \<subseteq> set (sd_others x)" by (cases "sd_others x") auto
  with assms show "on_course D x'" by (auto simp: on_course_def between_eq swept_to_def)
  show "key \<in> D \<Longrightarrow> key \<notin> objs (sd_world x) \<Longrightarrow> key \<notin> objs (sd_world x')"
    using meanwhile_ok(2) [OF assms(1)] assms(3) by (auto simp: swept_to_def)
qed

lemma mark_on_course:
  assumes "on_course D x"
  shows "on_course D (snd (between (rj_MarkDeleteFailed job key e) x))"
proof -
  obtain r x' where b: "between (rj_MarkDeleteFailed job key e) x = (r, x')" by (rule prod.exhaust)
  have "swept_to D (meanwhile x) (sd_world x')"
    using marked [OF meanwhile_ok(1) [OF assms], of D key e] b by (simp add: between_eq)
  from between_on_course(1) [OF assms b this] show ?thesis by (simp add: b)
qed

lemma record_on_course:
  assumes "on_course D x"
  shows "on_course D (snd (between (rj_Record job action subject detail) x))"
proof -
  obtain r x' where b: "between (rj_Record job action subject detail) x = (r, x')" by (rule prod.exhaust)
  have "swept_to D (meanwhile x) (sd_world x')"
    using recorded [OF meanwhile_ok(1) [OF assms], of D action subject detail] b by (simp add: between_eq)
  from between_on_course(1) [OF assms b this] show ?thesis by (simp add: b)
qed

lemma drop_on_course:
  assumes "on_course D x" "between (rj_Delete job key) x = (r, x')" "key \<in> D" "key \<notin> objs (sd_world x)"
  shows "on_course D x'"
proof (rule between_on_course(1) [OF assms(1,2)])
  have "key \<notin> objs (meanwhile x)" using meanwhile_ok(2) [OF assms(1)] assms(3,4) by blast
  with dropped [OF meanwhile_ok(1) [OF assms(1)] _ assms(3)] assms(2)
  show "swept_to D (meanwhile x) (sd_world x')" by (simp add: between_eq)
qed

lemma sweep_absent_on_course:
  assumes "on_course D x" "up_StorageKey up \<in> D" "up_StorageKey up \<notin> objs (sd_world x)"
  shows "on_course D (snd (sweep_absent (overlapped job) up x))"
proof -
  obtain r x1 where del: "between (rj_Delete job (up_StorageKey up)) x = (r, x1)" by (rule prod.exhaust)
  from drop_on_course [OF assms(1) del assms(2,3)] mark_on_course record_on_course del show ?thesis
    by (cases r) (simp_all add: sweep_absent_def)
qed

lemma sweep_present_on_course:
  assumes "on_course D x" "up_StorageKey up \<in> D"
  shows "on_course D (snd (sweep_present (overlapped job) up n x))"
proof -
  let ?key = "up_StorageKey up"
  obtain r x1 where del: "between (rj_DeleteFile job ?key) x = (r, x1)" by (rule prod.exhaust)
  then have call: "rj_DeleteFile job ?key (meanwhile x) = (r, sd_world x1)" by (simp add: between_eq)
  note removed = remove_law [OF meanwhile_ok(1) [OF assms(1)] call]
  then have "swept_to D (meanwhile x) (sd_world x1)" using assms(2) by (auto simp: swept_to_def)
  from between_on_course(1) [OF assms(1) del this] have x1: "on_course D x1" .
  show ?thesis
  proof (cases r)
    case (Some e)
    with mark_on_course [OF x1] record_on_course del show ?thesis
      by (simp add: sweep_present_def split: prod.splits) (metis snd_conv)
  next
    case None
    with removed have gone: "?key \<notin> objs (sd_world x1)" by auto
    obtain y x2 where sh: "between (rj_DeleteByStorageKey job ?key) x1 = (y, x2)" by (rule prod.exhaust)
    then have "rj_DeleteByStorageKey job ?key (meanwhile x1) = (y, sd_world x2)" by (simp add: between_eq)
    from shares_law [OF meanwhile_ok(1) [OF x1] this] have "swept_to D (meanwhile x1) (sd_world x2)"
      by (simp add: swept_to_same)
    from between_on_course [OF x1 sh this] have x2: "on_course D x2" "?key \<notin> objs (sd_world x2)"
      using assms(2) gone by blast+
    obtain d x3 where row: "between (rj_Delete job ?key) x2 = (d, x3)" by (rule prod.exhaust)
    from drop_on_course [OF x2(1) row assms(2) x2(2)] mark_on_course record_on_course show ?thesis
      by (cases d; cases y) (simp_all add: sweep_present_def del None sh row)
  qed
qed

lemma sweep_one_on_course:
  assumes "on_course D x" "up_StorageKey up \<in> D"
  shows "on_course D (snd (sweep_one (overlapped job) up x))"
proof -
  let ?key = "up_StorageKey up"
  obtain r x1 where head: "between (rj_GetFileSize job ?key) x = (r, x1)" by (rule prod.exhaust)
  then have "rj_GetFileSize job ?key (meanwhile x) = (r, sd_world x1)" by (simp add: between_eq)
  note law = head_law [OF meanwhile_ok(1) [OF assms(1)] this]
  then have "swept_to D (meanwhile x) (sd_world x1)" by (simp add: swept_to_same)
  from between_on_course(1) [OF assms(1) head this] have x1: "on_course D x1" .
  show ?thesis
    using law sweep_absent_on_course [OF x1 assms(2)] sweep_present_on_course [OF x1 assms(2)]
      mark_on_course [OF x1]
    by (cases r) (auto simp: sweep_one_def head)
qed

lemma sweep_on_course:
  "on_course D x \<Longrightarrow> up_StorageKey ` set ups \<subseteq> D \<Longrightarrow> on_course D (snd (sweep (overlapped job) ups x))"
proof (induction ups arbitrary: x)
  case (Cons up ups)
  obtain o1 x1 where one: "sweep_one (overlapped job) up x = (o1, x1)" by (rule prod.exhaust)
  with Cons.prems sweep_one_on_course [of D x up] have "on_course D x1" by simp
  with Cons.IH [of x1] Cons.prems(2) have "on_course D (snd (sweep (overlapped job) ups x1))" by simp
  with one show ?case by (cases "sweep (overlapped job) ups x1") simp
qed simp

lemma Run_on_course:
  assumes "on_course D x"
    and "due (now + wrap64 (- rj_AnonTTL job)) (now + wrap64 (- rj_OwnedTTL job)) (meanwhile x) \<subseteq> D"
  shows "on_course D (snd (Retention_Run (overlapped job) now x))"
proof -
  let ?a = "now + wrap64 (- rj_AnonTTL job)" and ?b = "now + wrap64 (- rj_OwnedTTL job)"
  obtain l r x1 where list: "between (rj_ListExpired job ?a ?b sweepBatchSize) x = ((l, r), x1)"
    by (metis prod.collapse)
  then have "rj_ListExpired job ?a ?b sweepBatchSize (meanwhile x) = ((l, r), sd_world x1)" by (simp add: between_eq)
  note law = list_law [OF meanwhile_ok(1) [OF assms(1)] this]
  then have "swept_to D (meanwhile x) (sd_world x1)" by (simp add: swept_to_same)
  from between_on_course(1) [OF assms(1) list this] have x1: "on_course D x1" .
  from law assms(2) have "up_StorageKey ` set l \<subseteq> D" by blast
  from sweep_on_course [OF x1 this] x1 show ?thesis
    by (cases r; cases "sweep (overlapped job) l x1") (simp_all add: Retention_Run_def list)
qed

end

subsection \<open>The live job among others\<close>

text \<open>
  C11. The retention sweep is safe among concurrent work: whatever requests, other passes or
  other instances do between its calls, as long as nobody puts an object under a key that
  was due when the sweep listed them, each single call of the sweep removes only the object
  or the row of a key whose upload was past its window, and drops a row only when no
  object is left under its key at that moment.
\<close>

theorem overlapping_sweep_safe:
  assumes "s3_contract c bucket objects"
    and "0 \<le> anon" "anon < 2 ^ 63" "0 \<le> owned" "owned < 2 ^ 63"
    and "\<forall>f \<in> set others. \<forall>w. objects (snd (f w))
      \<inter> due_uploads (now + wrap64 (- anon)) (now + wrap64 (- owned)) (fst w0) \<subseteq> objects (snd w)"
    and "Retention_Run (overlapped (live_retention c bucket anon owned)) now
      \<lparr>sd_world = w0, sd_others = (\<lambda>w. w) # others, sd_calls = []\<rparr> = (r, x)"
  shows "\<forall>(w, w') \<in> set (sd_calls x).
      objects (snd w') \<subseteq> objects (snd w) \<and> upload_keys (fst w') \<subseteq> upload_keys (fst w)
    \<and> (\<forall>key. key \<in> objects (snd w) - objects (snd w') \<or> key \<in> upload_keys (fst w) - upload_keys (fst w') \<longrightarrow>
         (\<exists>u \<in> set (uploads_t (fst w0)). u_storage_key u = key \<and> u_created_at u + window_of anon owned u < now))
    \<and> (\<forall>key \<in> upload_keys (fst w) - upload_keys (fst w'). key \<notin> objects (snd w'))"
proof -
  let ?D = "due_uploads (now + wrap64 (- anon)) (now + wrap64 (- owned)) (fst w0)"
  let ?x = "\<lparr>sd_world = w0, sd_others = (\<lambda>w. w) # others, sd_calls = []\<rparr>"
  have "live_sweep.on_course c bucket objects ?D ?x"
    unfolding live_sweep.on_course_def live_sweep.lets_go_def using assms(1,6) by auto
  then have "live_sweep.on_course c bucket objects ?D x"
    using live_sweep.Run_on_course [where x = ?x and D = ?D and c = c and bucket = bucket and objects = objects
        and anon = anon and owned = owned and now = now] assms(7) by (simp add: meanwhile_def)
  then have "live_sweep.swept_to c bucket objects ?D w w'" if "(w, w') \<in> set (sd_calls x)" for w w'
    using that unfolding live_sweep.on_course_def by auto
  moreover have "\<exists>u \<in> set (uploads_t (fst w0)). u_storage_key u = key \<and> u_created_at u + window_of anon owned u < now"
    if "key \<in> ?D" for key
    using that past_window_since [OF _ assms(2-5)] by (auto simp: due_uploads_def)
  ultimately show ?thesis
    unfolding live_sweep.swept_to_def by (fastforce simp: subset_iff)
qed

text \<open>While the sweep is at work on one file, another is uploaded and recorded.\<close>

definition newcomer :: "db \<times> (string \<rightharpoonup> int) \<Rightarrow> db \<times> (string \<rightharpoonup> int)" where
  "newcomer w = snd (on_db (UploadStore_Create \<lparr>up_StorageKey = ''n'', up_OwnerID = [], up_FileName = ''g'',
     up_SizeBytes = 3, up_CreatedAt = 2 * Hour, up_DeleteAttempts = 0\<rparr>) (fst w, (snd w)(''n'' \<mapsto> 3)))"

theorem overlapping_sweep_safe_witness:
  "\<exists>r x. Retention_Run (overlapped (live_retention bucket_client ''b'' Hour Hour)) (2 * Hour)
      \<lparr>sd_world = (old_db, [''k'' \<mapsto> 5]), sd_others = (\<lambda>w. w) # [newcomer, newcomer], sd_calls = []\<rparr> = (r, x)
    \<and> (\<forall>(w, w') \<in> set (sd_calls x). dom (snd w) - dom (snd w') \<subseteq> {''k''})"
proof -
  let ?a = "2 * Hour + wrap64 (- Hour)"
  let ?x = "\<lparr>sd_world = (old_db, [''k'' \<mapsto> 5 :: int]), sd_others = (\<lambda>w. w) # [newcomer, newcomer], sd_calls = []\<rparr>"
  obtain r x where run: "Retention_Run (overlapped (live_retention bucket_client ''b'' Hour Hour)) (2 * Hour) ?x = (r, x)"
    by (rule prod.exhaust)
  have "due_uploads ?a ?a (fst (old_db, [''k'' \<mapsto> 5 :: int])) \<subseteq> {''k''}"
    by (auto simp: due_uploads_def old_db_def)
  moreover have "dom (snd (newcomer w)) = insert ''n'' (dom (snd w))" for w
    by (simp add: newcomer_def on_db_def split: prod.splits)
  ultimately have others: "\<forall>f \<in> set [newcomer, newcomer]. \<forall>w. dom (snd (f w))
      \<inter> due_uploads ?a ?a (fst (old_db, [''k'' \<mapsto> 5 :: int])) \<subseteq> dom (snd w)" by auto
  have hour: "0 \<le> Hour" "Hour < 2 ^ 63" by (simp_all add: Hour_eq)
  from overlapping_sweep_safe [OF bucket_client_contract hour hour others run] run show ?thesis
    by (intro exI conjI) (assumption, fastforce simp: old_db_def)
qed

end
