(* ===== verification/Races.thy ===== *)
theory Races
  imports Lifetimes
begin

section \<open>Requests that overlap\<close>

text \<open>
  Handlers run concurrently. Re-sharing is not one step: \<open>CreateShare\<close> reads the share, and
  \<open>rotateShare\<close> later writes back what it computed from that reading. Here the two halves
  are separate steps that interleave with those of other requests, with revocations and
  with runs of the purge. The first creation of a share is left out: it is one insertion,
  guarded by the unique columns, under a slug that no other share has had.
\<close>

subsection \<open>Interleavings\<close>

type_synonym pending_rotation = "ctx \<times> create_request \<times> share"

text \<open>\<open>users\<close> are those who send requests; \<open>None\<close> is an anonymous one.\<close>

inductive race_step ::
  "'s s3_client \<Rightarrow> string \<Rightarrow> user option set \<Rightarrow> (db \<times> 's) \<times> pending_rotation set
   \<Rightarrow> (db \<times> 's) \<times> pending_rotation set \<Rightarrow> bool"
  for c :: "'s s3_client" and bucket :: string and users :: "user option set" where
  look: "race_step c bucket users (w, P) (w', insert (ctx, req, s) P)"
    if "ss_GetByStorageKey db_share_store (cq_StorageKey req) w = (Inr s, w')" and "c_User ctx \<in> users"
| finish: "race_step c bucket users (w, P) (w', P)"
    if "(ctx, req, s) \<in> P" and "wired c bucket h"
      and "rotateShare h ctx s req now es w = Some (r, es', w')"
| revoke: "race_step c bucket users (w, P) (w', P)"
    if "wired c bucket h" and "RevokeShare h ctx slug w = (rr, w')"
| purge: "race_step c bucket users ((d, st), P) ((d', st), P)"
    if "Purge_Run (live_purge now) d = (pr, d')"

inductive_cases race_stepE: "race_step c bucket users x y"

text \<open>
  \<open>kept users V0 x\<close>: every share in \<open>x\<close> was there in \<open>V0\<close> with the same owner and file, it has
  at most three codes on its count, and it has its code of \<open>V0\<close> if it is owned and none of
  \<open>users\<close> is its owner.
\<close>

definition outsiders :: "user option set \<Rightarrow> share \<Rightarrow> bool" where
  "outsiders users s \<longleftrightarrow> sh_OwnerID s \<noteq> [] \<and> (\<forall>u. Some u \<in> users \<longrightarrow> usr_ID u \<noteq> sh_OwnerID s)"

definition same_share :: "user option set \<Rightarrow> share \<Rightarrow> share \<Rightarrow> bool" where
  "same_share users s0 t \<longleftrightarrow> sh_OwnerID t = sh_OwnerID s0 \<and> sh_StorageKey t = sh_StorageKey s0
     \<and> sh_Slug t = sh_Slug s0 \<and> 1 \<le> sh_ShareCount t \<and> sh_ShareCount t \<le> MaxShareCount
     \<and> (outsiders users s0 \<longrightarrow> sh_CodeHash t = sh_CodeHash s0 \<and> sh_CodeSalt t = sh_CodeSalt s0)"

definition kept :: "user option set \<Rightarrow> shares \<Rightarrow> shares \<Rightarrow> bool" where
  "kept users V0 V \<longleftrightarrow> (\<forall>slug t. V slug = Some t \<longrightarrow> (\<exists>s0. V0 slug = Some s0 \<and> same_share users s0 t))"

definition snapshots_ok :: "user option set \<Rightarrow> shares \<Rightarrow> pending_rotation set \<Rightarrow> bool" where
  "snapshots_ok users V0 P \<longleftrightarrow> (\<forall>(ctx, req, s) \<in> P. c_User ctx \<in> users \<and> 1 \<le> sh_ShareCount s
     \<and> (\<exists>s0. V0 (sh_Slug s) = Some s0 \<and> sh_OwnerID s = sh_OwnerID s0))"

lemma keptD: "kept users V0 V \<Longrightarrow> V slug = Some t \<Longrightarrow> \<exists>s0. V0 slug = Some s0 \<and> same_share users s0 t"
  by (simp add: kept_def)

lemma kept_removed: "kept users V0 V \<Longrightarrow> (\<And>slug. V' slug = V slug \<or> V' slug = None) \<Longrightarrow> kept users V0 V'"
  unfolding kept_def by (metis option.distinct(1))

lemma race_step_kept:
  assumes "race_step c bucket users (w, P) (w', P')"
    and "db_ok (fst w)" "kept users V0 (share_view (fst w))" "snapshots_ok users V0 P"
  shows "db_ok (fst w') \<and> kept users V0 (share_view (fst w')) \<and> snapshots_ok users V0 P'"
  using assms(1)
proof (cases rule: race_step.cases)
  case (look req s ctx)
  from ShareStore_GetByStorageKey_effect [OF assms(2) db_share_storeD(3) [OF look(2)]]
  have s: "share_view (fst w) (sh_Slug s) = Some s" and w': "db_ok (fst w')" "share_view (fst w') = share_view (fst w)"
    by auto
  from keptD [OF assms(3) s] have "\<exists>s0. V0 (sh_Slug s) = Some s0 \<and> sh_OwnerID s = sh_OwnerID s0"
    and "1 \<le> sh_ShareCount s" by (auto simp: same_share_def)
  with assms(3,4) look w' show ?thesis by (simp add: snapshots_ok_def)
next
  case (finish ctx req s h now es r es')
  from assms(4) finish(2) obtain s0 where user: "c_User ctx \<in> users" and count: "1 \<le> sh_ShareCount s"
    and s0: "V0 (sh_Slug s) = Some s0" "sh_OwnerID s = sh_OwnerID s0"
    by (auto simp: snapshots_ok_def)
  from finish(3) have h: "h_store h = db_share_store" "h_files h = s3_files c bucket"
    "h_uploads h = Some db_upload_lookup" by (simp_all add: wired_def)
  from db_state_ok_self [OF assms(2)] h finish(4) show ?thesis
  proof (cases rule: live.rotateShare_stale)
    case unchanged
    with assms(3,4) finish(1) show ?thesis by (simp add: db_state_ok_def)
  next
    case (rotated s1 code s2 old)
    from keptD [OF assms(3) rotated(5)] s0(1) have old: "same_share users s0 old" by auto
    obtain salt where "sh_ShareCount s1 = sh_ShareCount s + 1" "sh_ShareCount s < MaxShareCount"
      by (rule Rotate_Inr [OF rotated(3)]) simp
    moreover from rotated(4) have "sh_ShareCount s2 = sh_ShareCount s1" by auto
    moreover have "\<not> outsiders users s0"
      using rotated(2) user s0(2) by (auto simp: may_rotate_def outsiders_def)
    ultimately have new: "same_share users s0 (rotated old s2 (pg_ts (sh_ExpiresAt s2)))"
      using old count by (simp add: same_share_def)
    have "kept users V0 (share_view (fst w'))"
      using assms(3) new s0(1) unfolding rotated(6) kept_def by simp
    with rotated(1) assms(4) finish(1) show ?thesis by (simp add: db_state_ok_def)
  qed
next
  case (revoke h ctx slug rr)
  from revoke(2) have "h_store h = db_share_store" by (simp add: wired_def)
  from live.RevokeShare_removes [OF db_state_ok_self [OF assms(2)] this revoke(3)]
  have "db_ok (fst w')" "share_view (fst w') = share_view (fst w) \<or> share_view (fst w') = (share_view (fst w))(slug := None)"
    by (simp_all add: db_state_ok_def)
  with assms(3,4) revoke(1) show ?thesis
    using kept_removed [OF assms(3), of "share_view (fst w')"] by (auto split: if_splits)
next
  case (purge now d pr d' st)
  with assms(2) Purge_Run_purged [of d now pr d'] have p: "purged now (share_view d) d'" by simp
  then have "share_view d' slug = share_view d slug \<or> share_view d' slug = None" for slug
    by (auto simp: purged_def)
  with purge assms(3,4) p kept_removed [of users V0 "share_view d" "share_view d'"]
  show ?thesis by (simp add: purged_def)
qed

lemma race_steps_kept:
  assumes "(race_step c bucket users)\<^sup>*\<^sup>* x y"
    and "db_ok (fst (fst x))" "kept users V0 (share_view (fst (fst x)))" "snapshots_ok users V0 (snd x)"
  shows "db_ok (fst (fst y)) \<and> kept users V0 (share_view (fst (fst y))) \<and> snapshots_ok users V0 (snd y)"
  using assms
proof (induction rule: rtranclp_induct)
  case (step y z)
  then show ?case using race_step_kept [of c bucket users "fst y" "snd y" "fst z" "snd z" V0] by simp
qed simp

text \<open>
  C16. Overlapping requests cannot hijack a share: however lookups and rotations of any requests
  interleave with each other, with revocations and with the purge, every share still
  belongs to the same owner and file, its stored count stays between 1 and 3, and the code
  of a share whose owner sends no request is still the one it had.
\<close>

theorem races_keep_ownership:
  assumes "(race_step c bucket users)\<^sup>*\<^sup>* (w, {}) (w', P)" "db_ok (fst w)" "shares_ok (share_view (fst w))"
    and "share_view (fst w') slug = Some t"
  shows "\<exists>s. share_view (fst w) slug = Some s \<and> sh_OwnerID t = sh_OwnerID s
    \<and> sh_StorageKey t = sh_StorageKey s \<and> 1 \<le> sh_ShareCount t \<and> sh_ShareCount t \<le> 3
    \<and> (sh_OwnerID s \<noteq> [] \<and> (\<forall>u. Some u \<in> users \<longrightarrow> usr_ID u \<noteq> sh_OwnerID s)
         \<longrightarrow> sh_CodeHash t = sh_CodeHash s \<and> sh_CodeSalt t = sh_CodeSalt s)"
proof -
  have "kept users (share_view (fst w)) (share_view (fst w))"
    using shares_okD [OF assms(3)] by (auto simp: kept_def same_share_def)
  with race_steps_kept [OF assms(1), of "share_view (fst w)"] assms(2)
  have "kept users (share_view (fst w)) (share_view (fst w'))" by (simp add: snapshots_ok_def)
  from keptD [OF this assms(4)] show ?thesis
    by (auto simp: same_share_def outsiders_def MaxShareCount_def)
qed

theorem races_keep_ownership_witness:
  "\<exists>s. share_view created_db ''aaaaaaaaaa'' = Some s \<and> sh_CodeHash (scanShare created_row) = sh_CodeHash s"
proof -
  let ?w = "(created_db, ())"
  let ?ctx = "\<lparr>c_ClientIP = ''10.0.0.7'', c_User = None\<rparr>"
  have "ss_GetByStorageKey db_share_store (cq_StorageKey sample_create) ?w = (Inr (scanShare created_row), ?w)"
    by (simp add: db_share_store_def on_db_def ShareStore_GetByStorageKey_def get_share_def
        sql_select_shares_def created_db_def created_row_def sample_create_def)
  then have "race_step two_page_client ''b'' {None} (?w, {}) (?w, {(?ctx, sample_create, scanShare created_row)})"
    by (intro race_step.look) simp_all
  then have steps: "(race_step two_page_client ''b'' {None})\<^sup>*\<^sup>* (?w, {}) (?w, {(?ctx, sample_create, scanShare created_row)})"
    by blast
  have owner: "sh_OwnerID (scanShare created_row) = ''u-1''" by (simp add: scanShare_def created_row_def from_null_def)
  have "ValidateSlug ''aaaaaaaaaa'' = None"
    by (simp add: ValidateSlug_iff slugLength_def slugAlphabet_def)
  then have "db_ok created_db" "shares_ok (share_view created_db)"
    by (simp_all add: created_ok shares_ok_def created_view MaxShareCount_def)
      (simp add: scanShare_def created_row_def)
  from races_keep_ownership [OF steps, of "''aaaaaaaaaa''" "scanShare created_row"] this owner show ?thesis
    by (auto simp: created_view)
qed

subsection \<open>The limit of three codes\<close>

text \<open>
  Re-share requests that all looked the share up before the first of them stored its code:
  each finishes with its own clock and random bytes, one after the other.
\<close>

fun finish_all ::
  "'w share_handler \<Rightarrow> ctx \<Rightarrow> share \<Rightarrow> (create_request \<times> time \<times> entropy) list \<Rightarrow> 'w
   \<Rightarrow> (create_response response list \<times> 'w) option" where
  "finish_all h ctx s [] w = Some ([], w)"
| "finish_all h ctx s ((req, now, es) # fs) w =
     (case rotateShare h ctx s req now es w of
        None \<Rightarrow> None
      | Some (r, es', w1) \<Rightarrow> map_option (\<lambda>(rs, w2). (r # rs, w2)) (finish_all h ctx s fs w1))"

lemma fair_lookup: "weather d = [] \<Longrightarrow> snd (UploadStore_GetByStorageKey key d) = d"
  by (simp add: UploadStore_GetByStorageKey_def split: list.splits)

lemma fair_cap:
  assumes "wired c bucket h" "weather (fst w) = []" "capToRetention h key s w = (s', w')"
  shows "fst w' = fst w \<and> (\<exists>e. s' = s\<lparr>sh_ExpiresAt := e\<rparr>)"
proof -
  obtain up w1 where up: "db_upload_lookup key w = (up, w1)" by (rule prod.exhaust)
  then have "fst w1 = fst w"
    using fair_lookup [OF assms(2), of key] by (simp add: db_upload_lookup_def on_db_eq)
  moreover have "\<exists>e. s = s\<lparr>sh_ExpiresAt := e\<rparr>" by (intro exI [of _ "sh_ExpiresAt s"]) simp
  ultimately show ?thesis
    using assms(1,3) up by (auto simp: capToRetention_def wired_def Let_def split: sum.splits if_splits)
qed

lemma fair_RotateCode:
  assumes "weather d = []" "share_view d (sh_Slug s) \<noteq> None"
  shows "\<exists>d'. ShareStore_RotateCode s d = (None, d') \<and> weather d' = [] \<and> share_view d' (sh_Slug s) \<noteq> None"
proof -
  let ?d = "d\<lparr>shares_t := map (update_row s) (shares_t d)\<rparr>"
  from assms(2) have "sh_Slug s \<in> set (map r_slug (shares_t d))"
    by (simp add: share_view_def rows_view_None)
  then have "filter (\<lambda>r. r_slug r = sh_Slug s) (shares_t d) \<noteq> []" by (auto simp: filter_empty_conv)
  then have "ShareStore_RotateCode s d = (None, ?d)"
    using assms(1) by (simp add: ShareStore_RotateCode_def sql_update_share_eq)
  moreover have "share_view ?d (sh_Slug s) \<noteq> None"
    using assms(2) by (auto simp: share_view_def rows_view_update)
  ultimately show ?thesis using assms(1) by auto
qed

definition confirms_all :: "'s s3_client \<Rightarrow> string \<Rightarrow> string \<Rightarrow> bool" where
  "confirms_all c bucket key \<longleftrightarrow> (\<forall>s. \<exists>n s'. c_HeadObject c bucket key s = (Inr n, s'))"

definition draws :: "share \<Rightarrow> create_request \<times> time \<times> entropy \<Rightarrow> bool" where
  "draws s = (\<lambda>(req, now, es). \<exists>x es'. Rotate (s\<lparr>sh_RecipientEmail := cq_RecipientEmail req\<rparr>) (ttl_of req) now es
     = Some (Inr x, es'))"

lemma stale_rotation_succeeds:
  assumes "wired c bucket h" "may_rotate (c_User ctx) s" "confirms_all c bucket (sh_StorageKey s)"
    and "weather (fst w) = []" "share_view (fst w) (sh_Slug s) \<noteq> None" "draws s (req, now, es)"
  shows "\<exists>resp es' w'. rotateShare h ctx s req now es w = Some (Success resp, es', w')
    \<and> cr_Slug resp = sh_Slug s \<and> cr_ShareCount resp = sh_ShareCount s + 1
    \<and> weather (fst w') = [] \<and> share_view (fst w') (sh_Slug s) \<noteq> None"
proof -
  let ?s = "s\<lparr>sh_RecipientEmail := cq_RecipientEmail req\<rparr>"
  from assms(1) have h: "h_store h = db_share_store" "h_files h = s3_files c bucket" by (simp_all add: wired_def)
  from assms(3) obtain n s' where "c_HeadObject c bucket (sh_StorageKey s) (snd w) = (Inr n, s')"
    unfolding confirms_all_def by blast
  then obtain m where size: "os_GetFileSize (s3_files c bucket) (sh_StorageKey s) w = (Inr m, (fst w, s'))"
    by (simp add: s3_files_def on_s3_def S3_GetFileSize_def)
  from assms(6) obtain s1 code es' where rot: "Rotate ?s (ttl_of req) now es = Some (Inr (s1, code), es')"
    unfolding draws_def by auto
  obtain salt where s1: "sh_Slug s1 = sh_Slug s" "sh_StorageKey s1 = sh_StorageKey s"
    "sh_ShareCount s1 = sh_ShareCount s + 1"
    by (rule Rotate_Inr [OF rot]) simp
  obtain s2 w2 where cap: "capToRetention h (sh_StorageKey s1) s1 (fst w, s') = (s2, w2)" by (rule prod.exhaust)
  from fair_cap [OF assms(1) _ cap] assms(4) have w2: "fst w2 = fst w" and "\<exists>e. s2 = s1\<lparr>sh_ExpiresAt := e\<rparr>"
    by simp_all
  with s1 have s2: "sh_Slug s2 = sh_Slug s" "sh_ShareCount s2 = sh_ShareCount s + 1" by auto
  from fair_RotateCode [of "fst w2" s2] w2 s2 assms(4,5) obtain d' where
    d': "ShareStore_RotateCode s2 (fst w2) = (None, d')" "weather d' = []" "share_view d' (sh_Slug s) \<noteq> None"
    by auto
  then have up: "ss_RotateCode db_share_store s2 w2 = (None, (d', snd w2))"
    by (simp add: db_share_store_def on_db_def)
  from assms(2) have guard: "\<not> (sh_OwnerID s \<noteq> [] \<and>
      (case c_User ctx of None \<Rightarrow> True | Some user \<Rightarrow> usr_ID user \<noteq> sh_OwnerID s))"
    by (auto simp: may_rotate_def)
  have "rotateShare h ctx s req now es w = Some (Success (create_reply s2 code True), es', (d', snd w2))"
    unfolding rotateShare_def Let_def using guard size rot cap up h by simp
  with s2 d' show ?thesis by (simp add: create_reply_def)
qed

text \<open>
  The limit of three codes per file does not hold for overlapping requests: any number of
  re-share requests that read the share before the first of them stored its code all
  succeed, each handing out a code and reporting the same count, and the stored count
  grows by one. So with a count of 2, a hundred parallel requests hand out a hundred
  codes, and all but the last stored one are dead although they were reported as good.
\<close>

theorem share_limit_bypassed:
  assumes "wired c bucket h" "may_rotate (c_User ctx) s" "confirms_all c bucket (sh_StorageKey s)"
    and "weather (fst w) = []" "share_view (fst w) (sh_Slug s) \<noteq> None" "\<forall>f \<in> set fs. draws s f"
  shows "\<exists>rs w'. finish_all h ctx s fs w = Some (rs, w') \<and> length rs = length fs
    \<and> (\<forall>r \<in> set rs. \<exists>resp. r = Success resp \<and> cr_Slug resp = sh_Slug s
         \<and> cr_ShareCount resp = sh_ShareCount s + 1)"
  using assms(4-6)
proof (induction fs arbitrary: w)
  case (Cons f fs)
  obtain req now es where f: "f = (req, now, es)" by (rule prod_cases3)
  from stale_rotation_succeeds [OF assms(1-3) Cons.prems(1,2), of req now es] Cons.prems(3) f
  obtain resp es' w1 where one: "rotateShare h ctx s req now es w = Some (Success resp, es', w1)"
    "cr_Slug resp = sh_Slug s" "cr_ShareCount resp = sh_ShareCount s + 1"
    "weather (fst w1) = []" "share_view (fst w1) (sh_Slug s) \<noteq> None"
    by auto
  from Cons.IH [OF one(4,5)] Cons.prems(3) obtain rs w2 where "finish_all h ctx s fs w1 = Some (rs, w2)"
    "length rs = length fs" "\<forall>r \<in> set rs. \<exists>resp. r = Success resp \<and> cr_Slug resp = sh_Slug s
         \<and> cr_ShareCount resp = sh_ShareCount s + 1"
    by auto
  with one f show ?case by auto
qed simp

theorem share_limit_bypassed_witness:
  "\<exists>rs w'. finish_all sample_handler sample_ctx (scanShare created_row)
       (replicate 5 (sample_create, 9000, zeros codeLength @ zeros saltLength @ [])) (created_db, ()) = Some (rs, w')
     \<and> length rs = 5 \<and> (\<forall>r \<in> set rs. \<exists>resp. r = Success resp \<and> cr_ShareCount resp = 2)"
proof -
  let ?s = "scanShare created_row"
  have s: "sh_ShareCount ?s = 1" "sh_OwnerID ?s = ''u-1''" "sh_Slug ?s = ''aaaaaaaaaa''"
    by (simp_all add: scanShare_def created_row_def from_null_def)
  have "may_rotate (c_User sample_ctx) ?s" by (simp add: may_rotate_def sample_ctx_def created_row_def from_null_def)
  moreover have "confirms_all two_page_client ''b'' (sh_StorageKey ?s)"
    by (simp add: confirms_all_def two_page_client_def)
  moreover have "draws ?s (sample_create, 9000, zeros codeLength @ zeros saltLength @ [])"
    unfolding draws_def
    using Rotate_zeros [of "?s\<lparr>sh_RecipientEmail := cq_RecipientEmail sample_create\<rparr>" "ttl_of sample_create" 9000 "[]"] s(1)
    by (simp add: MaxShareCount_def)
  ultimately show ?thesis
    using share_limit_bypassed [OF sample_wired, of sample_ctx ?s "(created_db, ())"
        "replicate 5 (sample_create, 9000, zeros codeLength @ zeros saltLength @ [])"] s created_ok
    by (fastforce simp: created_view)
qed

subsection \<open>The purge and a share in the making\<close>

text \<open>
  The purge deletes by slug what it listed as expired, without looking at the expiry again:
  a share rotated in between, with a fresh code and a future expiry, is deleted all the
  same.
\<close>

lemma purge_deletes_rotated:
  assumes "weather d = []" "db_ok d" "share_view d (sh_Slug stale) \<noteq> None"
  shows "share_view (purge_one (live_purge dbnow) stale d) (sh_Slug stale) = None"
proof -
  have "purge_one (live_purge dbnow) stale d =
      d\<lparr>shares_t := filter (\<lambda>x. r_slug x \<noteq> sh_Slug stale) (shares_t d),
        audit_t := audit_t d @ [\<lparr>a_action = ''purge_share'', a_subject = sh_Slug stale, a_detail = purged_share_of stale\<rparr>]\<rparr>"
    using assms(1) by (simp add: purge_one_def live_purge_def ShareStore_DeleteBySlug_def affected_def
        sql_delete_shares_def fair_worker_calls)
  then show ?thesis by (auto simp: share_view_def rows_view_None)
qed

end
